(* ===== verification/Prelude.thy ===== *)
theory Prelude
  imports Main "HOL-Library.Sublist"
begin

text \<open>
  Shared ground of the development.

  \<^item> Results: code that may raise returns \<open>'e + 'a\<close>, the exception on the left. \<open>rbind\<close>
    sequences two such computations and \<open>rmap\<close> runs one over a list and stops at the first
    exception, the way a Python \<^verbatim>\<open>for\<close> loop whose body may raise does.
  \<^item> Strings: a Python \<^verbatim>\<open>str\<close> is a sequence of Unicode code points, so it is a list of natural
    numbers (\<open>pstr\<close>). \<open>u ''abc''\<close> is the literal \<^verbatim>\<open>"abc"\<close>; two literals are equal exactly when
    their spellings are (\<open>u_eq\<close>), so that the simplifier decides literal comparisons without
    expanding them. The string methods the program calls (\<^verbatim>\<open>strip\<close>, \<^verbatim>\<open>split\<close>, \<^verbatim>\<open>join\<close>,
    \<^verbatim>\<open>startswith\<close>, \<^verbatim>\<open>in\<close>, \<^verbatim>\<open>splitlines\<close>) are written out on code points, with Python's
    notion of white space and of a decimal digit.
  \<^item> Dictionaries: an association list in insertion order; \<open>dict_put\<close> overwrites in place and
    appends a new key at the end, as a Python \<^verbatim>\<open>dict\<close> does.
\<close>

named_theorems res_simps \<open>how results are taken apart\<close>
named_theorems str_simps \<open>string operations on literals and on concatenations\<close>
named_theorems dict_simps \<open>insertion ordered dictionaries\<close>

section \<open>Results\<close>

definition rbind :: "'e + 'a \<Rightarrow> ('a \<Rightarrow> 'e + 'b) \<Rightarrow> 'e + 'b" where
  "rbind m f = (case m of Inl e \<Rightarrow> Inl e | Inr x \<Rightarrow> f x)"

fun rmap :: "('a \<Rightarrow> 'e + 'b) \<Rightarrow> 'a list \<Rightarrow> 'e + 'b list" where
  "rmap f [] = Inr []"
| "rmap f (x # xs) = rbind (f x) (\<lambda>y. rbind (rmap f xs) (\<lambda>ys. Inr (y # ys)))"

text \<open>A guard clause \<^verbatim>\<open>if c: raise e\<close> in front of the rest of a body.\<close>

definition rfail_if :: "bool \<Rightarrow> 'e \<Rightarrow> 'e + 'a \<Rightarrow> 'e + 'a" where
  "rfail_if c e m = (if c then Inl e else m)"

definition is_ok :: "'e + 'a \<Rightarrow> bool" where
  "is_ok m = (case m of Inl _ \<Rightarrow> False | Inr _ \<Rightarrow> True)"

lemma rbind_Inl [simp, res_simps]: "rbind (Inl e) f = Inl e"
  by (simp add: rbind_def)

lemma rbind_Inr [simp, res_simps]: "rbind (Inr x) f = f x"
  by (simp add: rbind_def)

lemma rbind_eq_Inr [res_simps]: "rbind m f = Inr y \<longleftrightarrow> (\<exists>x. m = Inr x \<and> f x = Inr y)"
  by (cases m) auto

lemma rbind_eq_Inl [res_simps]:
  "rbind m f = Inl e \<longleftrightarrow> m = Inl e \<or> (\<exists>x. m = Inr x \<and> f x = Inl e)"
  by (cases m) auto

lemma rfail_if_eq_Inr [res_simps]: "rfail_if c e m = Inr y \<longleftrightarrow> \<not> c \<and> m = Inr y"
  by (simp add: rfail_if_def)

lemma rfail_if_eq_Inl [res_simps]:
  "rfail_if c e m = Inl e' \<longleftrightarrow> (c \<and> e = e') \<or> (\<not> c \<and> m = Inl e')"
  by (auto simp: rfail_if_def)

lemma rfail_if_True [simp]: "rfail_if True e m = Inl e"
  by (simp add: rfail_if_def)

lemma rfail_if_False [simp]: "rfail_if False e m = m"
  by (simp add: rfail_if_def)

lemma is_ok_simps [simp]: "is_ok (Inr x)" "\<not> is_ok (Inl e)"
  by (simp_all add: is_ok_def)

lemma is_ok_iff: "is_ok m \<longleftrightarrow> (\<exists>x. m = Inr x)"
  by (cases m) auto

lemma not_Inl_iff: "(\<forall>e. m \<noteq> Inl e) \<longleftrightarrow> (\<exists>x. m = Inr x)"
  by (cases m) auto

lemma rmap_eq_Inr: "rmap f xs = Inr ys \<Longrightarrow> length ys = length xs \<and> (\<forall>i<length xs. f (xs ! i) = Inr (ys ! i))"
proof (induction xs arbitrary: ys)
  case Nil
  then show ?case by simp
next
  case (Cons x xs)
  then obtain y zs where "f x = Inr y" "rmap f xs = Inr zs" "ys = y # zs"
    by (auto simp: res_simps)
  with Cons.IH [of zs] show ?case
    by (auto simp: nth_Cons split: nat.splits)
qed

lemma rmap_Inr_map: "(\<And>x. x \<in> set xs \<Longrightarrow> f x = Inr (g x)) \<Longrightarrow> rmap f xs = Inr (map g xs)"
  by (induction xs) auto

section \<open>Strings\<close>

type_synonym pstr = "nat list"

definition u :: "string \<Rightarrow> pstr" where
  "u s = map of_char s"

lemma inj_of_char_nat: "inj (of_char :: char \<Rightarrow> nat)"
  by (rule injI) simp

lemma u_eq [simp, str_simps]: "u s = u t \<longleftrightarrow> s = t"
  by (simp add: u_def inj_map_eq_map [OF inj_of_char_nat])

lemma u_Nil [simp, str_simps]: "u [] = []"
  by (simp add: u_def)

lemma u_eq_Nil [simp, str_simps]: "u s = [] \<longleftrightarrow> s = []" "[] = u s \<longleftrightarrow> s = []"
  by (auto simp: u_def)

lemma length_u [simp, str_simps]: "length (u s) = length s"
  by (simp add: u_def)

lemma u_append [str_simps]: "u (s @ t) = u s @ u t"
  by (simp add: u_def)

lemma u_Cons [str_simps]: "u (c # s) = of_char c # u s"
  by (simp add: u_def)

text \<open>
  \<^verbatim>\<open>str.isspace\<close>, which is also what \<^verbatim>\<open>str.split()\<close>, \<^verbatim>\<open>str.strip()\<close> and the regular
  expression class \<^verbatim>\<open>\s\<close> use.
\<close>

definition is_space :: "nat \<Rightarrow> bool" where
  "is_space c \<longleftrightarrow> 9 \<le> c \<and> c \<le> 13 \<or> 28 \<le> c \<and> c \<le> 32 \<or> c = 133 \<or> c = 160 \<or> c = 5760
     \<or> 8192 \<le> c \<and> c \<le> 8202 \<or> c = 8232 \<or> c = 8233 \<or> c = 8239 \<or> c = 8287 \<or> c = 12288"

text \<open>
  The regular expression class \<^verbatim>\<open>\d\<close> on a \<^verbatim>\<open>str\<close> pattern: the Unicode category Nd, which is
  a set of runs of ten code points; the list holds the code point of each run's zero.
\<close>

definition nd_zeros :: "nat list" where
  "nd_zeros = [48, 1632, 1776, 1984, 2406, 2534, 2662, 2790, 2918, 3046, 3174, 3302, 3430, 3558, 3664,
     3792, 3872, 4160, 4240, 6112, 6160, 6470, 6608, 6784, 6800, 6992, 7088, 7232, 7248, 42528,
     43216, 43264, 43472, 43504, 43600, 44016, 65296, 66720, 68912, 69734, 69872, 69942, 70096,
     70384, 70736, 70864, 71248, 71360, 71472, 71904, 72016, 72784, 73040, 73120, 92768, 92864,
     93008, 120782, 120792, 120802, 120812, 120822, 123200, 123632, 125264, 130032]"

definition is_nd :: "nat \<Rightarrow> bool" where
  "is_nd c \<longleftrightarrow> list_ex (\<lambda>z. z \<le> c \<and> c \<le> z + 9) nd_zeros"

definition is_digit :: "nat \<Rightarrow> bool" where
  "is_digit c \<longleftrightarrow> 48 \<le> c \<and> c \<le> 57"

definition is_lower :: "nat \<Rightarrow> bool" where
  "is_lower c \<longleftrightarrow> 97 \<le> c \<and> c \<le> 122"

definition is_upper :: "nat \<Rightarrow> bool" where
  "is_upper c \<longleftrightarrow> 65 \<le> c \<and> c \<le> 90"

definition is_alpha :: "nat \<Rightarrow> bool" where
  "is_alpha c \<longleftrightarrow> is_lower c \<or> is_upper c"

definition is_hex :: "nat \<Rightarrow> bool" where
  "is_hex c \<longleftrightarrow> is_digit c \<or> 97 \<le> c \<and> c \<le> 102"

definition py_strip :: "pstr \<Rightarrow> pstr" where
  "py_strip s = rev (dropWhile is_space (rev (dropWhile is_space s)))"

fun py_split_acc :: "pstr \<Rightarrow> pstr \<Rightarrow> pstr list" where
  "py_split_acc acc [] = (if acc = [] then [] else [rev acc])"
| "py_split_acc acc (c # cs) =
     (if is_space c then (if acc = [] then py_split_acc [] cs else rev acc # py_split_acc [] cs)
      else py_split_acc (c # acc) cs)"

definition py_split :: "pstr \<Rightarrow> pstr list" where
  "py_split s = py_split_acc [] s"

fun py_join :: "pstr \<Rightarrow> pstr list \<Rightarrow> pstr" where
  "py_join sep [] = []"
| "py_join sep [x] = x"
| "py_join sep (x # y # zs) = x @ sep @ py_join sep (y # zs)"

definition py_startswith :: "pstr \<Rightarrow> pstr \<Rightarrow> bool" where
  "py_startswith s p = prefix p s"

text \<open>\<^verbatim>\<open>t in s\<close> on strings.\<close>

fun py_in :: "pstr \<Rightarrow> pstr \<Rightarrow> bool" where
  "py_in t [] = (t = [])"
| "py_in t (c # cs) = (prefix t (c # cs) \<or> py_in t cs)"

lemma py_in_iff: "py_in t s \<longleftrightarrow> (\<exists>a b. s = a @ t @ b)"
proof (induction s)
  case Nil
  then show ?case by auto
next
  case (Cons c s)
  have "(\<exists>a b. c # s = a @ t @ b) \<longleftrightarrow> prefix t (c # s) \<or> (\<exists>a b. s = a @ t @ b)"
    by (auto simp: prefix_def Cons_eq_append_conv)
  with Cons show ?case by simp
qed

lemma py_in_single: "py_in [c] s \<longleftrightarrow> c \<in> set s"
  by (induction s) auto

lemma py_split_acc_nonspace:
  "\<forall>c\<in>set acc. \<not> is_space c \<Longrightarrow> w \<in> set (py_split_acc acc s) \<Longrightarrow>
     w \<noteq> [] \<and> (\<forall>c\<in>set w. \<not> is_space c)"
proof (induction s arbitrary: acc)
  case Nil
  then show ?case by (cases "acc = []") auto
next
  case (Cons c s)
  show ?case
  proof (cases "is_space c")
    case True
    with Cons.prems Cons.IH [of "[]"] show ?thesis by (cases "acc = []") auto
  next
    case False
    with Cons.prems Cons.IH [of "c # acc"] show ?thesis by simp
  qed
qed

lemma py_split_word:
  assumes "w \<in> set (py_split s)"
  shows "w \<noteq> []" and "\<forall>c\<in>set w. \<not> is_space c"
  using py_split_acc_nonspace [of "[]" w s] assms by (auto simp: py_split_def)

lemma py_split_acc_word:
  "(\<forall>c\<in>set w. \<not> is_space c) \<Longrightarrow> py_split_acc acc (w @ s) = py_split_acc (rev w @ acc) s"
  by (induction w arbitrary: acc) auto

text \<open>
  Splitting what \<^verbatim>\<open>" ".join\<close> put together gives the words back: the round trip on which the
  matcher's comparison of normalised commands rests.
\<close>

lemma py_split_join:
  "\<forall>w\<in>set ws. w \<noteq> [] \<and> (\<forall>c\<in>set w. \<not> is_space c) \<Longrightarrow> py_split (py_join [32] ws) = ws"
proof (induction "[32] :: pstr" ws rule: py_join.induct)
  case 1
  then show ?case by (simp add: py_split_def)
next
  case (2 x)
  then show ?case
    using py_split_acc_word [of x "[]" "[]"] by (simp add: py_split_def)
next
  case (3 x y zs)
  then show ?case
    using py_split_acc_word [of x "[]" "32 # py_join [32] (y # zs)"]
    by (simp add: py_split_def is_space_def)
qed

lemma py_split_join_split [simp]: "py_split (py_join [32] (py_split s)) = py_split s"
  by (rule py_split_join) (auto dest: py_split_word)

lemma set_py_split_acc: "w \<in> set (py_split_acc acc s) \<Longrightarrow> set w \<subseteq> set acc \<union> set s"
  by (induction acc s rule: py_split_acc.induct) (auto split: if_splits)

lemma set_py_split: "w \<in> set (py_split s) \<Longrightarrow> set w \<subseteq> set s"
  using set_py_split_acc [of w "[]" s] by (simp add: py_split_def)

lemma py_strip_eq_Nil: "py_strip s = [] \<longleftrightarrow> (\<forall>c\<in>set s. is_space c)"
proof (cases "dropWhile is_space s")
  case Nil
  then have "\<forall>c\<in>set s. is_space c" by (simp add: dropWhile_eq_Nil_conv)
  moreover have "py_strip s = []" unfolding py_strip_def Nil by simp
  ultimately show ?thesis by simp
next
  case (Cons c cs)
  then have "\<not> is_space c" and "c \<in> set s"
    using hd_dropWhile [of is_space s] set_dropWhileD [of c is_space s] by auto
  then have "\<not> (\<forall>c\<in>set s. is_space c)" by blast
  moreover have "py_strip s \<noteq> []"
    using Cons \<open>\<not> is_space c\<close> by (simp add: py_strip_def dropWhile_eq_Nil_conv)
  ultimately show ?thesis by simp
qed

text \<open>The white space among the characters of a literal.\<close>

definition space_chars :: string where
  "space_chars = [CHR 0x09, CHR 0x0A, CHR 0x0B, CHR 0x0C, CHR 0x0D, CHR 0x1C, CHR 0x1D, CHR 0x1E, CHR 0x1F,
     CHR 0x20, CHR 0x85, CHR 0xA0]"

lemma space_char_cases:
  assumes "is_space (of_char c)"
  shows "c \<in> set space_chars"
proof -
  define n where "n = (of_char c :: nat)"
  have "n < 256" by (simp add: n_def)
  with assms have "n \<in> {9, 10, 11, 12, 13, 28, 29, 30, 31, 32, 133, 160}"
    by (auto simp: n_def [symmetric] is_space_def)
  also have "\<dots> = of_char ` set space_chars" by (simp add: space_chars_def)
  finally show ?thesis by (auto simp: n_def)
qed

lemma nonblank_literal: "s \<noteq> [] \<Longrightarrow> hd s \<notin> set space_chars \<Longrightarrow> py_strip (u s) \<noteq> []"
  by (cases s) (auto simp: py_strip_eq_Nil u_Cons dest: space_char_cases)

section \<open>Insertion ordered dictionaries\<close>

fun dict_put :: "'k \<Rightarrow> 'v \<Rightarrow> ('k \<times> 'v) list \<Rightarrow> ('k \<times> 'v) list" where
  "dict_put k v [] = [(k, v)]"
| "dict_put k v ((k', v') # d) = (if k' = k then (k, v) # d else (k', v') # dict_put k v d)"

lemma map_of_dict_put [simp, dict_simps]: "map_of (dict_put k v d) = (map_of d)(k \<mapsto> v)"
  by (induction k v d rule: dict_put.induct) (auto simp: fun_eq_iff)

lemma keys_dict_put: "fst ` set (dict_put k v d) = insert k (fst ` set d)"
  by (induction k v d rule: dict_put.induct) auto

lemma distinct_dict_put: "distinct (map fst d) \<Longrightarrow> distinct (map fst (dict_put k v d))"
proof (induction k v d rule: dict_put.induct)
  case (2 k v k' v' d)
  then show ?case using keys_dict_put [of k v d] by (auto simp: image_iff)
qed simp

definition dict_of :: "('k \<times> 'v) list \<Rightarrow> ('k \<times> 'v) list" where
  "dict_of kvs = fold (\<lambda>(k, v). dict_put k v) kvs []"

lemma map_of_fold_dict_put:
  "map_of (fold (\<lambda>(k, v). dict_put k v) kvs d) = map_of d ++ map_of (rev kvs)"
  by (induction kvs arbitrary: d) (auto simp: map_add_upd_left fun_eq_iff map_add_def split: option.splits)

lemma map_of_dict_of [dict_simps]: "map_of (dict_of kvs) = map_of (rev kvs)"
  by (simp add: dict_of_def map_of_fold_dict_put)

lemma distinct_dict_of: "distinct (map fst (dict_of kvs))"
proof -
  have "distinct (map fst d) \<Longrightarrow> distinct (map fst (fold (\<lambda>(k, v). dict_put k v) kvs d))" for d :: "('a \<times> 'b) list"
    by (induction kvs arbitrary: d) (auto intro: distinct_dict_put)
  then show ?thesis by (simp add: dict_of_def)
qed

lemma map_filter_Nil [simp]: "List.map_filter f [] = []"
  by (simp add: List.map_filter_def)

lemma map_filter_Cons [simp]:
  "List.map_filter f (x # xs) = (case f x of None \<Rightarrow> List.map_filter f xs | Some y \<Rightarrow> y # List.map_filter f xs)"
  by (simp add: List.map_filter_def split: option.split)

lemma set_map_filter: "set (List.map_filter f xs) = {y. \<exists>x\<in>set xs. f x = Some y}"
  by (induction xs) (auto split: option.splits)

lemma map_of_fold_dict_put_fun:
  "map_of (fold (\<lambda>n. dict_put n (f n)) ns d) n = (if n \<in> set ns then Some (f n) else map_of d n)"
  by (induction ns arbitrary: d) auto

lemma keys_fold_dict_put_fun:
  "fst ` set (fold (\<lambda>n. dict_put n (f n)) ns d) = set ns \<union> fst ` set d"
  by (induction ns arbitrary: d) (auto simp: keys_dict_put)

lemma map_of_map_key: "map_of (map (\<lambda>n. (n, f n)) ns) n = (if n \<in> set ns then Some (f n) else None)"
  by (induction ns) auto

end
