(* ===== verification/PyValue.thy ===== *)
theory PyValue
  imports Prelude
begin

text \<open>
  The values AgentDeck reads from and writes to its JSON ledger, and the few Python operations
  the code applies to them without knowing their type: \<^verbatim>\<open>dict.get\<close>, truth value, \<^verbatim>\<open>==\<close>
  (under which \<^verbatim>\<open>True == 1\<close>), hashability (a list or dict used as a set element or a
  dictionary key raises \<^verbatim>\<open>TypeError\<close>), \<^verbatim>\<open>str()\<close>, and \<^verbatim>\<open>int(x or 0)\<close>. Numbers of the
  ledger are integers, so there is no constructor for floating point. \<^verbatim>\<open>repr\<close> of a string inside a
  container escapes quotes, backslashes and ASCII control characters; every other code point is
  taken to be printable.
\<close>

named_theorems py_simps \<open>evaluation of Python operations on ledger values\<close>

datatype pyval =
    PNone
  | PBool bool
  | PInt int
  | PStr pstr
  | PList "pyval list"
  | PDict "(pstr \<times> pyval) list"

text \<open>The exceptions that the modelled operations let escape.\<close>

datatype py_exn = TypeError | ValueError string | KeyError | AttributeError | IndexError

abbreviation PS :: "string \<Rightarrow> pyval" where
  "PS s \<equiv> PStr (u s)"

text \<open>A dictionary display \<^verbatim>\<open>{"a": x, "b": y}\<close> with literal keys.\<close>

definition pdict :: "(string \<times> pyval) list \<Rightarrow> pyval" where
  "pdict kvs = PDict (map (\<lambda>(k, v). (u k, v)) kvs)"

section \<open>Type tests and dictionary access\<close>

fun is_dict :: "pyval \<Rightarrow> bool" where
  "is_dict (PDict _) = True"
| "is_dict _ = False"

fun is_list :: "pyval \<Rightarrow> bool" where
  "is_list (PList _) = True"
| "is_list _ = False"

fun is_str :: "pyval \<Rightarrow> bool" where
  "is_str (PStr _) = True"
| "is_str _ = False"

fun is_int_strict :: "pyval \<Rightarrow> bool" where
  "is_int_strict (PInt _) = True"
| "is_int_strict _ = False"

fun dict_items :: "pyval \<Rightarrow> (pstr \<times> pyval) list" where
  "dict_items (PDict d) = d"
| "dict_items _ = []"

fun list_items :: "pyval \<Rightarrow> pyval list" where
  "list_items (PList xs) = xs"
| "list_items _ = []"

text \<open>\<^verbatim>\<open>d.get(k)\<close>, \<^verbatim>\<open>d.get(k, dflt)\<close>, \<^verbatim>\<open>k in d\<close>, and \<^verbatim>\<open>set(d)\<close>.\<close>

definition dget_or :: "pyval \<Rightarrow> string \<Rightarrow> pyval \<Rightarrow> pyval" where
  "dget_or d k dflt = (case map_of (dict_items d) (u k) of None \<Rightarrow> dflt | Some v \<Rightarrow> v)"

abbreviation dget :: "pyval \<Rightarrow> string \<Rightarrow> pyval" where
  "dget d k \<equiv> dget_or d k PNone"

definition dhas :: "pyval \<Rightarrow> string \<Rightarrow> bool" where
  "dhas d k \<longleftrightarrow> u k \<in> fst ` set (dict_items d)"

definition dkeys :: "pyval \<Rightarrow> pstr set" where
  "dkeys d = fst ` set (dict_items d)"

text \<open>\<^verbatim>\<open>d[k] = v\<close> and \<^verbatim>\<open>{**d, k: v}\<close>.\<close>

definition dput :: "string \<Rightarrow> pyval \<Rightarrow> pyval \<Rightarrow> pyval" where
  "dput k v d = PDict (dict_put (u k) v (dict_items d))"

fun dputs :: "(string \<times> pyval) list \<Rightarrow> pyval \<Rightarrow> pyval" where
  "dputs [] d = d"
| "dputs ((k, v) # kvs) d = dputs kvs (dput k v d)"

lemma map_of_pdict_items:
  "map_of (map (\<lambda>(k, v). (u k, v)) kvs) (u k) = map_of kvs k"
  by (induction kvs) auto

lemma dget_pdict [simp, py_simps]:
  "dget_or (pdict kvs) k dflt = (case map_of kvs k of None \<Rightarrow> dflt | Some v \<Rightarrow> v)"
  by (simp add: dget_or_def pdict_def map_of_pdict_items)

lemma dget_dput [simp, py_simps]:
  "dget_or (dput k v d) k' dflt = (if k' = k then v else dget_or d k' dflt)"
  by (simp add: dget_or_def dput_def)

lemma is_dict_dput [simp]: "is_dict (dput k v d)"
  by (simp add: dput_def)

lemma is_dict_pdict [simp]: "is_dict (pdict kvs)"
  by (simp add: pdict_def)

lemma dhas_pdict [simp, py_simps]: "dhas (pdict kvs) k \<longleftrightarrow> k \<in> fst ` set kvs"
  by (force simp: dhas_def pdict_def image_iff)

lemma dhas_dput [simp, py_simps]: "dhas (dput k v d) k' \<longleftrightarrow> k' = k \<or> dhas d k'"
  by (simp add: dhas_def dput_def keys_dict_put)

lemma dkeys_pdict [simp, py_simps]: "dkeys (pdict kvs) = u ` fst ` set kvs"
  by (force simp: dkeys_def pdict_def)

lemma dget_dputs [py_simps]:
  "dget_or (dputs kvs d) k dflt = (case map_of (rev kvs) k of None \<Rightarrow> dget_or d k dflt | Some v \<Rightarrow> v)"
  by (induction kvs d rule: dputs.induct) (auto simp: map_add_def split: option.splits)

lemma is_dict_dputs [simp]: "is_dict d \<Longrightarrow> is_dict (dputs kvs d)"
  by (induction kvs d rule: dputs.induct) auto

section \<open>Truth value, equality, hashability\<close>

fun truthy :: "pyval \<Rightarrow> bool" where
  "truthy PNone = False"
| "truthy (PBool b) = b"
| "truthy (PInt i) = (i \<noteq> 0)"
| "truthy (PStr s) = (s \<noteq> [])"
| "truthy (PList xs) = (xs \<noteq> [])"
| "truthy (PDict d) = (d \<noteq> [])"

text \<open>\<^verbatim>\<open>x or y\<close>.\<close>

definition py_or :: "pyval \<Rightarrow> pyval \<Rightarrow> pyval" where
  "py_or x y = (if truthy x then x else y)"

text \<open>\<^verbatim>\<open>bool\<close> is a subclass of \<^verbatim>\<open>int\<close>: the integer a value equals, if any.\<close>

fun num_of :: "pyval \<Rightarrow> int option" where
  "num_of (PInt i) = Some i"
| "num_of (PBool b) = Some (if b then 1 else 0)"
| "num_of _ = None"

lemma size_list_zip_mem: "(x, y) \<in> set (zip xs ys) \<Longrightarrow> size x < Suc (size_list size xs)"
  by (auto dest!: set_zip_leftD simp: less_Suc_eq_le size_list_estimation')

lemma size_dict_mem: "(k, x) \<in> set d \<Longrightarrow> size x < Suc (size_list (size_prod (\<lambda>x. 0) size) d)"
  by (auto simp: less_Suc_eq_le intro!: size_list_estimation' [of "(k, x)"])

function py_eq :: "pyval \<Rightarrow> pyval \<Rightarrow> bool" where
  "py_eq (PList xs) b =
     (case b of PList ys \<Rightarrow> length xs = length ys \<and> list_all (\<lambda>(x, y). py_eq x y) (zip xs ys) | _ \<Rightarrow> False)"
| "py_eq (PDict d) b =
     (case b of
        PDict e \<Rightarrow> length d = length e
          \<and> list_all (\<lambda>(k, x). case map_of e k of None \<Rightarrow> False | Some y \<Rightarrow> py_eq x y) d
      | _ \<Rightarrow> False)"
| "py_eq (PStr s) b = (b = PStr s)"
| "py_eq PNone b = (b = PNone)"
| "py_eq (PBool c) b = (num_of b = Some (if c then 1 else 0))"
| "py_eq (PInt i) b = (num_of b = Some i)"
  by pat_completeness auto

termination
  by (relation "measure (\<lambda>(a, b). size a)") (auto dest: size_list_zip_mem size_dict_mem)

lemma py_eq_PStr [simp, py_simps]: "py_eq v (PStr s) \<longleftrightarrow> v = PStr s"
  by (cases v) auto

lemma py_eq_PNone [simp, py_simps]: "py_eq v PNone \<longleftrightarrow> v = PNone"
  by (cases v) auto

lemma py_eq_PInt [py_simps]: "py_eq v (PInt i) \<longleftrightarrow> num_of v = Some i"
  by (cases v) auto

fun py_hashable :: "pyval \<Rightarrow> bool" where
  "py_hashable (PList _) = False"
| "py_hashable (PDict _) = False"
| "py_hashable _ = True"

text \<open>
  Hashable values, as elements of a Python \<^verbatim>\<open>set\<close> or keys of a \<^verbatim>\<open>dict\<close>: equal values are one
  element, so \<^verbatim>\<open>True\<close> is the key \<^verbatim>\<open>1\<close>.
\<close>

fun py_key :: "pyval \<Rightarrow> pyval" where
  "py_key (PBool b) = PInt (if b then 1 else 0)"
| "py_key v = v"

lemma py_key_eq_iff: "py_hashable v \<Longrightarrow> py_hashable w \<Longrightarrow> py_key v = py_key w \<longleftrightarrow> py_eq v w"
  by (cases v; cases w) auto

section \<open>String and integer conversion\<close>

fun digits :: "nat \<Rightarrow> pstr" where
  "digits n = (if n < 10 then [48 + n] else digits (n div 10) @ [48 + n mod 10])"

declare digits.simps [simp del]

definition show_int :: "int \<Rightarrow> pstr" where
  "show_int i = (if i < 0 then [45] @ digits (nat (- i)) else digits (nat i))"

definition hex_digit :: "nat \<Rightarrow> nat" where
  "hex_digit n = (if n < 10 then 48 + n else 87 + n)"

definition repr_char :: "nat \<Rightarrow> nat \<Rightarrow> pstr" where
  "repr_char q c =
     (if c = q \<or> c = 92 then [92, c]
      else if c = 10 then u (CHR 0x5C # ''n'') else if c = 13 then u (CHR 0x5C # ''r'')
      else if c = 9 then u (CHR 0x5C # ''t'')
      else if c < 32 \<or> c = 127 then [92, 120, hex_digit (c div 16), hex_digit (c mod 16)]
      else [c])"

definition repr_str :: "pstr \<Rightarrow> pstr" where
  "repr_str s = (let q = (if 39 \<in> set s \<and> 34 \<notin> set s then 34 else 39)
                 in [q] @ concat (map (repr_char q) s) @ [q])"

fun py_repr :: "pyval \<Rightarrow> pstr" where
  "py_repr PNone = u ''None''"
| "py_repr (PBool b) = (if b then u ''True'' else u ''False'')"
| "py_repr (PInt i) = show_int i"
| "py_repr (PStr s) = repr_str s"
| "py_repr (PList xs) = u ''['' @ py_join (u '', '') (map py_repr xs) @ u '']''"
| "py_repr (PDict d) =
     u ''{'' @ py_join (u '', '') (map (\<lambda>(k, v). repr_str k @ u '': '' @ py_repr v) d) @ u ''}''"

fun py_str :: "pyval \<Rightarrow> pstr" where
  "py_str (PStr s) = s"
| "py_str v = py_repr v"

text \<open>
  \<^verbatim>\<open>int(s)\<close> on a string: white space around it, one sign, decimal digits of any script, single
  underscores between digits; anything else raises \<^verbatim>\<open>ValueError\<close>.
\<close>

definition nd_value :: "nat \<Rightarrow> nat" where
  "nd_value c = (case find (\<lambda>z. z \<le> c \<and> c \<le> z + 9) nd_zeros of Some z \<Rightarrow> c - z | None \<Rightarrow> 0)"

fun parse_digits :: "bool \<Rightarrow> nat \<Rightarrow> pstr \<Rightarrow> nat option" where
  "parse_digits after_digit n [] = (if after_digit then Some n else None)"
| "parse_digits after_digit n (c # cs) =
     (if is_nd c then parse_digits True (10 * n + nd_value c) cs
      else if c = 95 \<and> after_digit then parse_digits False n cs
      else None)"

definition parse_int :: "pstr \<Rightarrow> int option" where
  "parse_int s =
     (case py_strip s of
        [] \<Rightarrow> None
      | c # cs \<Rightarrow>
          if c = 45 then map_option (\<lambda>n. - int n) (parse_digits False 0 cs)
          else if c = 43 then map_option int (parse_digits False 0 cs)
          else map_option int (parse_digits False 0 (c # cs)))"

definition py_int_or_0 :: "pyval \<Rightarrow> py_exn + int" where
  "py_int_or_0 v =
     (if \<not> truthy v then Inr 0
      else case v of
        PBool b \<Rightarrow> Inr 1
      | PInt i \<Rightarrow> Inr i
      | PStr s \<Rightarrow> (case parse_int s of Some i \<Rightarrow> Inr i | None \<Rightarrow> Inl (ValueError ''invalid literal for int()''))
      | _ \<Rightarrow> Inl TypeError)"

lemma py_str_PStr_eq [simp, py_simps]: "py_str (PStr s) = s"
  by simp

lemma py_int_or_0_PInt [simp, py_simps]: "py_int_or_0 (PInt i) = Inr i"
  by (simp add: py_int_or_0_def)

lemma py_int_or_0_PNone [simp, py_simps]: "py_int_or_0 PNone = Inr 0"
  by (simp add: py_int_or_0_def)

end
