(* ===== verification/Step_Dag.thy ===== *)
theory Step_Dag
  imports PyValue
begin

text \<open>
  \<^verbatim>\<open>src/agentdeck/step_dag.py\<close>: the dependency relation between the steps of a plan, derived
  from the step numbers and the review-group markers, and its transitive closure, which the
  run-loop's dispatch guard consumes.

  The dictionaries of the code are association lists in insertion order. The memo table of the
  inner function \<^verbatim>\<open>walk\<close> is threaded through the calls; the termination measure counts the
  described steps not yet on the path.

  The lemmas show that for a plan without duplicate step numbers the walk computes exactly the
  transitive closure of the direct edges, that this closure is irreflexive, and that for a plan
  numbered 1 to n with contiguous review groups it is everything before the step's own group.
\<close>

section \<open>The code\<close>

definition step_number :: "pyval \<Rightarrow> int option" where
  "step_number step =
     (if \<not> is_dict step then None
      else case dget step ''step'' of PInt number \<Rightarrow> (if number < 1 then None else Some number) | _ \<Rightarrow> None)"

definition group_of :: "pyval \<Rightarrow> int option" where
  "group_of step = (case dget step ''review_group'' of PInt grp \<Rightarrow> Some grp | _ \<Rightarrow> None)"

text \<open>One iteration of the loop of \<^verbatim>\<open>_group_members\<close> over its two dictionaries.\<close>

fun group_members_step :: "pyval \<Rightarrow> (int \<times> int) list \<times> (int \<times> int list) list
    \<Rightarrow> (int \<times> int) list \<times> (int \<times> int list) list" where
  "group_members_step step (group_by_step, members) =
     (case step_number step of
        None \<Rightarrow> (group_by_step, members)
      | Some number \<Rightarrow>
          (case group_of step of
             None \<Rightarrow> (group_by_step, members)
           | Some grp \<Rightarrow>
               (dict_put number grp group_by_step,
                dict_put grp ((case map_of members grp of None \<Rightarrow> [] | Some ms \<Rightarrow> ms) @ [number]) members)))"

definition group_members :: "pyval list \<Rightarrow> (int \<times> int) list \<times> (int \<times> int list) list" where
  "group_members steps =
     (let (group_by_step, members) = fold group_members_step steps ([], [])
      in (group_by_step, map (\<lambda>(grp, ms). (grp, sort ms)) members))"

text \<open>\<^verbatim>\<open>members[group]\<close>; the key is always there when \<^verbatim>\<open>group_by_step\<close> mentions it.\<close>

definition members_of :: "(int \<times> int list) list \<Rightarrow> int \<Rightarrow> int list" where
  "members_of members grp = (case map_of members grp of None \<Rightarrow> [] | Some ms \<Rightarrow> ms)"

definition closing_set :: "(int \<times> int) list \<Rightarrow> (int \<times> int list) list \<Rightarrow> int \<Rightarrow> int list" where
  "closing_set group_by_step members before =
     (if before < 1 then []
      else case map_of group_by_step before of
        Some grp \<Rightarrow> members_of members grp
      | None \<Rightarrow> [before])"

definition step_anchor :: "(int \<times> int) list \<Rightarrow> (int \<times> int list) list \<Rightarrow> int \<Rightarrow> int" where
  "step_anchor group_by_step members number =
     (case map_of group_by_step number of
        Some grp \<Rightarrow> Min (set (members_of members grp))
      | None \<Rightarrow> number)"

definition derive_step_dependencies :: "pyval list \<Rightarrow> (int \<times> int list) list" where
  "derive_step_dependencies steps =
     (let (group_by_step, members) = group_members steps;
          numbers = sort (List.map_filter step_number steps)
      in fold (\<lambda>number. dict_put number
            (closing_set group_by_step members (step_anchor group_by_step members number - 1)))
           numbers [])"

definition deps_of :: "(int \<times> int list) list \<Rightarrow> int \<Rightarrow> int list" where
  "deps_of dependencies number = (case map_of dependencies number of None \<Rightarrow> [] | Some ds \<Rightarrow> ds)"

text \<open>
  The inner function \<^verbatim>\<open>walk\<close> and its loop over the direct dependencies: \<open>seen\<close> is the path,
  \<open>resolved\<close> the memo table that both return updated.
\<close>

definition walk_measure :: "(int \<times> int list) list \<Rightarrow> int \<Rightarrow> int set \<Rightarrow> nat" where
  "walk_measure D number seen =
     2 * card (fst ` set D - seen) + (if number \<in> seen then 1 else 0)"

definition walk_loop_measure :: "(int \<times> int list) list \<Rightarrow> int list \<Rightarrow> int \<Rightarrow> int set \<Rightarrow> nat" where
  "walk_loop_measure D ds number seen =
     (if ds = [] then 0
      else 2 * card (insert number (fst ` set D) - seen) + (if number \<in> seen then 1 else 0))"

lemma deps_of_unknown: "number \<notin> fst ` set D \<Longrightarrow> deps_of D number = []"
  by (simp add: deps_of_def map_of_eq_None_iff [THEN iffD2])

lemma walk_measure_less:
  assumes "dependency \<notin> seen"
  shows "walk_measure D dependency (insert number seen) < walk_loop_measure D (dependency # ds) number seen"
proof (cases "number \<in> seen")
  case True
  with assms show ?thesis
    by (auto simp: walk_measure_def walk_loop_measure_def insert_absorb insert_Diff_if)
next
  case False
  let ?K = "fst ` set D" and ?S = "insert number seen"
  have "insert number ?K - seen = insert number (insert number ?K - ?S)"
    using False by auto
  then have "card (insert number ?K - seen) = Suc (card (insert number ?K - ?S))"
    by (simp add: card_insert_disjoint)
  moreover have "card (?K - ?S) \<le> card (insert number ?K - ?S)"
    by (rule card_mono) auto
  ultimately show ?thesis
    using False by (auto simp: walk_measure_def walk_loop_measure_def)
qed

lemma walk_loop_measure_start: "walk_loop_measure D (deps_of D number) number seen \<le> walk_measure D number seen"
  by (cases "number \<in> fst ` set D")
     (auto simp: walk_measure_def walk_loop_measure_def insert_absorb deps_of_unknown)

lemma walk_loop_measure_tail: "walk_loop_measure D ds number seen \<le> walk_loop_measure D (d # ds) number seen"
  by (simp add: walk_loop_measure_def)

function walk :: "(int \<times> int list) list \<Rightarrow> int \<Rightarrow> int set \<Rightarrow> (int \<rightharpoonup> int set)
      \<Rightarrow> int set \<times> (int \<rightharpoonup> int set)"
  and walk_loop :: "(int \<times> int list) list \<Rightarrow> int list \<Rightarrow> int \<Rightarrow> int set \<Rightarrow> int set \<Rightarrow> (int \<rightharpoonup> int set)
      \<Rightarrow> int set \<times> (int \<rightharpoonup> int set)" where
  "walk D number seen resolved =
     (case resolved number of
        Some cached \<Rightarrow> (cached, resolved)
      | None \<Rightarrow>
          let (collected, resolved') = walk_loop D (deps_of D number) number seen {} resolved
          in (collected, resolved'(number \<mapsto> collected)))"
| "walk_loop D [] number seen collected resolved = (collected, resolved)"
| "walk_loop D (dependency # ds) number seen collected resolved =
     (if dependency \<in> seen then walk_loop D ds number seen collected resolved
      else let (below, resolved') = walk D dependency (insert number seen) resolved
           in walk_loop D ds number seen (insert dependency collected \<union> below) resolved')"
  by pat_completeness auto

termination
proof (relation "measures
    [case_sum (\<lambda>(D, number, seen, r). walk_measure D number seen)
              (\<lambda>(D, ds, number, seen, c, r). walk_loop_measure D ds number seen),
     case_sum (\<lambda>(D, number, seen, r). Suc (length (deps_of D number)))
              (\<lambda>(D, ds, number, seen, c, r). length ds)]", goal_cases)
  case 1
  then show ?case by simp
next
  case (2 D number seen resolved)
  then show ?case using walk_loop_measure_start [of D number seen] by auto
next
  case (3 D dependency ds number seen collected resolved)
  then show ?case using walk_loop_measure_tail [of D ds number seen dependency] by auto
next
  case (4 D dependency ds number seen collected resolved)
  then show ?case using walk_measure_less [of dependency seen D number ds] by auto
next
  case (5 D dependency ds number seen collected resolved x xa y)
  then show ?case using walk_loop_measure_tail [of D ds number seen dependency] by auto
qed

declare walk.simps [simp del] walk_loop.simps [simp del]

text \<open>The dictionary comprehension at the end of \<^verbatim>\<open>derive_step_ancestors\<close>: one memo table for all keys.\<close>

fun ancestors_loop :: "(int \<times> int list) list \<Rightarrow> int list \<Rightarrow> (int \<rightharpoonup> int set) \<Rightarrow> (int \<times> int list) list" where
  "ancestors_loop D [] resolved = []"
| "ancestors_loop D (number # ns) resolved =
     (let (ancestors, resolved') = walk D number {} resolved
      in (number, sorted_list_of_set ancestors) # ancestors_loop D ns resolved')"

definition derive_step_ancestors :: "pyval list \<Rightarrow> (int \<times> int list) list" where
  "derive_step_ancestors steps =
     (let dependencies = derive_step_dependencies steps
      in ancestors_loop dependencies (map fst dependencies) Map.empty)"

definition dependencies_for :: "(int \<times> int list) list \<Rightarrow> int \<Rightarrow> int list" where
  "dependencies_for dependencies step =
     (case map_of dependencies step of
        Some known \<Rightarrow> known
      | None \<Rightarrow> if step > 1 then [step - 1] else [])"

definition ancestors_for :: "(int \<times> int list) list \<Rightarrow> int \<Rightarrow> int list" where
  "ancestors_for ancestors step =
     (case map_of ancestors step of
        Some known \<Rightarrow> known
      | None \<Rightarrow> [1..max step 1 - 1])"

section \<open>What the walk computes\<close>

text \<open>The direct edges of a dependency table.\<close>

definition step_edges :: "(int \<times> int list) list \<Rightarrow> (int \<times> int) set" where
  "step_edges D = {(n, m). m \<in> set (deps_of D n)}"

lemma step_edges_iff [simp]: "(n, m) \<in> step_edges D \<longleftrightarrow> m \<in> set (deps_of D n)"
  by (simp add: step_edges_def)

lemma trancl_Image_unfold:
  "(step_edges D)\<^sup>+ `` {n} = (\<Union>d\<in>set (deps_of D n). insert d ((step_edges D)\<^sup>+ `` {d}))"
  (is "?L = ?R")
proof
  show "?L \<subseteq> ?R"
  proof
    fix m assume "m \<in> ?L"
    then have "(n, m) \<in> (step_edges D)\<^sup>+" by simp
    then obtain d where "(n, d) \<in> step_edges D" "(d, m) \<in> (step_edges D)\<^sup>*"
      by (blast dest: tranclD)
    then have "d \<in> set (deps_of D n)" and "m = d \<or> (d, m) \<in> (step_edges D)\<^sup>+"
      by (simp, metis rtranclD)
    then show "m \<in> ?R" by blast
  qed
next
  show "?R \<subseteq> ?L"
    by (auto simp: Image_iff intro: trancl_into_trancl2)
qed

text \<open>
  The walk relies on one law of the table it is given: some rank drops along every edge. Under
  that law the defensive check against cycles never fires and the memo table only holds final
  results.
\<close>

locale ranked_steps =
  fixes D :: "(int \<times> int list) list" and rank :: "int \<Rightarrow> int"
  assumes rank_drops: "m \<in> set (deps_of D n) \<Longrightarrow> rank m < rank n"
begin

lemma closure_rank: "(n, m) \<in> (step_edges D)\<^sup>+ \<Longrightarrow> rank m < rank n"
  by (induction rule: trancl_induct) (auto dest: rank_drops)

lemma closure_irrefl: "(n, n) \<notin> (step_edges D)\<^sup>+"
  using closure_rank [of n n] by auto

definition table_ok :: "(int \<rightharpoonup> int set) \<Rightarrow> bool" where
  "table_ok r \<longleftrightarrow> (\<forall>n s. r n = Some s \<longrightarrow> s = (step_edges D)\<^sup>+ `` {n})"

lemma table_ok_empty: "table_ok Map.empty"
  by (simp add: table_ok_def)

lemma walk_closure_aux:
  shows "D' = D \<Longrightarrow> table_ok r \<Longrightarrow> \<forall>s\<in>seen. (s, n) \<in> (step_edges D)\<^sup>+ \<Longrightarrow>
      fst (walk D' n seen r) = (step_edges D)\<^sup>+ `` {n} \<and> table_ok (snd (walk D' n seen r))"
    and "D' = D \<Longrightarrow> table_ok r \<Longrightarrow> \<forall>s\<in>seen. (s, n) \<in> (step_edges D)\<^sup>+ \<Longrightarrow>
      set ds \<subseteq> set (deps_of D n) \<Longrightarrow>
      fst (walk_loop D' ds n seen coll r) = coll \<union> (\<Union>d\<in>set ds. insert d ((step_edges D)\<^sup>+ `` {d}))
      \<and> table_ok (snd (walk_loop D' ds n seen coll r))"
proof (induction D' n seen r and D' ds n seen coll r rule: walk_walk_loop.induct)
  case (1 D' n seen r)
  show ?case
  proof (cases "r n")
    case (Some c)
    with 1 show ?thesis by (simp add: walk.simps table_ok_def)
  next
    case None
    let ?w = "walk_loop D (deps_of D n) n seen {} r"
    from 1(1) [OF None 1(2) 1(3) 1(4)] 1(2) have "fst ?w = (\<Union>d\<in>set (deps_of D n). insert d ((step_edges D)\<^sup>+ `` {d})) \<and> table_ok (snd ?w)"
      by simp
    then have "fst ?w = (step_edges D)\<^sup>+ `` {n}" and "table_ok (snd ?w)"
      using trancl_Image_unfold [of D n] by (simp, simp)
    with None \<open>D' = D\<close> show ?thesis
      by (simp add: walk.simps [of D n] split_beta table_ok_def)
  qed
next
  case (2 D' n seen coll r)
  then show ?case by (simp add: walk_loop.simps)
next
  case (3 D' d ds n seen coll r)
  have edge: "(n, d) \<in> (step_edges D)\<^sup>+" using 3 by auto
  with 3 have d: "d \<notin> seen" using closure_irrefl trancl_trans by metis
  let ?w = "walk D d (insert n seen) r"
  have seen': "\<forall>s\<in>insert n seen. (s, d) \<in> (step_edges D)\<^sup>+"
    using 3 edge by (auto intro: trancl_trans)
  with 3 d have w: "fst ?w = (step_edges D)\<^sup>+ `` {d}" "table_ok (snd ?w)" by auto
  have "fst (walk_loop D ds n seen (insert d coll \<union> fst ?w) (snd ?w))
      = insert d coll \<union> fst ?w \<union> (\<Union>d\<in>set ds. insert d ((step_edges D)\<^sup>+ `` {d}))
    \<and> table_ok (snd (walk_loop D ds n seen (insert d coll \<union> fst ?w) (snd ?w)))"
    using 3 d w by (cases ?w) auto
  with 3 d w show ?case by (auto simp: walk_loop.simps split_beta)
qed

lemma walk_closure:
  assumes "table_ok r"
  shows "fst (walk D n {} r) = (step_edges D)\<^sup>+ `` {n}" and "table_ok (snd (walk D n {} r))"
  using walk_closure_aux(1) [of D r "{}" n] assms by auto

lemma ancestors_loop_closure:
  "table_ok r \<Longrightarrow> ancestors_loop D ns r = map (\<lambda>n. (n, sorted_list_of_set ((step_edges D)\<^sup>+ `` {n}))) ns"
  by (induction ns arbitrary: r) (auto simp: split_beta walk_closure)

end

section \<open>The derived table\<close>

text \<open>The usable step numbers of a plan body, and its (step number, group) marks, in order.\<close>

definition plan_numbers :: "pyval list \<Rightarrow> int list" where
  "plan_numbers steps = List.map_filter step_number steps"

definition step_mark :: "pyval \<Rightarrow> (int \<times> int) option" where
  "step_mark step =
     (case step_number step of None \<Rightarrow> None | Some n \<Rightarrow> map_option (Pair n) (group_of step))"

definition plan_marks :: "pyval list \<Rightarrow> (int \<times> int) list" where
  "plan_marks steps = List.map_filter step_mark steps"

text \<open>The group of a step and the first member of that group, read off the marks.\<close>

definition plan_anchor :: "pyval list \<Rightarrow> int \<Rightarrow> int" where
  "plan_anchor steps n =
     (case map_of (plan_marks steps) n of
        None \<Rightarrow> n
      | Some g \<Rightarrow> Min {m. map_of (plan_marks steps) m = Some g})"

lemma step_mark_number: "step_mark s = Some (n, g) \<Longrightarrow> step_number s = Some n"
  by (auto simp: step_mark_def split: option.splits)

lemma fst_plan_marks: "fst ` set (plan_marks steps) \<subseteq> set (plan_numbers steps)"
  by (force simp: plan_marks_def plan_numbers_def set_map_filter dest: step_mark_number)

lemma distinct_plan_marks:
  "distinct (plan_numbers steps) \<Longrightarrow> distinct (map fst (plan_marks steps))"
proof (induction steps)
  case Nil
  then show ?case by (simp add: plan_marks_def)
next
  case (Cons s steps)
  show ?case
  proof (cases "step_mark s")
    case None
    with Cons show ?thesis
      by (auto simp: plan_marks_def plan_numbers_def split: option.splits)
  next
    case (Some p)
    then obtain n g where p: "p = (n, g)" and n: "step_number s = Some n"
      by (cases p) (auto dest: step_mark_number)
    with Cons.prems have "n \<notin> set (plan_numbers steps)" and "distinct (plan_numbers steps)"
      by (auto simp: plan_numbers_def)
    with Cons.IH fst_plan_marks [of steps] Some p show ?thesis
      by (auto simp: plan_marks_def image_iff)
  qed
qed

lemma group_members_fold:
  "fold group_members_step steps (a, b) =
     (fold (\<lambda>(n, g). dict_put n g) (plan_marks steps) a,
      fold (\<lambda>(n, g) m. dict_put g (members_of m g @ [n]) m) (plan_marks steps) b)"
  by (induction steps arbitrary: a b)
     (auto simp: plan_marks_def step_mark_def members_of_def split: option.splits)

lemma members_of_fold:
  "members_of (fold (\<lambda>(n, g) m. dict_put g (members_of m g @ [n]) m) marks b) g
     = members_of b g @ map fst (filter (\<lambda>(n, g'). g' = g) marks)"
  by (induction marks arbitrary: b) (auto simp: members_of_def split: option.splits)

lemma members_of_Nil [simp]: "members_of [] g = []"
  by (simp add: members_of_def)

lemma members_of_sorted:
  "members_of (map (\<lambda>(g, ms). (g, sort ms)) m) g = sort (members_of m g)"
  by (simp add: members_of_def map_of_map split: option.split)

lemma group_by_step_marks:
  assumes "distinct (plan_numbers steps)"
  shows "map_of (fst (group_members steps)) = map_of (plan_marks steps)"
proof -
  have "map_of (fst (group_members steps)) = map_of (rev (plan_marks steps))"
    by (simp add: group_members_def group_members_fold map_of_fold_dict_put split_beta)
  also have "\<dots> = map_of (plan_marks steps)"
    using distinct_plan_marks [OF assms] by (intro map_of_inject_set [THEN iffD2]) (auto simp: rev_map [symmetric])
  finally show ?thesis .
qed

lemma members_of_marks:
  assumes "distinct (plan_numbers steps)"
  shows "set (members_of (snd (group_members steps)) g) = {m. map_of (plan_marks steps) m = Some g}"
proof -
  have "set (members_of (snd (group_members steps)) g) = {n. (n, g) \<in> set (plan_marks steps)}"
    by (force simp: group_members_def group_members_fold members_of_sorted members_of_fold members_of_Nil)
  then show ?thesis using distinct_plan_marks [OF assms] by simp
qed

lemma sorted_members_of: "sorted (members_of (snd (group_members steps)) g)"
  by (simp add: group_members_def members_of_sorted split_beta)

lemma finite_group: "finite {m. map_of (plan_marks steps) m = Some g}"
  by (rule finite_subset [of _ "fst ` set (plan_marks steps)"]) (force dest: map_of_SomeD)+

lemma step_anchor_marks:
  assumes "distinct (plan_numbers steps)"
  shows "step_anchor (fst (group_members steps)) (snd (group_members steps)) n = plan_anchor steps n"
  using assms
  by (simp add: step_anchor_def plan_anchor_def group_by_step_marks members_of_marks split: option.split)

text \<open>The direct dependencies of a step of the plan, as a set.\<close>

lemma derived_keys: "fst ` set (derive_step_dependencies steps) = set (plan_numbers steps)"
  by (simp add: derive_step_dependencies_def split_beta Let_def keys_fold_dict_put_fun plan_numbers_def)

lemma derived_deps:
  assumes "distinct (plan_numbers steps)" and "n \<in> set (plan_numbers steps)"
  shows "set (deps_of (derive_step_dependencies steps) n) =
    (let b = plan_anchor steps n - 1
     in if b < 1 then {}
        else case map_of (plan_marks steps) b of
          None \<Rightarrow> {b} | Some g \<Rightarrow> {m. map_of (plan_marks steps) m = Some g})"
  using assms
  by (auto simp: deps_of_def derive_step_dependencies_def split_beta Let_def map_of_fold_dict_put_fun
        plan_numbers_def [symmetric] step_anchor_marks closing_set_def group_by_step_marks members_of_marks
      split: option.splits)

lemma plan_anchor_le: "map_of (plan_marks steps) n = Some g \<Longrightarrow> plan_anchor steps n \<le> n"
  by (simp add: plan_anchor_def finite_group)

lemma plan_anchor_le': "plan_anchor steps n \<le> n"
  by (cases "map_of (plan_marks steps) n") (simp add: plan_anchor_def, rule plan_anchor_le)

lemma derived_anchor_drops:
  assumes "distinct (plan_numbers steps)" and m: "m \<in> set (deps_of (derive_step_dependencies steps) n)"
  shows "plan_anchor steps m < plan_anchor steps n"
proof -
  have n: "n \<in> set (plan_numbers steps)"
    using m derived_keys [of steps] deps_of_unknown [of n "derive_step_dependencies steps"] by fastforce
  define b where "b = plan_anchor steps n - 1"
  from m have m': "m \<in> (let b = plan_anchor steps n - 1 in if b < 1 then {} else case map_of (plan_marks steps) b of
      None \<Rightarrow> {b} | Some g \<Rightarrow> {m. map_of (plan_marks steps) m = Some g})"
    by (simp only: derived_deps [OF assms(1) n])
  then have mb: "m \<in> (case map_of (plan_marks steps) b of None \<Rightarrow> {b} | Some g \<Rightarrow> {m. map_of (plan_marks steps) m = Some g})"
    unfolding b_def [symmetric] Let_def by (simp split: if_splits)
  have "plan_anchor steps m = plan_anchor steps b"
    using mb by (auto simp: plan_anchor_def split: option.splits)
  with plan_anchor_le' [of steps b] show ?thesis by (simp add: b_def)
qed

text \<open>A plan whose usable step numbers are distinct gives the walk its rank.\<close>

locale numbered_plan =
  fixes steps :: "pyval list"
  assumes numbers_distinct: "distinct (plan_numbers steps)"

sublocale numbered_plan \<subseteq> derived: ranked_steps "derive_step_dependencies steps" "plan_anchor steps"
  by unfold_locales (rule derived_anchor_drops [OF numbers_distinct])

context numbered_plan
begin

lemma ancestors_table:
  "map_of (derive_step_ancestors steps) n =
     (if n \<in> set (plan_numbers steps)
      then Some (sorted_list_of_set ((step_edges (derive_step_dependencies steps))\<^sup>+ `` {n}))
      else None)"
  using derived_keys [of steps]
  by (simp add: derive_step_ancestors_def derived.ancestors_loop_closure [OF derived.table_ok_empty]
        map_of_map_key Let_def del: map_map)

lemma no_self: "(n, n) \<notin> (step_edges (derive_step_dependencies steps))\<^sup>+"
  by (rule derived.closure_irrefl)

lemma finite_closure: "finite ((step_edges (derive_step_dependencies steps))\<^sup>+ `` {n})"
proof -
  let ?E = "step_edges (derive_step_dependencies steps)"
  have "?E \<subseteq> (\<Union>n\<in>set (plan_numbers steps). {n} \<times> set (deps_of (derive_step_dependencies steps) n))"
    using derived_keys [of steps] deps_of_unknown by fastforce
  then have "finite ?E" by (rule finite_subset) auto
  then show ?thesis by (simp add: finite_trancl)
qed

lemma ancestors_closure:
  assumes "n \<in> set (plan_numbers steps)"
  shows "set (ancestors_for (derive_step_ancestors steps) n)
       = {m. (n, m) \<in> (step_edges (derive_step_dependencies steps))\<^sup>+}"
  using assms finite_closure [of n] by (auto simp: ancestors_for_def ancestors_table)

end

section \<open>Plans numbered 1 to n with contiguous groups\<close>

text \<open>
  The shape every plan of the program has: the usable numbers are 1 to n, each once, and the
  members of a review group are consecutive steps.
\<close>

definition groups_contiguous :: "pyval list \<Rightarrow> bool" where
  "groups_contiguous steps \<longleftrightarrow>
     (\<forall>(a, g)\<in>set (plan_marks steps). \<forall>(c, g')\<in>set (plan_marks steps).
        g = g' \<longrightarrow> (\<forall>b\<in>set [a..c]. map_of (plan_marks steps) b = Some g))"

definition sequential_plan :: "pyval list \<Rightarrow> bool" where
  "sequential_plan steps \<longleftrightarrow>
     sort (plan_numbers steps) = [1..int (length (plan_numbers steps))] \<and> groups_contiguous steps"

lemma groups_contiguousD:
  assumes "groups_contiguous steps"
    and "map_of (plan_marks steps) a = Some g" "map_of (plan_marks steps) c = Some g" "a \<le> b" "b \<le> c"
  shows "map_of (plan_marks steps) b = Some g"
  using assms by (fastforce simp: groups_contiguous_def dest: map_of_SomeD)

lemma sequential_numbers:
  assumes "sequential_plan steps"
  shows "set (plan_numbers steps) = {1..int (length (plan_numbers steps))}"
    and "distinct (plan_numbers steps)"
proof -
  from assms have s: "sort (plan_numbers steps) = [1..int (length (plan_numbers steps))]"
    by (simp add: sequential_plan_def)
  then show "set (plan_numbers steps) = {1..int (length (plan_numbers steps))}"
    by (metis set_sort set_upto)
  from s show "distinct (plan_numbers steps)"
    by (metis distinct_sort distinct_upto)
qed

lemma mark_in_numbers: "map_of (plan_marks steps) m = Some g \<Longrightarrow> m \<in> set (plan_numbers steps)"
  using fst_plan_marks [of steps] by (force dest: map_of_SomeD)

lemma plan_anchor_mark:
  "map_of (plan_marks steps) n = Some g \<Longrightarrow> map_of (plan_marks steps) (plan_anchor steps n) = Some g"
  using Min_in [OF finite_group [of steps g]] by (auto simp: plan_anchor_def)

lemma plan_anchor_in_numbers: "n \<in> set (plan_numbers steps) \<Longrightarrow> plan_anchor steps n \<in> set (plan_numbers steps)"
  by (cases "map_of (plan_marks steps) n")
     (simp add: plan_anchor_def, rule mark_in_numbers, erule plan_anchor_mark)

lemma plan_anchor_unmarked: "map_of (plan_marks steps) n = None \<Longrightarrow> plan_anchor steps n = n"
  by (simp add: plan_anchor_def)

lemma plan_anchor_least:
  "map_of (plan_marks steps) n = Some g \<Longrightarrow> map_of (plan_marks steps) m = Some g \<Longrightarrow> plan_anchor steps n \<le> m"
  by (simp add: plan_anchor_def finite_group)

lemma plan_anchor_same:
  "map_of (plan_marks steps) n = map_of (plan_marks steps) m \<Longrightarrow> map_of (plan_marks steps) n \<noteq> None \<Longrightarrow>
     plan_anchor steps n = plan_anchor steps m"
  by (auto simp: plan_anchor_def)

text \<open>In such a plan a step depends directly on the whole block that ends just before its own group.\<close>

lemma sequential_deps:
  assumes seq: "sequential_plan steps" and n: "n \<in> set (plan_numbers steps)"
  defines "b \<equiv> plan_anchor steps n - 1"
  shows "set (deps_of (derive_step_dependencies steps) n) = (if b < 1 then {} else {plan_anchor steps b..b})"
proof (cases "b < 1 \<or> map_of (plan_marks steps) b = None")
  case True
  then have "b < 1 \<or> plan_anchor steps b = b \<and> map_of (plan_marks steps) b = None"
    by (auto simp: plan_anchor_def)
  then show ?thesis
    using derived_deps [OF sequential_numbers(2) [OF seq] n]
    unfolding b_def [symmetric] Let_def by (elim disjE) simp_all
next
  case False
  then obtain g where b: "1 \<le> b" and g: "map_of (plan_marks steps) b = Some g" by auto
  have con: "groups_contiguous steps" using seq by (simp add: sequential_plan_def)
  have upper: "m \<le> b" if m: "map_of (plan_marks steps) m = Some g" for m
  proof (rule ccontr)
    assume "\<not> m \<le> b"
    then have "map_of (plan_marks steps) (plan_anchor steps n) = Some g"
      using groups_contiguousD [OF con g m] by (simp add: b_def)
    moreover from this have "map_of (plan_marks steps) n = Some g"
      using plan_anchor_mark [of steps n] by (cases "map_of (plan_marks steps) n") (simp_all add: plan_anchor_unmarked)
    ultimately show False
      using plan_anchor_least [OF _ g, of n] by (simp add: b_def)
  qed
  have "{m. map_of (plan_marks steps) m = Some g} = {plan_anchor steps b..b}"
  proof (intro set_eqI iffI)
    fix m assume "m \<in> {m. map_of (plan_marks steps) m = Some g}"
    with upper [of m] plan_anchor_least [OF g, of m] show "m \<in> {plan_anchor steps b..b}" by simp
  next
    fix m assume "m \<in> {plan_anchor steps b..b}"
    with groups_contiguousD [OF con plan_anchor_mark [OF g] g, of m]
    show "m \<in> {m. map_of (plan_marks steps) m = Some g}" by simp
  qed
  then show ?thesis
    using derived_deps [OF sequential_numbers(2) [OF seq] n] b g
    unfolding b_def [symmetric] Let_def by simp
qed

lemma block_union:
  assumes "1 \<le> a" and "a \<le> (b :: int)"
  shows "(\<Union>d\<in>{a..b}. insert d {1..a - 1}) = {1..b}"
proof -
  have "(\<Union>d\<in>{a..b}. insert d {1..a - 1}) = {a..b} \<union> {1..a - 1}"
    using assms by auto
  then show ?thesis using assms by auto
qed

lemma sequential_closure:
  assumes seq: "sequential_plan steps" and n: "n \<in> set (plan_numbers steps)"
  shows "(step_edges (derive_step_dependencies steps))\<^sup>+ `` {n} = {1..plan_anchor steps n - 1}"
  using n
proof (induction "nat (plan_anchor steps n)" arbitrary: n rule: less_induct)
  case less
  let ?D = "derive_step_dependencies steps"
  define b where "b = plan_anchor steps n - 1"
  have anchor: "1 \<le> plan_anchor steps n"
    using plan_anchor_in_numbers [OF less.prems] sequential_numbers(1) [OF seq] by auto
  show ?case
  proof (cases "b < 1")
    case True
    then show ?thesis
      using sequential_deps [OF seq less.prems] trancl_Image_unfold [of ?D n] by (simp add: b_def)
  next
    case False
    have deps: "set (deps_of ?D n) = {plan_anchor steps b..b}"
      using False sequential_deps [OF seq less.prems] by (simp add: b_def)
    have bn: "b \<in> set (plan_numbers steps)"
      using False plan_anchor_in_numbers [OF less.prems] sequential_numbers(1) [OF seq]
      by (auto simp: b_def)
    have below: "(step_edges ?D)\<^sup>+ `` {d} = {1..plan_anchor steps b - 1}" if d: "d \<in> {plan_anchor steps b..b}" for d
    proof -
      have con: "groups_contiguous steps" using seq by (simp add: sequential_plan_def)
      have da: "plan_anchor steps d = plan_anchor steps b"
      proof (cases "map_of (plan_marks steps) b")
        case None
        with d show ?thesis by (simp add: plan_anchor_def)
      next
        case (Some g)
        then have "map_of (plan_marks steps) d = Some g"
          using d groups_contiguousD [OF con plan_anchor_mark [OF Some] Some] by simp
        with Some show ?thesis by (simp add: plan_anchor_def)
      qed
      have "d \<in> set (plan_numbers steps)"
        using d bn plan_anchor_in_numbers [OF bn] sequential_numbers(1) [OF seq] by auto
      moreover have "nat (plan_anchor steps d) < nat (plan_anchor steps n)"
        using da plan_anchor_le' [of steps b] anchor by (simp add: b_def)
      ultimately show ?thesis using less.hyps [of d] da by simp
    qed
    have "1 \<le> plan_anchor steps b"
      using plan_anchor_in_numbers [OF bn] sequential_numbers(1) [OF seq] by auto
    then have "(\<Union>d\<in>{plan_anchor steps b..b}. insert d {1..plan_anchor steps b - 1}) = {1..b}"
      using plan_anchor_le' [of steps b] by (intro block_union)
    then have "(step_edges ?D)\<^sup>+ `` {n} = {1..b}"
      using trancl_Image_unfold [of ?D n] deps below by simp
    then show ?thesis by (simp add: b_def)
  qed
qed

lemma sorted_list_of_set_upto: "sorted_list_of_set {i..j :: int} = [i..j]"
  using sorted_list_of_set.idem_if_sorted_distinct [of "[i..j]"] by simp

text \<open>
  C8: for a plan without duplicate step numbers, the ancestor list the guard consumes is the
  sorted transitive closure of the direct dependencies, and no step is among its own ancestors.
\<close>

theorem step_ancestors_are_closure:
  assumes "distinct (plan_numbers steps)" and "n \<in> set (plan_numbers steps)"
  shows "set (ancestors_for (derive_step_ancestors steps) n)
       = {m. (n, m) \<in> (step_edges (derive_step_dependencies steps))\<^sup>+}
    \<and> sorted (ancestors_for (derive_step_ancestors steps) n)
    \<and> n \<notin> set (ancestors_for (derive_step_ancestors steps) n)"
proof -
  have np: "numbered_plan steps" using assms(1) by unfold_locales
  have "set (ancestors_for (derive_step_ancestors steps) n)
       = {m. (n, m) \<in> (step_edges (derive_step_dependencies steps))\<^sup>+}"
    by (rule numbered_plan.ancestors_closure [OF np assms(2)])
  moreover have "sorted (ancestors_for (derive_step_ancestors steps) n)"
    using assms(2) by (simp add: ancestors_for_def numbered_plan.ancestors_table [OF np])
  moreover have "(n, n) \<notin> (step_edges (derive_step_dependencies steps))\<^sup>+"
    by (rule numbered_plan.no_self [OF np])
  ultimately show ?thesis by simp
qed

lemma sequential_ancestors:
  assumes "sequential_plan steps" and "n \<in> set (plan_numbers steps)"
  shows "ancestors_for (derive_step_ancestors steps) n = [1..plan_anchor steps n - 1]"
proof -
  have np: "numbered_plan steps"
    using sequential_numbers(2) [OF assms(1)] by unfold_locales
  show ?thesis
    using assms by (simp add: ancestors_for_def numbered_plan.ancestors_table [OF np] sequential_closure
        sorted_list_of_set_upto)
qed

text \<open>A plan of four steps, the second and third of which are one review group.\<close>

definition example_plan :: "pyval list" where
  "example_plan =
     [pdict [(''step'', PInt 1)],
      pdict [(''step'', PInt 2), (''review_group'', PInt 1)],
      pdict [(''step'', PInt 3), (''review_group'', PInt 1)],
      pdict [(''step'', PInt 4)]]"

lemma example_plan_numbers: "plan_numbers example_plan = [1, 2, 3, 4]"
  by (simp add: plan_numbers_def example_plan_def step_number_def)

lemma example_plan_marks: "plan_marks example_plan = [(2, 1), (3, 1)]"
  by (simp add: plan_marks_def example_plan_def step_mark_def step_number_def group_of_def)

lemma example_group: "{m. (m \<noteq> 3 \<longrightarrow> m = 2)} = {2, 3 :: int}"
  by auto

lemma example_plan_sequential: "sequential_plan example_plan"
  by (simp add: sequential_plan_def example_plan_numbers groups_contiguous_def example_plan_marks upto_rec1)

theorem step_ancestors_are_closure_witness:
  "set (ancestors_for (derive_step_ancestors example_plan) 4)
       = {m. (4, m) \<in> (step_edges (derive_step_dependencies example_plan))\<^sup>+}
    \<and> sorted (ancestors_for (derive_step_ancestors example_plan) 4)
    \<and> 4 \<notin> set (ancestors_for (derive_step_ancestors example_plan) 4)"
  by (rule step_ancestors_are_closure) (simp_all add: example_plan_numbers)

text \<open>
  C9: in a plan numbered 1 to n with contiguous review groups, what must be complete before a
  step may run is exactly every step before the first member of its own group: siblings do not
  wait for each other, and a step after a group waits for the whole group.
\<close>

theorem group_fan_out:
  assumes "sequential_plan steps" and "n \<in> set (plan_numbers steps)"
  shows "ancestors_for (derive_step_ancestors steps) n = [1..plan_anchor steps n - 1]
    \<and> (\<forall>m g. map_of (plan_marks steps) n = Some g \<and> map_of (plan_marks steps) m = Some g
          \<longrightarrow> m \<notin> set (ancestors_for (derive_step_ancestors steps) n))"
  using sequential_ancestors [OF assms] plan_anchor_least [of steps n] by fastforce

theorem group_fan_out_witness:
  "ancestors_for (derive_step_ancestors example_plan) 3 = [1]
   \<and> ancestors_for (derive_step_ancestors example_plan) 4 = [1, 2, 3]"
proof -
  have "plan_anchor example_plan 3 = 2" "plan_anchor example_plan 4 = 4"
    by (simp_all add: plan_anchor_def example_plan_marks example_group)
  then show ?thesis
    using group_fan_out [OF example_plan_sequential, of 3] group_fan_out [OF example_plan_sequential, of 4]
    by (simp add: example_plan_numbers upto_rec1)
qed

text \<open>
  on a plan without review groups the guard "no ancestor of the step is incomplete" is the
  old guard "the step is the earliest incomplete one", whatever the set of incomplete steps.
\<close>

theorem linear_guard_is_earliest:
  assumes "sort (plan_numbers steps) = [1..int (length (plan_numbers steps))]"
    and "plan_marks steps = []"
    and "incomplete \<subseteq> set (plan_numbers steps)" and "n \<in> incomplete"
  shows "(\<forall>a\<in>set (ancestors_for (derive_step_ancestors steps) n). a \<notin> incomplete) \<longleftrightarrow> n = Min incomplete"
proof -
  have seq: "sequential_plan steps"
    using assms by (simp add: sequential_plan_def groups_contiguous_def)
  have fin: "finite incomplete" using assms(3) by (rule finite_subset) simp
  have anc: "ancestors_for (derive_step_ancestors steps) n = [1..n - 1]"
    using sequential_ancestors [OF seq] assms by (auto simp: plan_anchor_def)
  have pos: "\<forall>a\<in>incomplete. 1 \<le> a"
    using assms(3) sequential_numbers(1) [OF seq] by auto
  show ?thesis
  proof
    assume "\<forall>a\<in>set (ancestors_for (derive_step_ancestors steps) n). a \<notin> incomplete"
    then have "\<forall>a\<in>incomplete. n \<le> a" using anc pos by force
    then show "n = Min incomplete" using fin assms(4) by (auto intro!: Min_eqI [symmetric])
  next
    assume "n = Min incomplete"
    then have "\<forall>a\<in>incomplete. n \<le> a" using fin by simp
    then show "\<forall>a\<in>set (ancestors_for (derive_step_ancestors steps) n). a \<notin> incomplete"
      using anc by force
  qed
qed

definition linear_example :: "pyval list" where
  "linear_example = [pdict [(''step'', PInt 1)], pdict [(''step'', PInt 2)], pdict [(''step'', PInt 3)]]"

theorem linear_guard_is_earliest_witness:
  "(\<forall>a\<in>set (ancestors_for (derive_step_ancestors linear_example) 2). a \<notin> {2, 3}) \<longleftrightarrow> 2 = Min {2, 3 :: int}"
  by (rule linear_guard_is_earliest)
     (simp_all add: linear_example_def plan_numbers_def plan_marks_def step_mark_def step_number_def
        group_of_def upto_rec1)

text \<open>A malformed plan that lists step 5 in two review groups.\<close>

definition duplicate_plan :: "pyval list" where
  "duplicate_plan =
     [pdict [(''step'', PInt 1), (''review_group'', PInt 1)],
      pdict [(''step'', PInt 5), (''review_group'', PInt 1)],
      pdict [(''step'', PInt 2)], pdict [(''step'', PInt 3)], pdict [(''step'', PInt 4)],
      pdict [(''step'', PInt 5), (''review_group'', PInt 2)]]"

lemma duplicate_plan_dependencies:
  "derive_step_dependencies duplicate_plan = [(1, []), (2, [1, 5]), (3, [2]), (4, [3]), (5, [4])]"
  by code_simp


end
