(* ===== verification/Scheduler.thy ===== *)
theory Scheduler
  imports PyValue
begin

text \<open>
  \<^verbatim>\<open>src/agentdeck/daemon/scheduler.py\<close>: the pure one-transition Mission scheduler of the project
  daemon. The closed string enumerations of the code are datatypes, with the tables that read and
  print them; \<open>facts_init\<close> is the constructor of \<^verbatim>\<open>SchedulerFacts\<close> with every check of its
  \<^verbatim>\<open>__post_init__\<close> in order, \<open>decision_init\<close> that of \<^verbatim>\<open>SchedulerDecision\<close>, and
  \<open>schedule_gate\<close> the gate, in three blocks that follow the code's own sections.

  The lemmas show that the gate never raises on facts that the constructor accepts, that each
  decision that makes progress is taken only under the authority facts it needs, and that facts
  survive the trip through their dictionary form.
\<close>

section \<open>States\<close>

datatype mission_state =
    M_idle | M_pending_confirmation | M_preparing | M_running | M_completed | M_stopped | M_interrupted

datatype step_state = S_none | S_pending | S_active | S_completed | S_failed | S_blocked

datatype attempt_state =
    A_none | A_prepared | A_admitting | A_submitted | A_running | A_completed | A_succeeded
  | A_failed | A_cancelled | A_interrupted | A_ambiguous

datatype reply_state = R_none | R_pending | R_received | R_validated | R_invalid

datatype handoff_state = H_none | H_pending | H_recorded

datatype permission_state = P_none | P_pending | P_approved | P_denied | P_expired

datatype snapshot_state = N_valid | N_missing | N_drift

datatype lineage_state = L_valid | L_missing

datatype ownership_state = O_owned | O_conflict

datatype decision_kind =
    D_start_worker | D_prepare_dispatch | D_dispatch_prepared | D_await_worker | D_validate_reply
  | D_record_handoff | D_activate_next | D_wait_human | D_wait_ambiguity | D_blocked
  | D_complete_mission | D_idle

datatype scheduler_error = SchedulerError string

text \<open>The spellings of the states, as the frozen sets at the head of the module list them.\<close>

definition MISSION_STATES :: "(string \<times> mission_state) list" where
  "MISSION_STATES =
     [(''idle'', M_idle), (''pending_confirmation'', M_pending_confirmation), (''preparing'', M_preparing),
      (''running'', M_running), (''completed'', M_completed), (''stopped'', M_stopped),
      (''interrupted'', M_interrupted)]"

definition STEP_STATES :: "(string \<times> step_state) list" where
  "STEP_STATES =
     [(''none'', S_none), (''pending'', S_pending), (''active'', S_active), (''completed'', S_completed),
      (''failed'', S_failed), (''blocked'', S_blocked)]"

definition ATTEMPT_STATES :: "(string \<times> attempt_state) list" where
  "ATTEMPT_STATES =
     [(''none'', A_none), (''prepared'', A_prepared), (''admitting'', A_admitting), (''submitted'', A_submitted),
      (''running'', A_running), (''completed'', A_completed), (''succeeded'', A_succeeded),
      (''failed'', A_failed), (''cancelled'', A_cancelled), (''interrupted'', A_interrupted),
      (''ambiguous'', A_ambiguous)]"

definition REPLY_STATES :: "(string \<times> reply_state) list" where
  "REPLY_STATES =
     [(''none'', R_none), (''pending'', R_pending), (''received'', R_received), (''validated'', R_validated),
      (''invalid'', R_invalid)]"

definition HANDOFF_STATES :: "(string \<times> handoff_state) list" where
  "HANDOFF_STATES = [(''none'', H_none), (''pending'', H_pending), (''recorded'', H_recorded)]"

definition PERMISSION_STATES :: "(string \<times> permission_state) list" where
  "PERMISSION_STATES =
     [(''none'', P_none), (''pending'', P_pending), (''approved'', P_approved), (''denied'', P_denied),
      (''expired'', P_expired)]"

definition SNAPSHOT_STATES :: "(string \<times> snapshot_state) list" where
  "SNAPSHOT_STATES = [(''valid'', N_valid), (''missing'', N_missing), (''drift'', N_drift)]"

definition LINEAGE_STATES :: "(string \<times> lineage_state) list" where
  "LINEAGE_STATES = [(''valid'', L_valid), (''missing'', L_missing)]"

definition OWNERSHIP_STATES :: "(string \<times> ownership_state) list" where
  "OWNERSHIP_STATES = [(''owned'', O_owned), (''conflict'', O_conflict)]"

definition DECISION_KINDS :: "(string \<times> decision_kind) list" where
  "DECISION_KINDS =
     [(''start_worker'', D_start_worker), (''prepare_dispatch'', D_prepare_dispatch),
      (''dispatch_prepared'', D_dispatch_prepared), (''await_worker'', D_await_worker),
      (''validate_reply'', D_validate_reply), (''record_handoff'', D_record_handoff),
      (''activate_next'', D_activate_next), (''wait_human'', D_wait_human),
      (''wait_ambiguity'', D_wait_ambiguity), (''blocked'', D_blocked),
      (''complete_mission'', D_complete_mission), (''idle'', D_idle)]"

lemmas state_tables =
  MISSION_STATES_def STEP_STATES_def ATTEMPT_STATES_def REPLY_STATES_def HANDOFF_STATES_def
  PERMISSION_STATES_def SNAPSHOT_STATES_def LINEAGE_STATES_def OWNERSHIP_STATES_def DECISION_KINDS_def

text \<open>\<^verbatim>\<open>type(value) is str and value in allowed\<close>, and the spelling of a state.\<close>

fun state_of :: "(string \<times> 'a) list \<Rightarrow> pyval \<Rightarrow> 'a option" where
  "state_of [] v = None"
| "state_of ((s, x) # tab) v = (if v = PS s then Some x else state_of tab v)"

fun state_name :: "(string \<times> 'a) list \<Rightarrow> 'a \<Rightarrow> string" where
  "state_name [] x = []"
| "state_name ((s, y) # tab) x = (if x = y then s else state_name tab x)"

definition active_attempt_states :: "attempt_state list" where
  "active_attempt_states = [A_prepared, A_admitting, A_submitted, A_running]"

definition successful_attempt_states :: "attempt_state list" where
  "successful_attempt_states = [A_completed, A_succeeded]"

definition terminal_mission_states :: "mission_state list" where
  "terminal_mission_states = [M_completed, M_stopped, M_interrupted]"

lemmas state_sets =
  active_attempt_states_def successful_attempt_states_def terminal_mission_states_def

definition WORKER_START_REQUIRED_BLOCKER :: pstr where
  "WORKER_START_REQUIRED_BLOCKER = u ''frozen tmux Worker startup required''"

text \<open>The three identity patterns, all used with \<^verbatim>\<open>fullmatch\<close>.\<close>

definition MISSION_ID :: "pstr \<Rightarrow> bool" where
  "MISSION_ID s \<longleftrightarrow> length s = 16 \<and> take 4 s = u ''mis_'' \<and> list_all is_hex (drop 4 s)"

definition STEP_ID :: "pstr \<Rightarrow> bool" where
  "STEP_ID s \<longleftrightarrow> take 5 s = u ''step_'' \<and> (case drop 5 s of [] \<Rightarrow> False | c # cs \<Rightarrow> 49 \<le> c \<and> c \<le> 57 \<and> list_all is_digit cs)"

definition ATTEMPT_ID :: "pstr \<Rightarrow> bool" where
  "ATTEMPT_ID s \<longleftrightarrow> length s = 16 \<and> take 4 s = u ''mat_'' \<and> list_all is_hex (drop 4 s)"

definition is_successful_attempt_result :: "pyval \<Rightarrow> pyval \<Rightarrow> bool" where
  "is_successful_attempt_result attempt result_status \<longleftrightarrow>
     (case state_of ATTEMPT_STATES attempt of Some a \<Rightarrow> a \<in> set successful_attempt_states | None \<Rightarrow> False)
     \<and> result_status = PS ''completed''"

section \<open>Facts\<close>

record scheduler_facts =
  sf_mission_id :: "pstr option"
  sf_mission_state :: mission_state
  sf_step_id :: "pstr option"
  sf_step_state :: step_state
  sf_attempt_id :: "pstr option"
  sf_attempt_state :: attempt_state
  sf_reply_state :: reply_state
  sf_handoff_state :: handoff_state
  sf_permission_state :: permission_state
  sf_worker_ready :: bool
  sf_next_step_eligible :: bool
  sf_all_steps_completed :: bool
  sf_snapshot_state :: snapshot_state
  sf_lineage_state :: lineage_state
  sf_ownership_state :: ownership_state
  sf_active_attempt_count :: int
  sf_blocker :: "pstr option"

definition FACT_FIELDS :: "string list" where
  "FACT_FIELDS =
     [''mission_id'', ''mission_state'', ''step_id'', ''step_state'', ''attempt_id'', ''attempt_state'',
      ''reply_state'', ''handoff_state'', ''permission_state'', ''worker_ready'', ''next_step_eligible'',
      ''all_steps_completed'', ''snapshot_state'', ''lineage_state'', ''ownership_state'',
      ''active_attempt_count'', ''blocker'']"

abbreviation bad_facts :: "string \<Rightarrow> scheduler_error" where
  "bad_facts what \<equiv> SchedulerError (''invalid scheduler facts: '' @ what)"

fun bool_field :: "pyval \<Rightarrow> bool option" where
  "bool_field (PBool b) = Some b"
| "bool_field _ = None"

fun count_field :: "pyval \<Rightarrow> int option" where
  "count_field (PInt n) = (if n < 0 then None else Some n)"
| "count_field _ = None"

fun blocker_field :: "pyval \<Rightarrow> pstr option option" where
  "blocker_field PNone = Some None"
| "blocker_field (PStr s) = (if py_strip s = [] then None else Some (Some s))"
| "blocker_field _ = None"

fun optional_identity :: "pyval \<Rightarrow> (pstr \<Rightarrow> bool) \<Rightarrow> pstr option option" where
  "optional_identity PNone pattern = Some None"
| "optional_identity (PStr s) pattern = (if pattern s then Some (Some s) else None)"
| "optional_identity _ pattern = None"

text \<open>The checks of \<^verbatim>\<open>__post_init__\<close> that relate fields to each other, in order.\<close>

definition idle_facts_clean :: "scheduler_facts \<Rightarrow> bool" where
  "idle_facts_clean f \<longleftrightarrow>
     sf_mission_id f = None \<and> sf_step_id f = None \<and> sf_attempt_id f = None
     \<and> sf_step_state f = S_none \<and> sf_attempt_state f = A_none \<and> sf_reply_state f = R_none
     \<and> sf_handoff_state f = H_none \<and> sf_permission_state f = P_none
     \<and> \<not> sf_next_step_eligible f \<and> \<not> sf_all_steps_completed f
     \<and> sf_snapshot_state f \<noteq> N_drift \<and> sf_lineage_state f = L_valid \<and> sf_ownership_state f = O_owned
     \<and> sf_active_attempt_count f = 0 \<and> sf_blocker f = None"

definition facts_consistent :: "scheduler_facts \<Rightarrow> scheduler_error + scheduler_facts" where
  "facts_consistent f =
     (if sf_mission_state f = M_idle then
        rfail_if (\<not> idle_facts_clean f) (bad_facts ''idle Mission facts'') (Inr f)
      else
        rfail_if (sf_mission_id f = None) (bad_facts ''mission identity'')
        (rfail_if (sf_mission_state f = M_pending_confirmation
             \<and> (sf_step_id f \<noteq> None \<or> sf_step_state f \<noteq> S_none \<or> sf_attempt_id f \<noteq> None
                \<or> sf_attempt_state f \<noteq> A_none \<or> sf_active_attempt_count f \<noteq> 0))
           (bad_facts ''unconfirmed Mission lineage'')
        (rfail_if (sf_step_state f \<noteq> S_none \<and> sf_step_id f = None) (bad_facts ''step identity'')
        (rfail_if (sf_step_id f = None \<and> sf_attempt_id f \<noteq> None) (bad_facts ''step identity'')
        (rfail_if (if sf_attempt_state f \<in> set active_attempt_states
                   then sf_active_attempt_count f < 1
                   else sf_active_attempt_count f = 1)
           (bad_facts ''active attempt count'')
        (rfail_if (sf_attempt_state f \<noteq> A_none \<and> sf_attempt_id f = None) (bad_facts ''attempt identity'')
        (rfail_if (sf_attempt_id f \<noteq> None \<and> sf_attempt_state f = A_none) (bad_facts ''attempt identity'')
        (rfail_if (sf_reply_state f \<noteq> R_none \<and> sf_attempt_id f = None) (bad_facts ''reply lineage'')
        (rfail_if (sf_handoff_state f \<noteq> H_none \<and> sf_reply_state f \<noteq> R_validated) (bad_facts ''handoff lineage'')
        (rfail_if (sf_next_step_eligible f \<and> (sf_reply_state f \<noteq> R_validated \<or> sf_handoff_state f \<noteq> H_recorded))
           (bad_facts ''next-step lineage'')
        (Inr f)))))))))))"

text \<open>The constructor: \<open>kw\<close> gives the value of each keyword argument.\<close>

definition facts_init :: "(string \<Rightarrow> pyval) \<Rightarrow> scheduler_error + scheduler_facts" where
  "facts_init kw =
     (case (state_of MISSION_STATES (kw ''mission_state''), state_of STEP_STATES (kw ''step_state''),
            state_of ATTEMPT_STATES (kw ''attempt_state''), state_of REPLY_STATES (kw ''reply_state''),
            state_of HANDOFF_STATES (kw ''handoff_state''), state_of PERMISSION_STATES (kw ''permission_state''),
            state_of SNAPSHOT_STATES (kw ''snapshot_state''), state_of LINEAGE_STATES (kw ''lineage_state''),
            state_of OWNERSHIP_STATES (kw ''ownership_state'')) of
        (Some m, Some s, Some a, Some r, Some h, Some p, Some sn, Some l, Some ow) \<Rightarrow>
          (case (bool_field (kw ''worker_ready''), bool_field (kw ''next_step_eligible''),
                 bool_field (kw ''all_steps_completed'')) of
             (Some ready, Some eligible, Some done) \<Rightarrow>
               (case count_field (kw ''active_attempt_count'') of
                  None \<Rightarrow> Inl (bad_facts ''active attempt count'')
                | Some n \<Rightarrow>
               (case blocker_field (kw ''blocker'') of
                  None \<Rightarrow> Inl (bad_facts ''blocker'')
                | Some b \<Rightarrow>
               (case optional_identity (kw ''mission_id'') MISSION_ID of
                  None \<Rightarrow> Inl (bad_facts ''mission identity'')
                | Some mid \<Rightarrow>
               (case optional_identity (kw ''step_id'') STEP_ID of
                  None \<Rightarrow> Inl (bad_facts ''step identity'')
                | Some sid \<Rightarrow>
               (case optional_identity (kw ''attempt_id'') ATTEMPT_ID of
                  None \<Rightarrow> Inl (bad_facts ''attempt identity'')
                | Some aid \<Rightarrow>
                    facts_consistent
                      \<lparr>sf_mission_id = mid, sf_mission_state = m, sf_step_id = sid, sf_step_state = s,
                       sf_attempt_id = aid, sf_attempt_state = a, sf_reply_state = r, sf_handoff_state = h,
                       sf_permission_state = p, sf_worker_ready = ready, sf_next_step_eligible = eligible,
                       sf_all_steps_completed = done, sf_snapshot_state = sn, sf_lineage_state = l,
                       sf_ownership_state = ow, sf_active_attempt_count = n, sf_blocker = b\<rparr>)))))
           | _ \<Rightarrow> Inl (bad_facts ''boolean field''))
      | _ \<Rightarrow> Inl (bad_facts ''unknown state''))"

definition facts_from_mapping :: "pyval \<Rightarrow> scheduler_error + scheduler_facts" where
  "facts_from_mapping v =
     (if \<not> is_dict v \<or> dkeys v \<noteq> u ` set FACT_FIELDS
      then Inl (bad_facts ''exact fields required'')
      else facts_init (dget v))"

fun opt_str :: "pstr option \<Rightarrow> pyval" where
  "opt_str None = PNone"
| "opt_str (Some s) = PStr s"

definition facts_summary :: "scheduler_facts \<Rightarrow> pyval" where
  "facts_summary f = pdict
     [(''mission_id'', opt_str (sf_mission_id f)),
      (''mission_state'', PS (state_name MISSION_STATES (sf_mission_state f))),
      (''step_id'', opt_str (sf_step_id f)),
      (''step_state'', PS (state_name STEP_STATES (sf_step_state f))),
      (''attempt_id'', opt_str (sf_attempt_id f)),
      (''attempt_state'', PS (state_name ATTEMPT_STATES (sf_attempt_state f))),
      (''reply_state'', PS (state_name REPLY_STATES (sf_reply_state f))),
      (''handoff_state'', PS (state_name HANDOFF_STATES (sf_handoff_state f))),
      (''permission_state'', PS (state_name PERMISSION_STATES (sf_permission_state f))),
      (''worker_ready'', PBool (sf_worker_ready f)),
      (''next_step_eligible'', PBool (sf_next_step_eligible f)),
      (''all_steps_completed'', PBool (sf_all_steps_completed f)),
      (''snapshot_state'', PS (state_name SNAPSHOT_STATES (sf_snapshot_state f))),
      (''lineage_state'', PS (state_name LINEAGE_STATES (sf_lineage_state f))),
      (''ownership_state'', PS (state_name OWNERSHIP_STATES (sf_ownership_state f))),
      (''active_attempt_count'', PInt (sf_active_attempt_count f)),
      (''blocker'', opt_str (sf_blocker f))]"

section \<open>Decisions\<close>

record scheduler_decision =
  sd_kind :: decision_kind
  sd_mission_id :: "pstr option"
  sd_step_id :: "pstr option"
  sd_attempt_id :: "pstr option"
  sd_blocker :: "pstr option"

abbreviation bad_decision :: scheduler_error where
  "bad_decision \<equiv> SchedulerError ''invalid scheduler decision''"

fun identity_ok :: "(pstr \<Rightarrow> bool) \<Rightarrow> pstr option \<Rightarrow> bool" where
  "identity_ok pattern None = True"
| "identity_ok pattern (Some s) = pattern s"

definition decision_init :: "scheduler_decision \<Rightarrow> scheduler_error + scheduler_decision" where
  "decision_init d =
     (rfail_if (\<not> identity_ok MISSION_ID (sd_mission_id d) \<or> \<not> identity_ok STEP_ID (sd_step_id d)
                \<or> \<not> identity_ok ATTEMPT_ID (sd_attempt_id d)) bad_decision
     (rfail_if (if sd_kind d = D_blocked
                then (case sd_blocker d of None \<Rightarrow> True | Some b \<Rightarrow> py_strip b = [])
                else sd_blocker d \<noteq> None) bad_decision
     (rfail_if (sd_step_id d \<noteq> None \<and> sd_mission_id d = None) bad_decision
     (rfail_if (sd_attempt_id d \<noteq> None \<and> sd_step_id d = None) bad_decision
     (rfail_if (sd_kind d \<noteq> D_idle \<and> sd_mission_id d = None) bad_decision
     (rfail_if (sd_kind d \<in> {D_start_worker, D_prepare_dispatch}
                \<and> (sd_step_id d = None \<or> sd_attempt_id d \<noteq> None)) bad_decision
     (rfail_if (sd_kind d = D_complete_mission \<and> (sd_step_id d \<noteq> None \<or> sd_attempt_id d \<noteq> None)) bad_decision
     (rfail_if (sd_kind d \<in> {D_dispatch_prepared, D_await_worker, D_validate_reply, D_record_handoff,
                             D_activate_next, D_wait_ambiguity}
                \<and> sd_attempt_id d = None) bad_decision
     (Inr d)))))))))"

definition mk_decision :: "decision_kind \<Rightarrow> scheduler_facts \<Rightarrow> pstr option \<Rightarrow> scheduler_error + scheduler_decision" where
  "mk_decision kind f blocker = decision_init
     \<lparr>sd_kind = kind, sd_mission_id = sf_mission_id f, sd_step_id = sf_step_id f,
      sd_attempt_id = sf_attempt_id f, sd_blocker = blocker\<rparr>"

abbreviation decide :: "decision_kind \<Rightarrow> scheduler_facts \<Rightarrow> scheduler_error + scheduler_decision" where
  "decide kind f \<equiv> mk_decision kind f None"

abbreviation block :: "string \<Rightarrow> scheduler_facts \<Rightarrow> scheduler_error + scheduler_decision" where
  "block reason f \<equiv> mk_decision D_blocked f (Some (u reason))"

section \<open>The gate\<close>

text \<open>The last section of the gate: completion, then the next transition of the current step.\<close>

definition gate_progress :: "scheduler_facts \<Rightarrow> scheduler_error + scheduler_decision" where
  "gate_progress f =
     (let success = sf_attempt_state f \<in> set successful_attempt_states in
      if sf_all_steps_completed f then
        (if sf_attempt_id f \<noteq> None then
           (if success \<and> sf_reply_state f \<noteq> R_validated then block ''completion has unverified Worker result'' f
            else if success \<and> sf_handoff_state f \<noteq> H_recorded then block ''completion has unrecorded handoff'' f
            else block ''completion conflicts with current step'' f)
         else if sf_step_id f \<noteq> None then block ''completion conflicts with current step'' f
         else decide D_complete_mission f)
      else if sf_step_state f = S_pending \<and> sf_attempt_state f = A_none \<and> sf_worker_ready f then
        decide D_prepare_dispatch f
      else if sf_step_state f = S_pending \<and> sf_attempt_state f = A_none then block ''Worker is not ready'' f
      else if sf_attempt_state f = A_prepared then
        (if \<not> sf_worker_ready f then block ''Worker is not ready at dispatch'' f else decide D_dispatch_prepared f)
      else if success \<and> sf_reply_state f = R_received then decide D_validate_reply f
      else if success \<and> sf_reply_state f = R_validated \<and> sf_handoff_state f \<noteq> H_recorded then
        decide D_record_handoff f
      else if success \<and> sf_reply_state f = R_validated \<and> sf_handoff_state f = H_recorded
              \<and> sf_next_step_eligible f then decide D_activate_next f
      else if sf_attempt_state f \<in> {A_submitted, A_running} then decide D_await_worker f
      else if success \<and> sf_reply_state f \<in> {R_none, R_pending} then block ''Worker result is missing'' f
      else if sf_step_state f = S_active \<and> sf_attempt_state f = A_none then
        block ''active Mission step has no attempt'' f
      else if success \<and> sf_reply_state f = R_validated \<and> sf_handoff_state f = H_recorded then
        block ''successful attempt has no next transition'' f
      else block ''incomplete active Mission facts'' f)"

text \<open>The middle section: worker start, recorded blockers, failed facts, terminal Missions, waits.\<close>

definition gate_blockers :: "scheduler_facts \<Rightarrow> scheduler_error + scheduler_decision" where
  "gate_blockers f =
     (let terminal = sf_mission_state f \<in> set terminal_mission_states;
          active = sf_attempt_state f \<in> set active_attempt_states in
      if \<not> terminal \<and> sf_blocker f = Some WORKER_START_REQUIRED_BLOCKER \<and> sf_step_state f = S_pending
         \<and> sf_attempt_state f = A_none \<and> sf_attempt_id f = None \<and> sf_active_attempt_count f = 0 then
        decide D_start_worker f
      else if sf_blocker f \<noteq> None then mk_decision D_blocked f (sf_blocker f)
      else if active \<and> (sf_reply_state f \<in> {R_received, R_validated} \<or> sf_handoff_state f \<noteq> H_none
                        \<or> sf_next_step_eligible f) then
        block ''Worker reply precedes successful terminal attempt'' f
      else if terminal \<and> sf_permission_state f = P_pending then block ''terminal Mission has pending permission'' f
      else if terminal \<and> sf_attempt_state f = A_ambiguous then block ''terminal Mission retains ambiguous attempt'' f
      else if sf_permission_state f \<in> {P_denied, P_expired} then
        block (if sf_permission_state f = P_denied then ''permission denied'' else ''permission expired'') f
      else if sf_step_state f \<in> {S_failed, S_blocked} then
        block (''Mission step is '' @ state_name STEP_STATES (sf_step_state f)) f
      else if sf_attempt_state f \<in> {A_failed, A_cancelled, A_interrupted} then
        block (''Mission attempt '' @ state_name ATTEMPT_STATES (sf_attempt_state f)) f
      else if sf_reply_state f = R_invalid then block ''Worker reply is invalid'' f
      else if sf_mission_state f = M_completed \<and> (sf_step_id f \<noteq> None \<or> sf_attempt_id f \<noteq> None) then
        block ''terminal Mission retains current lineage'' f
      else if terminal then decide D_idle f
      else if sf_permission_state f = P_pending then decide D_wait_human f
      else if sf_attempt_state f \<in> {A_admitting, A_ambiguous} then decide D_wait_ambiguity f
      else gate_progress f)"

text \<open>The whole gate; its first section is integrity and authority.\<close>

definition schedule_gate :: "scheduler_facts \<Rightarrow> scheduler_error + scheduler_decision" where
  "schedule_gate f =
     (if sf_mission_state f = M_idle then decide D_idle f
      else if sf_lineage_state f \<noteq> L_valid then block ''missing Mission lineage'' f
      else if sf_ownership_state f \<noteq> O_owned then block ''Worker ownership conflict'' f
      else if sf_mission_state f = M_pending_confirmation then
        (if sf_snapshot_state f = N_drift then block ''frozen snapshot drift'' f
         else if sf_blocker f \<noteq> None then mk_decision D_blocked f (sf_blocker f)
         else decide D_wait_human f)
      else if sf_snapshot_state f \<noteq> N_valid then
        block (if sf_snapshot_state f = N_drift then ''frozen snapshot drift'' else ''frozen snapshot missing'') f
      else if sf_active_attempt_count f > 1 then block ''conflicting active attempts'' f
      else if sf_all_steps_completed f \<and> sf_active_attempt_count f \<noteq> 0 then
        block ''completion conflicts with active attempt'' f
      else if sf_mission_state f \<in> set terminal_mission_states \<and> sf_active_attempt_count f \<noteq> 0 then
        block ''terminal Mission conflicts with active attempt'' f
      else gate_blockers f)"

datatype observation_state = Ob_blocked | Ob_terminal | Ob_inactive | Ob_waiting_human | Ob_running

record scheduler_observation =
  ob_state :: observation_state
  ob_active_mission_id :: "pstr option"
  ob_active_step :: "pstr option"
  ob_next_transition :: "decision_kind option"
  ob_blockers :: "pstr list"

definition scheduler_observation :: "scheduler_facts \<Rightarrow> scheduler_error + scheduler_observation" where
  "scheduler_observation f = rbind (schedule_gate f) (\<lambda>d.
     let (state, next_transition) =
       (if sd_kind d = D_blocked then (Ob_blocked, Some (sd_kind d))
        else if sf_mission_state f \<in> set terminal_mission_states then (Ob_terminal, None)
        else if sd_kind d = D_idle then (Ob_inactive, None)
        else if sd_kind d \<in> {D_wait_human, D_wait_ambiguity} then (Ob_waiting_human, Some (sd_kind d))
        else (Ob_running, Some (sd_kind d)))
     in Inr \<lparr>ob_state = state, ob_active_mission_id = sf_mission_id f, ob_active_step = sf_step_id f,
             ob_next_transition = next_transition,
             ob_blockers = (case sd_blocker d of None \<Rightarrow> [] | Some b \<Rightarrow> [b])\<rparr>)"

text \<open>\<^verbatim>\<open>run_scheduler_once\<close>: the effects object of the caller is its \<^verbatim>\<open>apply\<close> function.\<close>

definition run_scheduler_once ::
    "scheduler_facts \<Rightarrow> (scheduler_decision \<Rightarrow> scheduler_error + 'r) \<Rightarrow> scheduler_error + 'r" where
  "run_scheduler_once f apply_effect = rbind (schedule_gate f) apply_effect"

section \<open>Facts the constructor accepts\<close>

definition blocker_ok :: "pstr option \<Rightarrow> bool" where
  "blocker_ok b \<longleftrightarrow> (case b of None \<Rightarrow> True | Some s \<Rightarrow> py_strip s \<noteq> [])"

definition valid_facts :: "scheduler_facts \<Rightarrow> bool" where
  "valid_facts f \<longleftrightarrow>
     0 \<le> sf_active_attempt_count f \<and> blocker_ok (sf_blocker f)
     \<and> identity_ok MISSION_ID (sf_mission_id f) \<and> identity_ok STEP_ID (sf_step_id f)
     \<and> identity_ok ATTEMPT_ID (sf_attempt_id f) \<and> facts_consistent f = Inr f"

lemma count_field_Some: "count_field v = Some n \<longleftrightarrow> v = PInt n \<and> 0 \<le> n"
  by (cases v) auto

lemma bool_field_Some: "bool_field v = Some b \<longleftrightarrow> v = PBool b"
  by (cases v) auto

lemma blocker_field_ok: "blocker_field v = Some b \<longleftrightarrow> blocker_ok b \<and> v = opt_str b"
  by (cases v; cases b) (auto simp: blocker_ok_def)

lemma optional_identity_ok: "optional_identity v pat = Some i \<longleftrightarrow> identity_ok pat i \<and> v = opt_str i"
  by (cases v; cases i) auto

lemma facts_consistent_id: "facts_consistent f = Inr f' \<Longrightarrow> f' = f"
  by (auto simp: facts_consistent_def res_simps split: if_splits)

lemma facts_consistent_valid:
  "facts_consistent f = Inr f' \<Longrightarrow> 0 \<le> sf_active_attempt_count f \<Longrightarrow> blocker_ok (sf_blocker f) \<Longrightarrow>
   identity_ok MISSION_ID (sf_mission_id f) \<Longrightarrow> identity_ok STEP_ID (sf_step_id f) \<Longrightarrow>
   identity_ok ATTEMPT_ID (sf_attempt_id f) \<Longrightarrow> valid_facts f'"
  using facts_consistent_id [of f f'] by (simp add: valid_facts_def)

lemma facts_init_valid: "facts_init kw = Inr f \<Longrightarrow> valid_facts f"
  unfolding facts_init_def
  by (auto simp: count_field_Some blocker_field_ok optional_identity_ok
      split: option.splits prod.splits elim!: facts_consistent_valid)

lemma state_of_name:
  "state_of MISSION_STATES (PS (state_name MISSION_STATES m)) = Some m"
  "state_of STEP_STATES (PS (state_name STEP_STATES s)) = Some s"
  "state_of ATTEMPT_STATES (PS (state_name ATTEMPT_STATES a)) = Some a"
  "state_of REPLY_STATES (PS (state_name REPLY_STATES r)) = Some r"
  "state_of HANDOFF_STATES (PS (state_name HANDOFF_STATES h)) = Some h"
  "state_of PERMISSION_STATES (PS (state_name PERMISSION_STATES p)) = Some p"
  "state_of SNAPSHOT_STATES (PS (state_name SNAPSHOT_STATES sn)) = Some sn"
  "state_of LINEAGE_STATES (PS (state_name LINEAGE_STATES l)) = Some l"
  "state_of OWNERSHIP_STATES (PS (state_name OWNERSHIP_STATES ow)) = Some ow"
  by (cases m, simp_all add: state_tables)
     (cases s, simp_all add: state_tables,
      cases a, simp_all add: state_tables,
      cases r, simp_all add: state_tables,
      cases h, simp_all add: state_tables,
      cases p, simp_all add: state_tables,
      cases sn, simp_all add: state_tables,
      cases l, simp_all add: state_tables,
      cases ow, simp_all add: state_tables)

lemma facts_summary_get:
  "dget (facts_summary f) ''mission_id'' = opt_str (sf_mission_id f)"
  "dget (facts_summary f) ''mission_state'' = PS (state_name MISSION_STATES (sf_mission_state f))"
  "dget (facts_summary f) ''step_id'' = opt_str (sf_step_id f)"
  "dget (facts_summary f) ''step_state'' = PS (state_name STEP_STATES (sf_step_state f))"
  "dget (facts_summary f) ''attempt_id'' = opt_str (sf_attempt_id f)"
  "dget (facts_summary f) ''attempt_state'' = PS (state_name ATTEMPT_STATES (sf_attempt_state f))"
  "dget (facts_summary f) ''reply_state'' = PS (state_name REPLY_STATES (sf_reply_state f))"
  "dget (facts_summary f) ''handoff_state'' = PS (state_name HANDOFF_STATES (sf_handoff_state f))"
  "dget (facts_summary f) ''permission_state'' = PS (state_name PERMISSION_STATES (sf_permission_state f))"
  "dget (facts_summary f) ''worker_ready'' = PBool (sf_worker_ready f)"
  "dget (facts_summary f) ''next_step_eligible'' = PBool (sf_next_step_eligible f)"
  "dget (facts_summary f) ''all_steps_completed'' = PBool (sf_all_steps_completed f)"
  "dget (facts_summary f) ''snapshot_state'' = PS (state_name SNAPSHOT_STATES (sf_snapshot_state f))"
  "dget (facts_summary f) ''lineage_state'' = PS (state_name LINEAGE_STATES (sf_lineage_state f))"
  "dget (facts_summary f) ''ownership_state'' = PS (state_name OWNERSHIP_STATES (sf_ownership_state f))"
  "dget (facts_summary f) ''active_attempt_count'' = PInt (sf_active_attempt_count f)"
  "dget (facts_summary f) ''blocker'' = opt_str (sf_blocker f)"
  by (simp_all add: facts_summary_def)

lemma facts_summary_fields: "is_dict (facts_summary f)" "dkeys (facts_summary f) = u ` set FACT_FIELDS"
  by (simp_all add: facts_summary_def FACT_FIELDS_def insert_commute)

lemma facts_from_mapping_summary:
  assumes "valid_facts f"
  shows "facts_from_mapping (facts_summary f) = Inr f"
proof -
  have c: "count_field (PInt (sf_active_attempt_count f)) = Some (sf_active_attempt_count f)"
    and b: "blocker_field (opt_str (sf_blocker f)) = Some (sf_blocker f)"
    and m: "optional_identity (opt_str (sf_mission_id f)) MISSION_ID = Some (sf_mission_id f)"
    and s: "optional_identity (opt_str (sf_step_id f)) STEP_ID = Some (sf_step_id f)"
    and a: "optional_identity (opt_str (sf_attempt_id f)) ATTEMPT_ID = Some (sf_attempt_id f)"
    and k: "facts_consistent f = Inr f"
    using assms by (auto simp: valid_facts_def count_field_Some blocker_field_ok optional_identity_ok)
  show ?thesis
    by (simp add: facts_from_mapping_def facts_summary_fields facts_init_def facts_summary_get state_of_name
        b m s a c del: count_field.simps)
       (use k in \<open>cases f, simp\<close>)
qed

section \<open>The gate never raises\<close>

text \<open>What the checks say about facts of a Mission that is not idle.\<close>

lemma valid_factsD:
  assumes "valid_facts f" and "sf_mission_state f \<noteq> M_idle"
  shows "sf_mission_id f \<noteq> None"
    and "sf_step_state f \<noteq> S_none \<Longrightarrow> sf_step_id f \<noteq> None"
    and "sf_attempt_id f \<noteq> None \<Longrightarrow> sf_step_id f \<noteq> None"
    and "sf_attempt_state f \<noteq> A_none \<longleftrightarrow> sf_attempt_id f \<noteq> None"
    and "sf_attempt_state f \<in> set active_attempt_states \<Longrightarrow> 1 \<le> sf_active_attempt_count f"
    and "sf_attempt_state f \<notin> set active_attempt_states \<Longrightarrow> sf_active_attempt_count f \<noteq> 1"
    and "sf_reply_state f \<noteq> R_none \<Longrightarrow> sf_attempt_id f \<noteq> None"
  using assms by (auto simp: valid_facts_def facts_consistent_def res_simps split: if_splits)

lemma valid_facts_idleD:
  assumes "valid_facts f" and "sf_mission_state f = M_idle"
  shows "idle_facts_clean f"
  using assms by (simp add: valid_facts_def facts_consistent_def res_simps)

lemma decision_blocked_ok:
  assumes "valid_facts f" and "sf_mission_state f \<noteq> M_idle" and "py_strip b \<noteq> []"
  shows "mk_decision D_blocked f (Some b) =
    Inr \<lparr>sd_kind = D_blocked, sd_mission_id = sf_mission_id f, sd_step_id = sf_step_id f,
         sd_attempt_id = sf_attempt_id f, sd_blocker = Some b\<rparr>"
proof -
  have "sf_mission_id f \<noteq> None" "sf_attempt_id f \<noteq> None \<longrightarrow> sf_step_id f \<noteq> None"
    using valid_factsD(1,3) [OF assms(1,2)] by simp_all
  with assms show ?thesis
    by (cases "sf_attempt_id f"; cases "sf_step_id f")
       (simp_all add: mk_decision_def decision_init_def valid_facts_def rfail_if_eq_Inr)
qed

lemma block_ok:
  assumes "valid_facts f" and "sf_mission_state f \<noteq> M_idle" and "reason \<noteq> []" and "hd reason \<notin> set space_chars"
  shows "block reason f =
    Inr \<lparr>sd_kind = D_blocked, sd_mission_id = sf_mission_id f, sd_step_id = sf_step_id f,
         sd_attempt_id = sf_attempt_id f, sd_blocker = Some (u reason)\<rparr>"
  by (rule decision_blocked_ok [OF assms(1,2) nonblank_literal [OF assms(3,4)]])

definition decision_needs :: "decision_kind \<Rightarrow> scheduler_facts \<Rightarrow> bool" where
  "decision_needs k f \<longleftrightarrow>
     (k \<in> {D_start_worker, D_prepare_dispatch} \<longrightarrow> sf_step_id f \<noteq> None \<and> sf_attempt_id f = None)
     \<and> (k = D_complete_mission \<longrightarrow> sf_step_id f = None \<and> sf_attempt_id f = None)
     \<and> (k \<in> {D_dispatch_prepared, D_await_worker, D_validate_reply, D_record_handoff,
              D_activate_next, D_wait_ambiguity} \<longrightarrow> sf_attempt_id f \<noteq> None)"

lemma decide_ok:
  assumes "valid_facts f" and "sf_mission_state f \<noteq> M_idle" and "k \<noteq> D_blocked" and "decision_needs k f"
  shows "decide k f =
    Inr \<lparr>sd_kind = k, sd_mission_id = sf_mission_id f, sd_step_id = sf_step_id f,
         sd_attempt_id = sf_attempt_id f, sd_blocker = None\<rparr>"
proof -
  have "sf_mission_id f \<noteq> None" "sf_attempt_id f \<noteq> None \<longrightarrow> sf_step_id f \<noteq> None"
    using valid_factsD(1,3) [OF assms(1,2)] by simp_all
  with assms show ?thesis
    by (cases "sf_attempt_id f"; cases "sf_step_id f"; cases k)
       (simp_all add: mk_decision_def decision_init_def valid_facts_def decision_needs_def rfail_if_eq_Inr)
qed

text \<open>
  A gate outcome: the result is a decision (never an error), it carries the identities of the
  facts, and \<open>Q\<close> holds of its kind. The rules below follow the gate branch by branch.
\<close>

definition gate_out :: "(decision_kind \<Rightarrow> bool) \<Rightarrow> scheduler_facts \<Rightarrow> scheduler_error + scheduler_decision \<Rightarrow> bool" where
  "gate_out Q f m \<longleftrightarrow> (\<exists>d. m = Inr d \<and> decision_init d = Inr d \<and> Q (sd_kind d) \<and> sd_mission_id d = sf_mission_id f
     \<and> sd_step_id d = sf_step_id f \<and> sd_attempt_id d = sf_attempt_id f
     \<and> (sd_kind d = D_blocked \<longleftrightarrow> sd_blocker d \<noteq> None))"

lemma gate_out_if:
  "(c \<Longrightarrow> gate_out Q f a) \<Longrightarrow> (\<not> c \<Longrightarrow> gate_out Q f b) \<Longrightarrow> gate_out Q f (if c then a else b)"
  by simp

lemma gate_out_block:
  assumes "valid_facts f" and "sf_mission_state f \<noteq> M_idle"
  shows "Q D_blocked \<Longrightarrow> reason \<noteq> [] \<Longrightarrow> hd reason \<notin> set space_chars \<Longrightarrow> gate_out Q f (block reason f)"
  using block_ok [OF assms, of reason] by (simp add: gate_out_def mk_decision_def)

lemma gate_out_blocker:
  assumes "valid_facts f" and "sf_mission_state f \<noteq> M_idle"
  shows "Q D_blocked \<Longrightarrow> sf_blocker f \<noteq> None \<Longrightarrow> gate_out Q f (mk_decision D_blocked f (sf_blocker f))"
  using assms decision_blocked_ok [OF assms]
  by (cases "sf_blocker f") (simp_all add: gate_out_def mk_decision_def valid_facts_def blocker_ok_def)

lemma gate_out_decide:
  assumes "valid_facts f" and "sf_mission_state f \<noteq> M_idle"
  shows "Q k \<Longrightarrow> k \<noteq> D_blocked \<Longrightarrow> decision_needs k f \<Longrightarrow> gate_out Q f (decide k f)"
  using decide_ok [OF assms, of k] by (simp add: gate_out_def mk_decision_def)

text \<open>What the gate has established when it takes each decision.\<close>

definition progress_guard :: "scheduler_facts \<Rightarrow> decision_kind \<Rightarrow> bool" where
  "progress_guard f k =
     (let success = sf_attempt_state f \<in> set successful_attempt_states in
      (k = D_complete_mission \<longrightarrow> sf_all_steps_completed f \<and> sf_step_id f = None \<and> sf_attempt_id f = None)
      \<and> (k = D_prepare_dispatch \<longrightarrow> \<not> sf_all_steps_completed f \<and> sf_step_state f = S_pending
            \<and> sf_attempt_state f = A_none \<and> sf_worker_ready f)
      \<and> (k = D_dispatch_prepared \<longrightarrow> \<not> sf_all_steps_completed f \<and> sf_attempt_state f = A_prepared \<and> sf_worker_ready f)
      \<and> (k = D_validate_reply \<longrightarrow> success \<and> sf_reply_state f = R_received)
      \<and> (k = D_record_handoff \<longrightarrow> success \<and> sf_reply_state f = R_validated \<and> sf_handoff_state f \<noteq> H_recorded)
      \<and> (k = D_activate_next \<longrightarrow> success \<and> sf_reply_state f = R_validated \<and> sf_handoff_state f = H_recorded
            \<and> sf_next_step_eligible f)
      \<and> (k = D_await_worker \<longrightarrow> sf_attempt_state f \<in> {A_submitted, A_running})
      \<and> k \<notin> {D_start_worker, D_idle, D_wait_human, D_wait_ambiguity})"

lemma gate_progress_out:
  assumes "valid_facts f" and "sf_mission_state f \<noteq> M_idle"
  shows "gate_out (progress_guard f) f (gate_progress f)"
  unfolding gate_progress_def Let_def
  by (intro gate_out_if gate_out_block [OF assms] gate_out_decide [OF assms];
      use valid_factsD(2,4) [OF assms] in
        \<open>auto simp: progress_guard_def decision_needs_def space_chars_def state_sets\<close>)


text \<open>
  The whole gate. Every decision that moves the Mission on is taken under the authority facts:
  lineage, ownership and the frozen snapshot are valid, the Mission is neither unconfirmed nor
  terminal, at most one attempt is active, and no permission is pending or refused.
\<close>

definition authority_ok :: "scheduler_facts \<Rightarrow> bool" where
  "authority_ok f \<longleftrightarrow>
     sf_lineage_state f = L_valid \<and> sf_ownership_state f = O_owned \<and> sf_snapshot_state f = N_valid
     \<and> sf_mission_state f \<in> {M_preparing, M_running} \<and> sf_active_attempt_count f \<le> 1"

definition unblocked :: "scheduler_facts \<Rightarrow> bool" where
  "unblocked f \<longleftrightarrow>
     sf_blocker f = None \<and> sf_permission_state f \<notin> {P_pending, P_denied, P_expired}
     \<and> sf_step_state f \<notin> {S_failed, S_blocked} \<and> sf_reply_state f \<noteq> R_invalid
     \<and> sf_attempt_state f \<notin> {A_failed, A_cancelled, A_interrupted, A_admitting, A_ambiguous}"

definition progress_kinds :: "decision_kind list" where
  "progress_kinds = [D_prepare_dispatch, D_dispatch_prepared, D_await_worker, D_validate_reply,
     D_record_handoff, D_activate_next, D_complete_mission]"

definition start_guard :: "scheduler_facts \<Rightarrow> bool" where
  "start_guard f \<longleftrightarrow> sf_blocker f = Some WORKER_START_REQUIRED_BLOCKER \<and> sf_step_state f = S_pending
     \<and> sf_attempt_state f = A_none \<and> sf_attempt_id f = None \<and> sf_active_attempt_count f = 0"

definition gate_spec :: "scheduler_facts \<Rightarrow> decision_kind \<Rightarrow> bool" where
  "gate_spec f k \<longleftrightarrow>
     (k \<in> set progress_kinds \<longrightarrow> authority_ok f \<and> unblocked f \<and> progress_guard f k)
     \<and> (k = D_start_worker \<longrightarrow> authority_ok f \<and> start_guard f)
     \<and> (k = D_wait_ambiguity \<longrightarrow> authority_ok f \<and> sf_attempt_state f \<in> {A_admitting, A_ambiguous})
     \<and> (k = D_wait_human \<longrightarrow> sf_mission_state f = M_pending_confirmation \<or> authority_ok f \<and> sf_permission_state f = P_pending)
     \<and> (k = D_idle \<longrightarrow> sf_mission_state f = M_idle
          \<or> sf_mission_state f \<in> set terminal_mission_states \<and> sf_active_attempt_count f = 0)"

lemma gate_spec_kinds:
  "gate_spec f D_blocked"
  "gate_spec f D_start_worker \<longleftrightarrow> authority_ok f \<and> start_guard f"
  "gate_spec f D_wait_ambiguity \<longleftrightarrow> authority_ok f \<and> sf_attempt_state f \<in> {A_admitting, A_ambiguous}"
  "gate_spec f D_wait_human \<longleftrightarrow> sf_mission_state f = M_pending_confirmation \<or> authority_ok f \<and> sf_permission_state f = P_pending"
  "gate_spec f D_idle \<longleftrightarrow> sf_mission_state f = M_idle
      \<or> sf_mission_state f \<in> set terminal_mission_states \<and> sf_active_attempt_count f = 0"
  by (simp_all add: gate_spec_def progress_kinds_def)

lemma gate_out_mono: "gate_out Q f m \<Longrightarrow> (\<And>k. Q k \<Longrightarrow> R k) \<Longrightarrow> gate_out R f m"
  by (auto simp: gate_out_def)

lemma progress_guard_gate_spec:
  "progress_guard f k \<Longrightarrow> authority_ok f \<Longrightarrow> unblocked f \<Longrightarrow> gate_spec f k"
  by (auto simp: gate_spec_def progress_guard_def)

text \<open>The facts under which the first section of the gate hands over to the second.\<close>

definition integrity_ok :: "scheduler_facts \<Rightarrow> bool" where
  "integrity_ok f \<longleftrightarrow>
     sf_mission_state f \<notin> {M_idle, M_pending_confirmation}
     \<and> sf_lineage_state f = L_valid \<and> sf_ownership_state f = O_owned \<and> sf_snapshot_state f = N_valid
     \<and> sf_active_attempt_count f \<le> 1
     \<and> (sf_mission_state f \<in> set terminal_mission_states \<longrightarrow> sf_active_attempt_count f = 0)"

lemma integrity_authority:
  "integrity_ok f \<Longrightarrow> sf_mission_state f \<notin> set terminal_mission_states \<Longrightarrow> authority_ok f"
  by (cases "sf_mission_state f") (auto simp: integrity_ok_def authority_ok_def terminal_mission_states_def)

lemma gate_blockers_out:
  assumes v: "valid_facts f" and i: "integrity_ok f"
  shows "gate_out (gate_spec f) f (gate_blockers f)"
proof -
  have n: "sf_mission_state f \<noteq> M_idle" using i by (simp add: integrity_ok_def)
  have auth: "sf_mission_state f \<notin> set terminal_mission_states \<longrightarrow> authority_ok f"
    using integrity_authority [OF i] by simp
  have tcount: "sf_mission_state f \<in> set terminal_mission_states \<longrightarrow> sf_active_attempt_count f = 0"
    using i by (simp add: integrity_ok_def)
  have ids: "sf_step_state f = S_pending \<longrightarrow> sf_step_id f \<noteq> None"
    "sf_attempt_state f \<in> {A_admitting, A_ambiguous} \<longrightarrow> sf_attempt_id f \<noteq> None"
    using valid_factsD(2,4) [OF v n] by auto
  have prog: "gate_out (gate_spec f) f (gate_progress f)" if "authority_ok f" "unblocked f"
    using gate_out_mono [OF gate_progress_out [OF v n]] progress_guard_gate_spec that by blast
  note out = gate_out_if gate_out_block [OF v n] gate_out_decide [OF v n] gate_out_blocker [OF v n] prog
  show ?thesis
    unfolding gate_blockers_def Let_def
    by (intro out; (simp add: gate_spec_kinds space_chars_def decision_needs_def start_guard_def auth tcount ids; fail)?)
       (use auth ids in \<open>auto simp: unblocked_def decision_needs_def start_guard_def gate_spec_kinds\<close>)
qed

lemma schedule_gate_out:
  assumes v: "valid_facts f"
  shows "gate_out (gate_spec f) f (schedule_gate f)"
proof (cases "sf_mission_state f = M_idle")
  case True
  with valid_facts_idleD [OF v] show ?thesis
    by (simp add: schedule_gate_def mk_decision_def decision_init_def idle_facts_clean_def gate_out_def
        gate_spec_def progress_kinds_def)
next
  case False
  note out = gate_out_if gate_out_block [OF v False] gate_out_decide [OF v False] gate_out_blocker [OF v False]
    gate_blockers_out [OF v]
  show ?thesis
    unfolding schedule_gate_def
    by (intro out; use False in
        \<open>simp add: gate_spec_kinds decision_needs_def space_chars_def integrity_ok_def\<close>)
qed


section \<open>Properties\<close>

text \<open>Facts of a Mission whose first step has a prepared attempt and a ready Worker.\<close>

definition example_facts :: scheduler_facts where
  "example_facts =
     \<lparr>sf_mission_id = Some (u ''mis_0123456789ab''), sf_mission_state = M_running,
      sf_step_id = Some (u ''step_1''), sf_step_state = S_active,
      sf_attempt_id = Some (u ''mat_0123456789ab''), sf_attempt_state = A_prepared,
      sf_reply_state = R_none, sf_handoff_state = H_none, sf_permission_state = P_none,
      sf_worker_ready = True, sf_next_step_eligible = False, sf_all_steps_completed = False,
      sf_snapshot_state = N_valid, sf_lineage_state = L_valid, sf_ownership_state = O_owned,
      sf_active_attempt_count = 1, sf_blocker = None\<rparr>"

lemma example_ids: "MISSION_ID (u ''mis_0123456789ab'')" "STEP_ID (u ''step_1'')" "ATTEMPT_ID (u ''mat_0123456789ab'')"
  by (simp_all add: MISSION_ID_def STEP_ID_def ATTEMPT_ID_def u_def is_hex_def is_digit_def)

lemma example_facts_valid: "valid_facts example_facts"
  by (simp add: valid_facts_def example_facts_def blocker_ok_def example_ids facts_consistent_def
      active_attempt_states_def)

lemma example_facts_init: "facts_init (dget (facts_summary example_facts)) = Inr example_facts"
  using facts_from_mapping_summary [OF example_facts_valid]
  by (simp add: facts_from_mapping_def facts_summary_fields)

lemma example_facts_gate:
  "schedule_gate example_facts =
     Inr \<lparr>sd_kind = D_dispatch_prepared, sd_mission_id = sf_mission_id example_facts,
          sd_step_id = sf_step_id example_facts, sd_attempt_id = sf_attempt_id example_facts, sd_blocker = None\<rparr>"
  by (simp add: schedule_gate_def gate_blockers_def gate_progress_def example_facts_def state_sets
      mk_decision_def decision_init_def example_ids)

text \<open>
  C1: the gate is total. On every fact snapshot the constructor accepts it returns a decision,
  the decision passes the decision class's own checks, and it names exactly the Mission, step and
  attempt of the facts.
\<close>

theorem schedule_gate_total:
  assumes "facts_init kw = Inr f"
  shows "\<exists>d. schedule_gate f = Inr d \<and> decision_init d = Inr d \<and> sd_mission_id d = sf_mission_id f
    \<and> sd_step_id d = sf_step_id f \<and> sd_attempt_id d = sf_attempt_id f
    \<and> (sd_kind d = D_blocked \<longleftrightarrow> sd_blocker d \<noteq> None)"
  using schedule_gate_out [OF facts_init_valid [OF assms]] by (auto simp: gate_out_def)

theorem schedule_gate_total_witness:
  "\<exists>d. schedule_gate example_facts = Inr d \<and> decision_init d = Inr d
    \<and> sd_mission_id d = sf_mission_id example_facts \<and> sd_step_id d = sf_step_id example_facts
    \<and> sd_attempt_id d = sf_attempt_id example_facts \<and> (sd_kind d = D_blocked \<longleftrightarrow> sd_blocker d \<noteq> None)"
  by (rule schedule_gate_total [OF example_facts_init])

text \<open>
  C2: a prepared attempt is dispatched only with full authority: valid lineage and ownership, a
  valid frozen snapshot, a confirmed Mission that is still going, this attempt as the only active
  one, a ready Worker, no blocker, and no permission pending, denied or expired.
\<close>

theorem dispatch_needs_authority:
  assumes "facts_init kw = Inr f" and "schedule_gate f = Inr d" and "sd_kind d = D_dispatch_prepared"
  shows "sf_lineage_state f = L_valid \<and> sf_ownership_state f = O_owned \<and> sf_snapshot_state f = N_valid
    \<and> sf_mission_state f \<in> {M_preparing, M_running} \<and> sf_attempt_state f = A_prepared
    \<and> sf_active_attempt_count f = 1 \<and> sf_worker_ready f \<and> sf_blocker f = None
    \<and> sf_permission_state f \<notin> {P_pending, P_denied, P_expired} \<and> sf_attempt_id f \<noteq> None"
proof -
  have v: "valid_facts f" by (rule facts_init_valid [OF assms(1)])
  have g: "gate_spec f D_dispatch_prepared"
    using schedule_gate_out [OF v] assms(2,3) by (auto simp: gate_out_def)
  then have a: "authority_ok f" "unblocked f" "sf_attempt_state f = A_prepared" "sf_worker_ready f"
    by (simp_all add: gate_spec_def progress_kinds_def progress_guard_def Let_def)
  then have n: "sf_mission_state f \<noteq> M_idle" by (auto simp: authority_ok_def)
  show ?thesis
    using a valid_factsD(4,5) [OF v n] by (auto simp: authority_ok_def unblocked_def active_attempt_states_def)
qed

theorem dispatch_needs_authority_witness:
  "sf_lineage_state example_facts = L_valid \<and> sf_ownership_state example_facts = O_owned
    \<and> sf_snapshot_state example_facts = N_valid
    \<and> sf_mission_state example_facts \<in> {M_preparing, M_running} \<and> sf_attempt_state example_facts = A_prepared
    \<and> sf_active_attempt_count example_facts = 1 \<and> sf_worker_ready example_facts \<and> sf_blocker example_facts = None
    \<and> sf_permission_state example_facts \<notin> {P_pending, P_denied, P_expired} \<and> sf_attempt_id example_facts \<noteq> None"
  by (rule dispatch_needs_authority [OF example_facts_init example_facts_gate]) simp

text \<open>
  C3: integrity and authority outrank everything else. For a Mission that is not idle, broken
  lineage, an ownership conflict, a drifted snapshot, a missing snapshot once confirmed, or two
  active attempts block it, whatever the other facts say.
\<close>

theorem integrity_outranks_progress:
  assumes "facts_init kw = Inr f" and "sf_mission_state f \<noteq> M_idle"
    and "sf_lineage_state f \<noteq> L_valid \<or> sf_ownership_state f \<noteq> O_owned \<or> sf_snapshot_state f = N_drift
      \<or> sf_mission_state f \<noteq> M_pending_confirmation \<and> (sf_snapshot_state f \<noteq> N_valid \<or> sf_active_attempt_count f > 1)"
  shows "\<exists>d. schedule_gate f = Inr d \<and> sd_kind d = D_blocked"
proof -
  note b = gate_out_block [OF facts_init_valid [OF assms(1)] assms(2), of "\<lambda>k. k = D_blocked"]
  have "gate_out (\<lambda>k. k = D_blocked) f (schedule_gate f)"
    unfolding schedule_gate_def
    by (intro gate_out_if b; use assms(2,3) in \<open>simp add: space_chars_def\<close>)
  then show ?thesis by (auto simp: gate_out_def)
qed

definition drifted_facts :: scheduler_facts where
  "drifted_facts = example_facts\<lparr>sf_snapshot_state := N_drift\<rparr>"

lemma drifted_facts_init: "facts_init (dget (facts_summary drifted_facts)) = Inr drifted_facts"
proof -
  have "valid_facts drifted_facts"
    by (simp add: valid_facts_def drifted_facts_def example_facts_def blocker_ok_def example_ids
        facts_consistent_def active_attempt_states_def)
  from facts_from_mapping_summary [OF this] show ?thesis
    by (simp add: facts_from_mapping_def facts_summary_fields)
qed

theorem integrity_outranks_progress_witness:
  "\<exists>d. schedule_gate drifted_facts = Inr d \<and> sd_kind d = D_blocked"
  by (rule integrity_outranks_progress [OF drifted_facts_init]) (simp_all add: drifted_facts_def example_facts_def)

text \<open>
  C4: the scheduler declares a Mission complete only when every step is complete, nothing is
  current (no step, no attempt, none active) and the authority facts hold.
\<close>

theorem completion_needs_closed_lineage:
  assumes "facts_init kw = Inr f" and "schedule_gate f = Inr d" and "sd_kind d = D_complete_mission"
  shows "sf_all_steps_completed f \<and> sf_step_id f = None \<and> sf_attempt_id f = None
    \<and> sf_attempt_state f = A_none \<and> sf_active_attempt_count f = 0
    \<and> sf_snapshot_state f = N_valid \<and> sf_lineage_state f = L_valid \<and> sf_ownership_state f = O_owned
    \<and> sf_mission_state f \<in> {M_preparing, M_running} \<and> sf_blocker f = None"
proof -
  have v: "valid_facts f" by (rule facts_init_valid [OF assms(1)])
  have g: "gate_spec f D_complete_mission"
    using schedule_gate_out [OF v] assms(2,3) by (auto simp: gate_out_def)
  then have a: "authority_ok f" "unblocked f" "sf_all_steps_completed f" "sf_step_id f = None" "sf_attempt_id f = None"
    by (simp_all add: gate_spec_def progress_kinds_def progress_guard_def Let_def)
  then have n: "sf_mission_state f \<noteq> M_idle" by (auto simp: authority_ok_def)
  have none: "sf_attempt_state f = A_none" using valid_factsD(4) [OF v n] a by auto
  then have "sf_active_attempt_count f \<noteq> 1" "0 \<le> sf_active_attempt_count f"
    using valid_factsD(6) [OF v n] v by (auto simp: active_attempt_states_def valid_facts_def)
  with a none show ?thesis by (auto simp: authority_ok_def unblocked_def)
qed

definition finished_facts :: scheduler_facts where
  "finished_facts = example_facts\<lparr>sf_step_id := None, sf_step_state := S_none, sf_attempt_id := None,
     sf_attempt_state := A_none, sf_active_attempt_count := 0, sf_all_steps_completed := True\<rparr>"

lemma finished_facts_init: "facts_init (dget (facts_summary finished_facts)) = Inr finished_facts"
proof -
  have "valid_facts finished_facts"
    by (simp add: valid_facts_def finished_facts_def example_facts_def blocker_ok_def example_ids
        facts_consistent_def active_attempt_states_def)
  from facts_from_mapping_summary [OF this] show ?thesis
    by (simp add: facts_from_mapping_def facts_summary_fields)
qed

theorem completion_needs_closed_lineage_witness:
  "(\<exists>d. schedule_gate finished_facts = Inr d \<and> sd_kind d = D_complete_mission)
   \<and> sf_all_steps_completed finished_facts \<and> sf_active_attempt_count finished_facts = 0"
proof -
  have g: "schedule_gate finished_facts =
     Inr \<lparr>sd_kind = D_complete_mission, sd_mission_id = Some (u ''mis_0123456789ab''),
          sd_step_id = None, sd_attempt_id = None, sd_blocker = None\<rparr>"
    by (simp add: schedule_gate_def gate_blockers_def gate_progress_def finished_facts_def example_facts_def
        state_sets mk_decision_def decision_init_def example_ids)
  with completion_needs_closed_lineage [OF finished_facts_init g] show ?thesis by simp
qed

text \<open>
  C10: facts survive their dictionary form. Whatever mapping the facts were read from, printing
  them with \<^verbatim>\<open>summary\<close> and reading them again gives the same facts.
\<close>

theorem facts_round_trip:
  assumes "facts_from_mapping v = Inr f"
  shows "facts_from_mapping (facts_summary f) = Inr f"
proof -
  have "facts_init (dget v) = Inr f"
    using assms by (simp add: facts_from_mapping_def split: if_splits)
  then show ?thesis by (rule facts_from_mapping_summary [OF facts_init_valid])
qed

theorem facts_round_trip_witness: "facts_from_mapping (facts_summary example_facts) = Inr example_facts"
proof -
  have "facts_from_mapping (facts_summary example_facts) = Inr example_facts"
    by (rule facts_from_mapping_summary [OF example_facts_valid])
  then show ?thesis by (rule facts_round_trip)
qed

text \<open>
  C11: the observation shown to clients is faithful to the gate: it exists for all accepted
  facts, lists blockers exactly when the gate blocks, and says \<open>running\<close> exactly for decisions
  that start, advance or complete the Mission, and never for a terminal one.
\<close>

theorem observation_faithful:
  assumes "facts_init kw = Inr f"
  shows "\<exists>d ob. schedule_gate f = Inr d \<and> scheduler_observation f = Inr ob
    \<and> (ob_blockers ob \<noteq> [] \<longleftrightarrow> ob_state ob = Ob_blocked) \<and> (ob_state ob = Ob_blocked \<longleftrightarrow> sd_kind d = D_blocked)
    \<and> (ob_state ob = Ob_running \<longleftrightarrow> sd_kind d \<in> insert D_start_worker (set progress_kinds))
    \<and> (ob_state ob = Ob_running \<longrightarrow> sf_mission_state f \<notin> set terminal_mission_states)"
proof -
  obtain d where d: "schedule_gate f = Inr d" and g: "gate_spec f (sd_kind d)"
    and b: "sd_kind d = D_blocked \<longleftrightarrow> sd_blocker d \<noteq> None"
    using schedule_gate_out [OF facts_init_valid [OF assms]] by (auto simp: gate_out_def)
  have t: "sf_mission_state f \<in> set terminal_mission_states \<Longrightarrow> sd_kind d \<in> {D_blocked, D_idle}"
    using g by (cases "sd_kind d") (auto simp: gate_spec_def authority_ok_def progress_kinds_def terminal_mission_states_def)
  show ?thesis
    using b t d
    by (cases "sd_kind d"; cases "sf_mission_state f \<in> set terminal_mission_states")
       (auto simp: scheduler_observation_def progress_kinds_def)
qed

theorem observation_faithful_witness:
  "\<exists>ob. scheduler_observation example_facts = Inr ob \<and> ob_state ob = Ob_running \<and> ob_blockers ob = []"
  using observation_faithful [OF example_facts_init] by (auto simp: example_facts_gate progress_kinds_def)

end
