(* ===== verification/Lease.thy ===== *)
theory Lease
  imports PyValue Complex_Main
begin

text \<open>
  \<^verbatim>\<open>src/agentdeck/daemon/lease.py\<close>: the controller lease of the project daemon, under which at
  most one client may mutate, and the validator that every lease transition passes before it is
  persisted.

  Times are instants in microseconds (UTC). A time stamp field holds a string: \<open>ISO t\<close> is the
  string \<^verbatim>\<open>isoformat\<close> gives for instant \<open>t\<close>, \<open>ISO_alt t s\<close> another string \<open>s\<close> that parses as
  that instant, \<open>NotISO v\<close> a value that does not parse as an aware time; two fields hold the same
  string exactly when these are equal. \<^verbatim>\<open>uuid4\<close> is the environment's choice, so the operations
  take the fresh identifiers as arguments; SHA-256 is a function argument: \<open>H\<close> on texts, and
  \<open>TH\<close> on the facts whose canonical JSON the takeover digest hashes. That a transition or audit
  event was made by this module's factories and not altered since (\<^verbatim>\<open>_factory_capability\<close>, the
  registry of authorised transitions) is one flag of the record.

  The lemmas show what a live lease check accepts, that everything the operations produce passes
  the validator, and that the validator alone is enough to fence superseded credentials off.
\<close>

section \<open>Errors, time stamps, durations\<close>

datatype lease_error = LeaseError string | AssertionError | Lease_TypeError string | Lease_ValueError string

datatype iso = ISO int | ISO_alt int pstr | NotISO pyval

definition parse_timestamp :: "string \<Rightarrow> iso \<Rightarrow> lease_error + int" where
  "parse_timestamp field v =
     (case v of
        ISO t \<Rightarrow> Inr t
      | ISO_alt t _ \<Rightarrow> Inr t
      | NotISO _ \<Rightarrow> Inl (LeaseError (''invalid controller lease '' @ field)))"

text \<open>The argument \<^verbatim>\<open>now\<close>: an aware time as its instant, or anything else.\<close>

definition now_utc :: "int option \<Rightarrow> lease_error + int" where
  "now_utc now = (case now of None \<Rightarrow> Inl (LeaseError ''time must be a timezone-aware datetime'') | Some t \<Rightarrow> Inr t)"

text \<open>The last instant a \<^verbatim>\<open>datetime\<close> can hold: 9999-12-31T23:59:59.999999.\<close>

definition max_instant :: int where
  "max_instant = 253402300799999999"

datatype pynum = NInt int | NFloat rat | NNonFinite | NOther

definition round_half_even :: "rat \<Rightarrow> int" where
  "round_half_even r =
     (let f = \<lfloor>r\<rfloor>; d = r - of_int f
      in if d < 1 / 2 then f else if d > 1 / 2 then f + 1 else if even f then f else f + 1)"

text \<open>
  \<^verbatim>\<open>_ttl\<close> followed by \<^verbatim>\<open>timedelta(seconds=ttl)\<close>: the duration in microseconds. An integer
  that no float can hold is refused as an \<^verbatim>\<open>OverflowError\<close> is.
\<close>

definition ttl_us :: "pynum \<Rightarrow> lease_error + int" where
  "ttl_us v =
     (let bad = Inl (LeaseError ''controller lease TTL must be a positive finite number'') in
      case v of
        NInt n \<Rightarrow> if n \<le> 0 \<or> n \<ge> 2 ^ 1024 - 2 ^ 970 then bad else Inr (n * 1000000)
      | NFloat r \<Rightarrow> if r \<le> 0 then bad else Inr (round_half_even (r * 1000000))
      | NNonFinite \<Rightarrow> bad
      | NOther \<Rightarrow> bad)"

definition assert_not_backward :: "int \<Rightarrow> int \<Rightarrow> lease_error + unit" where
  "assert_not_backward now baseline = rfail_if (now < baseline) (LeaseError ''backward time is not allowed'') (Inr ())"

section \<open>Identifiers\<close>

definition CLIENT_ID :: "pstr \<Rightarrow> bool" where
  "CLIENT_ID s \<longleftrightarrow> (case s of [] \<Rightarrow> False
     | c # cs \<Rightarrow> (is_alpha c \<or> is_digit c) \<and> length cs \<le> 127
         \<and> list_all (\<lambda>c. is_alpha c \<or> is_digit c \<or> c \<in> {46, 95, 58, 45}) cs)"

definition ACTIVE_LEASE_ID :: "pstr \<Rightarrow> bool" where
  "ACTIVE_LEASE_ID s \<longleftrightarrow> length s = 28 \<and> take 4 s = u ''lse_'' \<and> list_all is_hex (drop 4 s)"

definition TERMINAL_LEASE_ID :: "pstr \<Rightarrow> bool" where
  "TERMINAL_LEASE_ID s \<longleftrightarrow> length s = 28 \<and> take 4 s = u ''lst_'' \<and> list_all is_hex (drop 4 s)"

definition SHA256 :: "pstr \<Rightarrow> bool" where
  "SHA256 s \<longleftrightarrow> length s = 64 \<and> list_all is_hex s"

definition EVENT_HEX_ID :: "pstr \<Rightarrow> bool" where
  "EVENT_HEX_ID s \<longleftrightarrow> length s = 28 \<and> take 4 s = u ''evt_'' \<and> list_all is_hex (drop 4 s)"

definition client_id_check :: "pyval \<Rightarrow> lease_error + pstr" where
  "client_id_check v =
     (case v of
        PStr s \<Rightarrow> rfail_if (\<not> CLIENT_ID s) (LeaseError ''invalid client identity'') (Inr s)
      | _ \<Rightarrow> Inl (LeaseError ''invalid client identity''))"

section \<open>Leases, events, transitions\<close>

record observer_registration =
  ob_client_id :: pstr
  ob_registered_at :: iso
  ob_can_mutate :: bool

record controller_lease =
  cl_lease_id :: pstr
  cl_client_id :: pstr
  cl_issued_at :: iso
  cl_expires_at :: iso
  cl_last_renewed_at :: iso
  cl_generation :: int

record takeover_preview =
  tp_requester :: pstr
  tp_current_lease_id :: pstr
  tp_current_generation :: int
  tp_previewed_at :: iso
  tp_digest :: pstr

datatype lease_action = Grant | Renew | Expire | Release | Takeover

record audit_payload =
  ap_action :: lease_action
  ap_client_id :: pstr
  ap_generation :: int
  ap_lease_id :: pstr

record lease_audit_event =
  ev_event_id :: pstr
  ev_event_type :: string
  ev_created_at :: iso
  ev_payload :: audit_payload
  ev_capability :: bool

record lease_transition =
  lt_action :: lease_action
  lt_previous :: "controller_lease option"
  lt_current :: "controller_lease option"
  lt_audit_event :: lease_audit_event
  lt_capability :: bool

definition is_terminal_lease :: "controller_lease \<Rightarrow> bool" where
  "is_terminal_lease lease \<longleftrightarrow> TERMINAL_LEASE_ID (cl_lease_id lease)"

definition terminal_lease_id :: "(pstr \<Rightarrow> pstr) \<Rightarrow> controller_lease \<Rightarrow> pstr" where
  "terminal_lease_id H lease =
     u ''lst_'' @ take 24 (H (u ''controller-terminal:'' @ cl_lease_id lease @ u '':'' @ show_int (cl_generation lease)))"

text \<open>\<^verbatim>\<open>validate_controller_lease\<close> on the six fields, as read from a summary or held by a lease.\<close>

definition validate_lease_fields ::
    "pyval \<Rightarrow> pyval \<Rightarrow> iso \<Rightarrow> iso \<Rightarrow> iso \<Rightarrow> pyval \<Rightarrow> lease_error + controller_lease" where
  "validate_lease_fields lease_id client_id issued_at expires_at last_renewed_at generation =
     (case lease_id of
        PStr lid \<Rightarrow>
          rfail_if (\<not> ACTIVE_LEASE_ID lid \<and> \<not> TERMINAL_LEASE_ID lid) (LeaseError ''invalid controller lease lease_id'')
          (rbind (client_id_check client_id) (\<lambda>cid.
          (case generation of
             PInt gen \<Rightarrow>
               rfail_if (gen \<le> 0) (LeaseError ''invalid controller lease generation'')
               (rbind (parse_timestamp ''issued_at'' issued_at) (\<lambda>issued.
                rbind (parse_timestamp ''last_renewed_at'' last_renewed_at) (\<lambda>renewed.
                rbind (parse_timestamp ''expires_at'' expires_at) (\<lambda>expires.
                rfail_if (renewed < issued) (LeaseError ''invalid controller lease timestamp order'')
                (rfail_if (expires < issued) (LeaseError ''invalid controller lease timestamp order'')
                (rfail_if (expires < renewed) (LeaseError ''invalid controller lease timestamp order'')
                (Inr \<lparr>cl_lease_id = lid, cl_client_id = cid, cl_issued_at = issued_at,
                      cl_expires_at = expires_at, cl_last_renewed_at = last_renewed_at,
                      cl_generation = gen\<rparr>)))))))
           | _ \<Rightarrow> Inl (LeaseError ''invalid controller lease generation''))))
      | _ \<Rightarrow> Inl (LeaseError ''invalid controller lease lease_id''))"

definition validate_controller_lease :: "controller_lease \<Rightarrow> lease_error + controller_lease" where
  "validate_controller_lease l =
     validate_lease_fields (PStr (cl_lease_id l)) (PStr (cl_client_id l)) (cl_issued_at l) (cl_expires_at l)
       (cl_last_renewed_at l) (PInt (cl_generation l))"

text \<open>What the state file holds: nothing, a dictionary with exactly the six fields, or something else.\<close>

datatype persisted_lease =
    No_lease
  | Lease_fields pyval pyval iso iso iso pyval
  | Other_value

definition controller_lease_from_summary :: "persisted_lease \<Rightarrow> lease_error + controller_lease option" where
  "controller_lease_from_summary v =
     (case v of
        No_lease \<Rightarrow> Inr None
      | Lease_fields lid cid iss ex ren gen \<Rightarrow>
          rbind (validate_lease_fields lid cid iss ex ren gen) (\<lambda>l. Inr (Some l))
      | Other_value \<Rightarrow> Inl (LeaseError ''invalid persisted controller lease''))"

definition lease_summary :: "controller_lease \<Rightarrow> persisted_lease" where
  "lease_summary l = Lease_fields (PStr (cl_lease_id l)) (PStr (cl_client_id l)) (cl_issued_at l)
     (cl_expires_at l) (cl_last_renewed_at l) (PInt (cl_generation l))"

section \<open>Operations\<close>

fun event_name :: "lease_action \<Rightarrow> string" where
  "event_name Grant = ''controller_lease_granted''"
| "event_name Renew = ''controller_lease_renewed''"
| "event_name Expire = ''controller_lease_expired''"
| "event_name Release = ''controller_lease_released''"
| "event_name Takeover = ''controller_lease_taken_over''"

definition lease_event :: "(pstr \<Rightarrow> pstr) \<Rightarrow> pstr \<Rightarrow> lease_action \<Rightarrow> controller_lease \<Rightarrow> int \<Rightarrow> lease_audit_event" where
  "lease_event H fresh_event action lease now =
     \<lparr>ev_event_id = (if action = Expire
         then u ''evt_'' @ take 24 (H (u ''controller-expire:'' @ cl_lease_id lease @ u '':'' @ show_int (cl_generation lease)))
         else u ''evt_'' @ take 24 fresh_event),
      ev_event_type = event_name action, ev_created_at = ISO now,
      ev_payload = \<lparr>ap_action = action, ap_client_id = cl_client_id lease,
                    ap_generation = cl_generation lease, ap_lease_id = cl_lease_id lease\<rparr>,
      ev_capability = True\<rparr>"

definition mk_transition :: "lease_action \<Rightarrow> controller_lease option \<Rightarrow> controller_lease \<Rightarrow> lease_audit_event \<Rightarrow> lease_transition" where
  "mk_transition action previous current event =
     \<lparr>lt_action = action, lt_previous = previous, lt_current = Some current, lt_audit_event = event, lt_capability = True\<rparr>"

definition new_lease :: "pstr \<Rightarrow> pstr \<Rightarrow> int \<Rightarrow> int \<Rightarrow> int \<Rightarrow> lease_error + controller_lease" where
  "new_lease fresh client_id now ttl generation =
     rfail_if (now + ttl > max_instant) (LeaseError ''controller lease TTL is not representable'')
     (Inr \<lparr>cl_lease_id = u ''lse_'' @ take 24 fresh, cl_client_id = client_id, cl_issued_at = ISO now,
           cl_expires_at = ISO (now + ttl), cl_last_renewed_at = ISO now, cl_generation = generation\<rparr>)"

definition register_observer :: "pyval \<Rightarrow> int option \<Rightarrow> lease_error + observer_registration" where
  "register_observer client_id now =
     rbind (client_id_check client_id) (\<lambda>cid. rbind (now_utc now) (\<lambda>t.
       Inr \<lparr>ob_client_id = cid, ob_registered_at = ISO t, ob_can_mutate = False\<rparr>))"

definition grant_controller ::
    "(pstr \<Rightarrow> pstr) \<Rightarrow> pstr \<Rightarrow> pstr \<Rightarrow> pyval \<Rightarrow> int option \<Rightarrow> pynum \<Rightarrow> controller_lease option
      \<Rightarrow> lease_error + lease_transition" where
  "grant_controller H fresh fresh_event client_id now ttl_seconds previous =
     rbind (client_id_check client_id) (\<lambda>requester.
     rbind (now_utc now) (\<lambda>current_time.
     rbind (ttl_us ttl_seconds) (\<lambda>ttl.
     rbind (case previous of
              None \<Rightarrow> Inr 1
            | Some prev \<Rightarrow>
                rbind (validate_controller_lease prev) (\<lambda>_.
                rbind (parse_timestamp ''last_renewed_at'' (cl_last_renewed_at prev)) (\<lambda>last_time.
                rbind (assert_not_backward current_time last_time) (\<lambda>_.
                rbind (parse_timestamp ''expires_at'' (cl_expires_at prev)) (\<lambda>expires.
                rfail_if (current_time < expires) (LeaseError ''controller lease is already held'')
                (Inr (cl_generation prev + 1))))))) (\<lambda>generation.
     rbind (new_lease fresh requester current_time ttl generation) (\<lambda>lease.
     Inr (mk_transition Grant previous lease (lease_event H fresh_event Grant lease current_time)))))))"

definition validate_controller ::
    "controller_lease option \<Rightarrow> pyval \<Rightarrow> pyval \<Rightarrow> int option \<Rightarrow> lease_error + bool" where
  "validate_controller lease lease_id generation now =
     (case lease of
        None \<Rightarrow> Inl (LeaseError ''controller lease required'')
      | Some l \<Rightarrow>
          rbind (validate_controller_lease l) (\<lambda>_.
          rfail_if (is_terminal_lease l) (LeaseError ''controller lease expired'')
          (rbind (now_utc now) (\<lambda>current_time.
          rfail_if (\<not> (case (lease_id, generation) of
                        (PStr i, PInt g) \<Rightarrow> ACTIVE_LEASE_ID i \<and> cl_lease_id l = i \<and> cl_generation l = g
                      | _ \<Rightarrow> False)) (LeaseError ''stale controller lease'')
          (rbind (parse_timestamp ''last_renewed_at'' (cl_last_renewed_at l)) (\<lambda>renewed.
          rbind (assert_not_backward current_time renewed) (\<lambda>_.
          rbind (parse_timestamp ''expires_at'' (cl_expires_at l)) (\<lambda>expires.
          rfail_if (current_time \<ge> expires) (LeaseError ''controller lease expired'') (Inr True)))))))))"

definition renew_controller ::
    "(pstr \<Rightarrow> pstr) \<Rightarrow> pstr \<Rightarrow> controller_lease \<Rightarrow> pyval \<Rightarrow> pyval \<Rightarrow> int option \<Rightarrow> pynum \<Rightarrow> lease_error + lease_transition" where
  "renew_controller H fresh_event current lease_id generation now ttl_seconds =
     rbind (now_utc now) (\<lambda>current_time.
     rbind (validate_controller (Some current) lease_id generation (Some current_time)) (\<lambda>_.
     rbind (ttl_us ttl_seconds) (\<lambda>ttl.
     rfail_if (current_time + ttl > max_instant) (LeaseError ''controller lease TTL is not representable'')
     (let renewed = current\<lparr>cl_last_renewed_at := ISO current_time, cl_expires_at := ISO (current_time + ttl)\<rparr>
      in Inr (mk_transition Renew (Some current) renewed (lease_event H fresh_event Renew renewed current_time))))))"

definition expire_controller ::
    "(pstr \<Rightarrow> pstr) \<Rightarrow> pstr \<Rightarrow> controller_lease \<Rightarrow> int option \<Rightarrow> lease_error + lease_transition" where
  "expire_controller H fresh_event current now =
     rbind (validate_controller_lease current) (\<lambda>_.
     rfail_if (is_terminal_lease current) (LeaseError ''terminal controller lease cannot expire again'')
     (rbind (now_utc now) (\<lambda>current_time.
     rbind (parse_timestamp ''last_renewed_at'' (cl_last_renewed_at current)) (\<lambda>renewed.
     rbind (assert_not_backward current_time renewed) (\<lambda>_.
     rbind (parse_timestamp ''expires_at'' (cl_expires_at current)) (\<lambda>expires.
     rfail_if (current_time < expires) (LeaseError ''controller lease has not expired'')
     (let terminal = current\<lparr>cl_lease_id := terminal_lease_id H current\<rparr>
      in Inr (mk_transition Expire (Some current) terminal (lease_event H fresh_event Expire current current_time)))))))))"

definition release_controller ::
    "(pstr \<Rightarrow> pstr) \<Rightarrow> pstr \<Rightarrow> controller_lease \<Rightarrow> pyval \<Rightarrow> pyval \<Rightarrow> int option \<Rightarrow> lease_error + lease_transition" where
  "release_controller H fresh_event current lease_id generation now =
     rbind (now_utc now) (\<lambda>current_time.
     rbind (validate_controller (Some current) lease_id generation (Some current_time)) (\<lambda>_.
     (let released = current\<lparr>cl_expires_at := ISO current_time\<rparr>
      in Inr (mk_transition Release (Some current) released (lease_event H fresh_event Release released current_time)))))"

definition preview_takeover ::
    "(controller_lease \<Rightarrow> pstr \<Rightarrow> iso \<Rightarrow> pstr) \<Rightarrow> controller_lease \<Rightarrow> pyval \<Rightarrow> int option \<Rightarrow> lease_error + takeover_preview" where
  "preview_takeover TH current requester now =
     rbind (validate_controller_lease current) (\<lambda>_.
     rfail_if (is_terminal_lease current) (LeaseError ''terminal controller lease cannot be taken over'')
     (rbind (client_id_check requester) (\<lambda>requester_id.
     rbind (now_utc now) (\<lambda>current_time.
     rbind (parse_timestamp ''last_renewed_at'' (cl_last_renewed_at current)) (\<lambda>renewed.
     rbind (assert_not_backward current_time renewed) (\<lambda>_.
     rfail_if (requester_id = cl_client_id current) (LeaseError ''takeover requester already controls the lease'')
     (Inr \<lparr>tp_requester = requester_id, tp_current_lease_id = cl_lease_id current,
           tp_current_generation = cl_generation current, tp_previewed_at = ISO current_time,
           tp_digest = TH current requester_id (ISO current_time)\<rparr>)))))))"

definition confirm_takeover ::
    "(pstr \<Rightarrow> pstr) \<Rightarrow> (controller_lease \<Rightarrow> pstr \<Rightarrow> iso \<Rightarrow> pstr) \<Rightarrow> pstr \<Rightarrow> pstr \<Rightarrow> controller_lease \<Rightarrow> takeover_preview
      \<Rightarrow> pyval \<Rightarrow> int option \<Rightarrow> pynum \<Rightarrow> lease_error + lease_transition" where
  "confirm_takeover H TH fresh fresh_event current confirmation requester now ttl_seconds =
     rbind (validate_controller_lease current) (\<lambda>_.
     rbind (client_id_check requester) (\<lambda>requester_id.
     rbind (now_utc now) (\<lambda>current_time.
     rbind (parse_timestamp ''last_renewed_at'' (cl_last_renewed_at current)) (\<lambda>renewed.
     rbind (assert_not_backward current_time renewed) (\<lambda>_.
     rfail_if (\<not> (case parse_timestamp ''takeover preview time'' (tp_previewed_at confirmation) of
                    Inl _ \<Rightarrow> False
                  | Inr preview_time \<Rightarrow>
                      tp_requester confirmation = requester_id
                      \<and> tp_current_lease_id confirmation = cl_lease_id current
                      \<and> tp_current_generation confirmation = cl_generation current
                      \<and> SHA256 (tp_digest confirmation)
                      \<and> TH current requester_id (tp_previewed_at confirmation) = tp_digest confirmation
                      \<and> preview_time \<ge> renewed \<and> preview_time \<le> current_time
                      \<and> requester_id \<noteq> cl_client_id current)) (LeaseError ''takeover confirmation mismatch'')
     (rbind (ttl_us ttl_seconds) (\<lambda>ttl.
     rbind (new_lease fresh requester_id current_time ttl (cl_generation current + 1)) (\<lambda>taken.
     Inr (mk_transition Takeover (Some current) taken (lease_event H fresh_event Takeover taken current_time))))))))))"

definition controller_lease_is_active :: "persisted_lease \<Rightarrow> int option \<Rightarrow> bool" where
  "controller_lease_is_active v now =
     (case controller_lease_from_summary v of
        Inl _ \<Rightarrow> False
      | Inr None \<Rightarrow> False
      | Inr (Some l) \<Rightarrow>
          if is_terminal_lease l then False
          else (case validate_controller (Some l) (PStr (cl_lease_id l)) (PInt (cl_generation l)) now of
                  Inl _ \<Rightarrow> False | Inr b \<Rightarrow> b))"

section \<open>The transition validator\<close>

text \<open>The edge conditions, with the instants of the stamps already parsed.\<close>

definition valid_edge ::
    "(pstr \<Rightarrow> pstr) \<Rightarrow> lease_action \<Rightarrow> controller_lease option \<Rightarrow> controller_lease \<Rightarrow> iso \<Rightarrow> int \<Rightarrow> bool" where
  "valid_edge H action previous current created_at event_time =
     (let instant = (\<lambda>s. case parse_timestamp [] s of Inl _ \<Rightarrow> 0 | Inr t \<Rightarrow> t) in
      case previous of
        None \<Rightarrow>
          action = Grant \<and> cl_generation current = 1 \<and> cl_issued_at current = created_at
          \<and> cl_last_renewed_at current = created_at \<and> instant (cl_expires_at current) > event_time
      | Some prev \<Rightarrow>
          (case action of
             Renew \<Rightarrow>
               cl_lease_id current = cl_lease_id prev \<and> cl_client_id current = cl_client_id prev
               \<and> cl_generation current = cl_generation prev \<and> cl_issued_at current = cl_issued_at prev
               \<and> cl_last_renewed_at current = created_at
               \<and> event_time \<ge> instant (cl_last_renewed_at prev) \<and> event_time < instant (cl_expires_at prev)
               \<and> instant (cl_expires_at current) > event_time
           | Expire \<Rightarrow>
               \<not> is_terminal_lease prev \<and> current = prev\<lparr>cl_lease_id := terminal_lease_id H prev\<rparr>
               \<and> event_time \<ge> instant (cl_expires_at prev)
           | Release \<Rightarrow>
               cl_lease_id current = cl_lease_id prev \<and> cl_client_id current = cl_client_id prev
               \<and> cl_generation current = cl_generation prev \<and> cl_issued_at current = cl_issued_at prev
               \<and> cl_last_renewed_at current = cl_last_renewed_at prev \<and> cl_expires_at current = created_at
               \<and> event_time \<ge> instant (cl_last_renewed_at prev) \<and> event_time < instant (cl_expires_at prev)
           | _ \<Rightarrow>
               cl_generation current = cl_generation prev + 1 \<and> cl_lease_id current \<noteq> cl_lease_id prev
               \<and> cl_issued_at current = created_at \<and> cl_last_renewed_at current = created_at
               \<and> instant (cl_expires_at current) > event_time
               \<and> event_time \<ge> instant (cl_last_renewed_at prev)
               \<and> (action = Takeover \<or> event_time \<ge> instant (cl_expires_at prev))))"

definition validate_lease_transition ::
    "(pstr \<Rightarrow> pstr) \<Rightarrow> persisted_lease \<Rightarrow> lease_transition \<Rightarrow> lease_error + lease_transition" where
  "validate_lease_transition H persisted t =
     (let invalid = LeaseError ''invalid controller lease transition'';
          bad_event = LeaseError ''invalid controller lease audit event'';
          event = lt_audit_event t in
      rfail_if (\<not> lt_capability t) invalid
      (rbind (controller_lease_from_summary persisted) (\<lambda>previous.
      rfail_if (lt_previous t \<noteq> previous) (LeaseError ''stale controller lease'')
      (case lt_current t of
         None \<Rightarrow> Inl invalid
       | Some cur \<Rightarrow>
           rbind (validate_controller_lease cur) (\<lambda>current.
           rfail_if (\<not> ev_capability event) bad_event
           (rbind (parse_timestamp ''audit time'' (ev_created_at event)) (\<lambda>event_time.
           rfail_if (ev_event_type event \<noteq> event_name (lt_action t) \<or> \<not> EVENT_HEX_ID (ev_event_id event)) bad_event
           (case (if lt_action t = Expire then previous else Some current) of
              None \<Rightarrow> Inl AssertionError
            | Some audit_lease \<Rightarrow>
                rfail_if (ev_payload event \<noteq>
                    \<lparr>ap_action = lt_action t, ap_client_id = cl_client_id audit_lease,
                     ap_generation = cl_generation audit_lease, ap_lease_id = cl_lease_id audit_lease\<rparr>) bad_event
                (rfail_if (\<not> valid_edge H (lt_action t) previous current (ev_created_at event) event_time) invalid
                (Inr t))))))))))"

section \<open>What the checks accept\<close>

fun instant_of :: "iso \<Rightarrow> int option" where
  "instant_of (ISO t) = Some t"
| "instant_of (ISO_alt t _) = Some t"
| "instant_of (NotISO _) = None"

lemma parse_timestamp_eq_Inr [simp]: "parse_timestamp f v = Inr t \<longleftrightarrow> instant_of v = Some t"
  by (cases v) (auto simp: parse_timestamp_def)

lemma parse_timestamp_ISO [simp]: "parse_timestamp f (ISO t) = Inr t"
  by simp

text \<open>A lease that \<^verbatim>\<open>validate_controller_lease\<close> lets through.\<close>

definition lease_wf :: "controller_lease \<Rightarrow> bool" where
  "lease_wf l \<longleftrightarrow>
     (ACTIVE_LEASE_ID (cl_lease_id l) \<or> TERMINAL_LEASE_ID (cl_lease_id l)) \<and> CLIENT_ID (cl_client_id l)
     \<and> cl_generation l > 0
     \<and> (case (instant_of (cl_issued_at l), instant_of (cl_last_renewed_at l), instant_of (cl_expires_at l)) of
          (Some i, Some r, Some e) \<Rightarrow> i \<le> r \<and> r \<le> e
        | _ \<Rightarrow> False)"

lemma lease_wf_instants:
  assumes "lease_wf l"
  obtains i r e where "instant_of (cl_issued_at l) = Some i" "instant_of (cl_last_renewed_at l) = Some r"
    "instant_of (cl_expires_at l) = Some e" "i \<le> r" "r \<le> e"
  using assms by (auto simp: lease_wf_def split: option.splits)

lemma client_id_check_eq_Inr [simp]: "client_id_check v = Inr s \<longleftrightarrow> v = PStr s \<and> CLIENT_ID s"
  by (auto simp: client_id_check_def res_simps split: pyval.splits)

lemma validate_lease_fields_eq_Inr:
  "validate_lease_fields lid cid iss ex ren gen = Inr l \<longleftrightarrow>
     lid = PStr (cl_lease_id l) \<and> cid = PStr (cl_client_id l) \<and> iss = cl_issued_at l \<and> ex = cl_expires_at l
     \<and> ren = cl_last_renewed_at l \<and> gen = PInt (cl_generation l) \<and> lease_wf l"
  by (cases l; cases lid; cases cid; cases gen; cases "instant_of iss"; cases "instant_of ren"; cases "instant_of ex")
     (auto simp: validate_lease_fields_def lease_wf_def res_simps)

lemma validate_controller_lease_eq_Inr [simp]:
  "validate_controller_lease l = Inr l' \<longleftrightarrow> l' = l \<and> lease_wf l"
  by (cases l; cases l') (auto simp: validate_controller_lease_def validate_lease_fields_eq_Inr)

lemma lease_summary_fields:
  "controller_lease_from_summary p = Inr (Some l) \<longleftrightarrow> p = lease_summary l \<and> lease_wf l"
  by (cases p) (auto simp: controller_lease_from_summary_def lease_summary_def res_simps validate_lease_fields_eq_Inr)

lemma summary_round_trip [simp]:
  "lease_wf l \<Longrightarrow> controller_lease_from_summary (lease_summary l) = Inr (Some l)"
  by (simp add: lease_summary_fields)

lemma no_lease_from_summary [simp]:
  "controller_lease_from_summary p = Inr None \<longleftrightarrow> p = No_lease"
  by (cases p) (auto simp: controller_lease_from_summary_def res_simps)

lemma active_not_terminal: "ACTIVE_LEASE_ID s \<Longrightarrow> \<not> TERMINAL_LEASE_ID s"
  by (simp add: ACTIVE_LEASE_ID_def TERMINAL_LEASE_ID_def u_def)

lemma not_terminal_active: "lease_wf l \<Longrightarrow> \<not> is_terminal_lease l \<longleftrightarrow> ACTIVE_LEASE_ID (cl_lease_id l)"
  using active_not_terminal by (auto simp: lease_wf_def is_terminal_lease_def)

definition live_at :: "controller_lease \<Rightarrow> int \<Rightarrow> bool" where
  "live_at l t \<longleftrightarrow> (case (instant_of (cl_last_renewed_at l), instant_of (cl_expires_at l)) of
     (Some r, Some e) \<Rightarrow> r \<le> t \<and> t < e | _ \<Rightarrow> False)"

lemma validate_controller_eq_Inr:
  "validate_controller lease lid gen now = Inr b \<longleftrightarrow>
     b \<and> (\<exists>l t. lease = Some l \<and> now = Some t \<and> lease_wf l \<and> ACTIVE_LEASE_ID (cl_lease_id l)
            \<and> lid = PStr (cl_lease_id l) \<and> gen = PInt (cl_generation l) \<and> live_at l t)"
  by (cases lease; cases now)
     (auto simp: validate_controller_def res_simps now_utc_def assert_not_backward_def live_at_def
        is_terminal_lease_def active_not_terminal split: pyval.splits option.splits elim: lease_wf_instants)

lemma controller_lease_is_active_iff:
  "controller_lease_is_active p now \<longleftrightarrow>
     (\<exists>l t. p = lease_summary l \<and> now = Some t \<and> lease_wf l \<and> ACTIVE_LEASE_ID (cl_lease_id l) \<and> live_at l t)"
proof (cases "controller_lease_from_summary p")
  case (Inl e)
  then have "\<not> (\<exists>l. p = lease_summary l \<and> lease_wf l)"
    using lease_summary_fields by force
  then show ?thesis using Inl by (auto simp: controller_lease_is_active_def)
next
  case (Inr o')
  show ?thesis
  proof (cases o')
    case None
    then have "p = No_lease" using Inr by simp
    then show ?thesis
      by (simp add: controller_lease_is_active_def controller_lease_from_summary_def lease_summary_def)
  next
    case (Some l)
    then have p: "p = lease_summary l" "lease_wf l" using Inr lease_summary_fields by auto
    have "lease_summary l = lease_summary l' \<longleftrightarrow> l = l'" for l' by (cases l; cases l') (auto simp: lease_summary_def)
    moreover have "(case validate_controller (Some l) (PStr (cl_lease_id l)) (PInt (cl_generation l)) now of
                 Inl _ \<Rightarrow> False | Inr b \<Rightarrow> b) \<longleftrightarrow>
      validate_controller (Some l) (PStr (cl_lease_id l)) (PInt (cl_generation l)) now = Inr True"
      by (auto split: sum.splits)
    ultimately show ?thesis using p Inr Some
      by (auto simp: controller_lease_is_active_def validate_controller_eq_Inr is_terminal_lease_def active_not_terminal)
  qed
qed

section \<open>The transition validator\<close>

lemma instant_simp [simp]:
  "instant_of s = Some t \<Longrightarrow> (case parse_timestamp f s of Inl _ \<Rightarrow> 0 | Inr t \<Rightarrow> t) = t"
  by (cases s) (auto simp: parse_timestamp_def)

definition audited_lease :: "lease_transition \<Rightarrow> controller_lease option" where
  "audited_lease t = (if lt_action t = Expire then lt_previous t else lt_current t)"

lemma validate_lease_transition_eq_Inr:
  "validate_lease_transition H p t = Inr t' \<longleftrightarrow>
     t' = t \<and> lt_capability t \<and> ev_capability (lt_audit_event t)
     \<and> controller_lease_from_summary p = Inr (lt_previous t)
     \<and> (\<exists>cur audited time. lt_current t = Some cur \<and> lease_wf cur \<and> audited_lease t = Some audited
          \<and> instant_of (ev_created_at (lt_audit_event t)) = Some time
          \<and> ev_event_type (lt_audit_event t) = event_name (lt_action t)
          \<and> EVENT_HEX_ID (ev_event_id (lt_audit_event t))
          \<and> ev_payload (lt_audit_event t) = \<lparr>ap_action = lt_action t, ap_client_id = cl_client_id audited,
               ap_generation = cl_generation audited, ap_lease_id = cl_lease_id audited\<rparr>
          \<and> valid_edge H (lt_action t) (lt_previous t) cur (ev_created_at (lt_audit_event t)) time)"
  by (auto simp: validate_lease_transition_def Let_def res_simps audited_lease_def split: option.splits)

text \<open>
  What the environment supplies: SHA-256 digests are 64 hexadecimal digits, \<^verbatim>\<open>uuid4().hex\<close> is
  32 of them, and a fresh lease identifier differs from the one it replaces.
\<close>

definition uuid_hex :: "pstr \<Rightarrow> bool" where
  "uuid_hex s \<longleftrightarrow> length s = 32 \<and> list_all is_hex s"

definition fresh_for :: "pstr \<Rightarrow> controller_lease option \<Rightarrow> bool" where
  "fresh_for fresh prev \<longleftrightarrow> uuid_hex fresh \<and> (\<forall>l. prev = Some l \<longrightarrow> cl_lease_id l \<noteq> u ''lse_'' @ take 24 fresh)"

inductive lease_factory ::
    "(pstr \<Rightarrow> pstr) \<Rightarrow> (controller_lease \<Rightarrow> pstr \<Rightarrow> iso \<Rightarrow> pstr) \<Rightarrow> controller_lease option \<Rightarrow> lease_transition \<Rightarrow> bool"
  for H TH where
  grant: "grant_controller H fresh fe cid now ttl prev = Inr t \<Longrightarrow> fresh_for fresh prev \<Longrightarrow> uuid_hex fe
            \<Longrightarrow> lease_factory H TH prev t"
| renew: "renew_controller H fe cur lid gen now ttl = Inr t \<Longrightarrow> uuid_hex fe \<Longrightarrow> lease_factory H TH (Some cur) t"
| expire: "expire_controller H fe cur now = Inr t \<Longrightarrow> uuid_hex fe \<Longrightarrow> lease_factory H TH (Some cur) t"
| release: "release_controller H fe cur lid gen now = Inr t \<Longrightarrow> uuid_hex fe \<Longrightarrow> lease_factory H TH (Some cur) t"
| takeover: "confirm_takeover H TH fresh fe cur confirmation requester now ttl = Inr t
            \<Longrightarrow> fresh_for fresh (Some cur) \<Longrightarrow> uuid_hex fe \<Longrightarrow> lease_factory H TH (Some cur) t"

lemma hex_ids:
  "uuid_hex s \<Longrightarrow> ACTIVE_LEASE_ID (u ''lse_'' @ take 24 s)"
  "uuid_hex s \<Longrightarrow> EVENT_HEX_ID (u ''evt_'' @ take 24 s)"
  "SHA256 s \<Longrightarrow> EVENT_HEX_ID (u ''evt_'' @ take 24 s)"
  "SHA256 s \<Longrightarrow> TERMINAL_LEASE_ID (u ''lst_'' @ take 24 s)"
  by (auto simp: ACTIVE_LEASE_ID_def TERMINAL_LEASE_ID_def EVENT_HEX_ID_def uuid_hex_def SHA256_def list_all_iff
      u_def dest: in_set_takeD)

text \<open>A duration below half a microsecond makes the new lease end when it begins.\<close>

definition zero_ttl :: "lease_transition \<Rightarrow> bool" where
  "zero_ttl t \<longleftrightarrow> lt_action t \<in> {Grant, Renew, Takeover}
     \<and> (\<exists>cur. lt_current t = Some cur \<and> cl_expires_at cur = ev_created_at (lt_audit_event t))"

lemma round_half_even_nonneg: "r > 0 \<Longrightarrow> round_half_even r \<ge> 0"
  by (auto simp: round_half_even_def Let_def)

lemma ttl_us_nonneg: "ttl_us v = Inr n \<Longrightarrow> n \<ge> 0"
  by (cases v) (auto simp: ttl_us_def Let_def round_half_even_nonneg split: if_splits)

lemmas factory_simps = res_simps now_utc_def new_lease_def mk_transition_def lease_event_def audited_lease_def
  assert_not_backward_def validate_controller_eq_Inr

lemma new_lease_wf:
  "new_lease fresh cid now ttl gen = Inr l \<Longrightarrow> uuid_hex fresh \<Longrightarrow> CLIENT_ID cid \<Longrightarrow> gen > 0 \<Longrightarrow> ttl \<ge> 0 \<Longrightarrow> lease_wf l"
  by (auto simp: new_lease_def res_simps lease_wf_def hex_ids)

lemma new_lease_transition_validates:
  assumes l: "new_lease fresh cid now ttl gen = Inr l" "fresh_for fresh prev" "CLIENT_ID cid" "ttl > 0"
    and e: "uuid_hex fe" "controller_lease_from_summary p = Inr prev"
    and none: "prev = None \<Longrightarrow> a = Grant \<and> gen = 1"
    and some: "\<And>q. prev = Some q \<Longrightarrow> gen = cl_generation q + 1 \<and> the (instant_of (cl_last_renewed_at q)) \<le> now
                 \<and> (a = Takeover \<or> a = Grant \<and> the (instant_of (cl_expires_at q)) \<le> now)"
  shows "validate_lease_transition H p (mk_transition a prev l (lease_event H fe a l now)) = Inr (mk_transition a prev l (lease_event H fe a l now))"
proof -
  have gen: "gen > 0"
  proof (cases prev)
    case None then show ?thesis using none by simp
  next
    case (Some q) then show ?thesis using some[of q] e lease_summary_fields[of p q] by (simp add: lease_wf_def)
  qed
  have wf: "lease_wf l" using new_lease_wf[OF l(1)] l gen by (simp add: fresh_for_def)
  have ids: "EVENT_HEX_ID (u ''evt_'' @ take 24 fe)" using e by (simp add: hex_ids)
  have a: "a = Grant \<or> a = Takeover" using none some by (cases prev) auto
  have edge: "valid_edge H a prev l (ISO now) now"
  proof (cases prev)
    case None
    then show ?thesis using l none by (auto simp: valid_edge_def new_lease_def res_simps)
  next
    case (Some q)
    then have "lease_wf q" using e lease_summary_fields by simp
    then obtain r ex where q: "instant_of (cl_last_renewed_at q) = Some r" "instant_of (cl_expires_at q) = Some ex"
      by (metis lease_wf_instants)
    show ?thesis using Some l(1,2,4) a some[OF Some] q
      by (elim disjE) (auto simp: valid_edge_def new_lease_def res_simps fresh_for_def)
  qed
  show ?thesis using wf ids edge a e
    by (auto simp: validate_lease_transition_eq_Inr mk_transition_def lease_event_def audited_lease_def)
qed

lemma zero_ttl_new:
  "new_lease fresh cid now ttl gen = Inr l \<Longrightarrow> \<not> zero_ttl (mk_transition a prev l (lease_event H fe a l now))
     \<Longrightarrow> a \<in> {Grant, Renew, Takeover} \<Longrightarrow> ttl \<ge> 0 \<Longrightarrow> ttl > 0"
  by (auto simp: zero_ttl_def mk_transition_def lease_event_def new_lease_def res_simps)

lemma grant_validates:
  assumes g: "grant_controller H fresh fe cid now ttl prev = Inr t" and f: "fresh_for fresh prev" "uuid_hex fe"
    and p: "controller_lease_from_summary p = Inr prev" and z: "\<not> zero_ttl t"
  shows "validate_lease_transition H p t = Inr t"
proof -
  obtain c n d gen l where g': "CLIENT_ID c" "ttl_us ttl = Inr d" "new_lease fresh c n d gen = Inr l"
    "t = mk_transition Grant prev l (lease_event H fe Grant l n)"
    and gen: "(case prev of None \<Rightarrow> gen = 1 | Some q \<Rightarrow> gen = cl_generation q + 1
      \<and> the (instant_of (cl_last_renewed_at q)) \<le> n \<and> the (instant_of (cl_expires_at q)) \<le> n)"
    using g by (cases prev) (auto simp: grant_controller_def res_simps assert_not_backward_def not_less)
  show ?thesis unfolding g'(4)
    by (rule new_lease_transition_validates [OF g'(3) f(1) g'(1) _ f(2) p])
       (use z g' gen zero_ttl_new[OF g'(3)] ttl_us_nonneg[OF g'(2)] in \<open>auto split: option.splits\<close>)
qed

lemma takeover_validates:
  assumes g: "confirm_takeover H TH fresh fe cur conf req now ttl = Inr t" and f: "fresh_for fresh (Some cur)" "uuid_hex fe"
    and p: "controller_lease_from_summary p = Inr (Some cur)" and z: "\<not> zero_ttl t"
  shows "validate_lease_transition H p t = Inr t"
proof -
  obtain c n d l where g': "CLIENT_ID c" "ttl_us ttl = Inr d" "new_lease fresh c n d (cl_generation cur + 1) = Inr l"
    "t = mk_transition Takeover (Some cur) l (lease_event H fe Takeover l n)"
    and r: "the (instant_of (cl_last_renewed_at cur)) \<le> n"
    using g by (auto simp: confirm_takeover_def res_simps assert_not_backward_def not_less)
  show ?thesis unfolding g'(4)
    by (rule new_lease_transition_validates [OF g'(3) f(1) g'(1) _ f(2) p])
       (use z g' r zero_ttl_new[OF g'(3)] ttl_us_nonneg[OF g'(2)] in auto)
qed

lemma live_at_instants:
  "live_at l t \<longleftrightarrow> (\<exists>r e. instant_of (cl_last_renewed_at l) = Some r \<and> instant_of (cl_expires_at l) = Some e \<and> r \<le> t \<and> t < e)"
  by (auto simp: live_at_def split: option.splits)

lemma renew_validates:
  assumes g: "renew_controller H fe cur lid gen now ttl = Inr t" and f: "uuid_hex fe"
    and p: "controller_lease_from_summary p = Inr (Some cur)" and z: "\<not> zero_ttl t"
  shows "validate_lease_transition H p t = Inr t"
proof -
  obtain n d where n: "live_at cur n" "ttl_us ttl = Inr d" "lease_wf cur" and t: "t = mk_transition Renew (Some cur)
       (cur\<lparr>cl_last_renewed_at := ISO n, cl_expires_at := ISO (n + d)\<rparr>)
       (lease_event H fe Renew (cur\<lparr>cl_last_renewed_at := ISO n, cl_expires_at := ISO (n + d)\<rparr>) n)"
    using g by (auto simp: renew_controller_def res_simps validate_controller_eq_Inr Let_def)
  have d: "d > 0" using z t ttl_us_nonneg[OF n(2)] by (auto simp: zero_ttl_def mk_transition_def lease_event_def)
  have wf: "lease_wf (cur\<lparr>cl_last_renewed_at := ISO n, cl_expires_at := ISO (n + d)\<rparr>)"
    using n d by (auto simp: lease_wf_def live_at_instants split: option.splits)
  have "valid_edge H Renew (Some cur) (cur\<lparr>cl_last_renewed_at := ISO n, cl_expires_at := ISO (n + d)\<rparr>) (ISO n) n"
    using n d by (auto simp: valid_edge_def live_at_instants)
  then show ?thesis using wf p f t
    by (auto simp: validate_lease_transition_eq_Inr mk_transition_def lease_event_def audited_lease_def hex_ids)
qed

lemma expire_validates:
  assumes g: "expire_controller H fe cur now = Inr t" and H: "\<And>s. SHA256 (H s)"
    and p: "controller_lease_from_summary p = Inr (Some cur)"
  shows "validate_lease_transition H p t = Inr t"
proof -
  obtain n e where n: "lease_wf cur" "\<not> is_terminal_lease cur" "instant_of (cl_expires_at cur) = Some e" "e \<le> n"
    and t: "t = mk_transition Expire (Some cur) (cur\<lparr>cl_lease_id := terminal_lease_id H cur\<rparr>) (lease_event H fe Expire cur n)"
    using g by (auto simp: expire_controller_def res_simps assert_not_backward_def Let_def not_less)
  have wf: "lease_wf (cur\<lparr>cl_lease_id := terminal_lease_id H cur\<rparr>)"
    using n H by (simp add: lease_wf_def terminal_lease_id_def hex_ids)
  have "valid_edge H Expire (Some cur) (cur\<lparr>cl_lease_id := terminal_lease_id H cur\<rparr>) (ISO n) n"
    using n by (auto simp: valid_edge_def)
  then show ?thesis using wf p t H
    by (auto simp: validate_lease_transition_eq_Inr mk_transition_def lease_event_def audited_lease_def hex_ids)
qed

lemma release_validates:
  assumes g: "release_controller H fe cur lid gen now = Inr t" and f: "uuid_hex fe"
    and p: "controller_lease_from_summary p = Inr (Some cur)"
  shows "validate_lease_transition H p t = Inr t"
proof -
  obtain n where n: "live_at cur n" "lease_wf cur" and t: "t = mk_transition Release (Some cur)
       (cur\<lparr>cl_expires_at := ISO n\<rparr>) (lease_event H fe Release (cur\<lparr>cl_expires_at := ISO n\<rparr>) n)"
    using g by (auto simp: release_controller_def res_simps validate_controller_eq_Inr Let_def)
  have wf: "lease_wf (cur\<lparr>cl_expires_at := ISO n\<rparr>)"
    using n by (auto simp: lease_wf_def live_at_instants split: option.splits)
  have "valid_edge H Release (Some cur) (cur\<lparr>cl_expires_at := ISO n\<rparr>) (ISO n) n"
    using n by (auto simp: valid_edge_def live_at_instants)
  then show ?thesis using wf p f t
    by (auto simp: validate_lease_transition_eq_Inr mk_transition_def lease_event_def audited_lease_def hex_ids)
qed

text \<open>
  C16: Every transition that grant_controller, renew_controller, expire_controller,
  release_controller or confirm_takeover returns is accepted by validate_lease_transition against
  the lease it was computed from, provided digests and uuids are hexadecimal, a fresh lease id is
  not the old one, and the requested duration does not round to zero microseconds.
\<close>
theorem factory_transitions_validate:
  assumes "\<And>s. SHA256 (H s)" and "lease_factory H TH prev t" and "\<not> zero_ttl t"
    and "controller_lease_from_summary p = Inr prev"
  shows "validate_lease_transition H p t = Inr t"
  using assms(2,1,3,4)
  by cases (blast intro: grant_validates renew_validates expire_validates release_validates takeover_validates)+

text \<open>
  C19: After release_controller at time n the old credential is refused at every time from n on; it
  is still accepted at the times between the last renewal and n, because a release does not move
  last_renewed_at and the backward-time guard compares with that stamp only.
\<close>
theorem released_lease_window:
  assumes "release_controller H fe cur lid gen (Some n) = Inr t"
  shows "\<exists>cur' r. lt_current t = Some cur' \<and> instant_of (cl_last_renewed_at cur) = Some r \<and> r \<le> n
           \<and> (validate_controller (Some cur') lid gen (Some m) = Inr True \<longleftrightarrow> r \<le> m \<and> m < n)"
proof -
  have v: "live_at cur n" "lease_wf cur" "ACTIVE_LEASE_ID (cl_lease_id cur)" "lid = PStr (cl_lease_id cur)"
    "gen = PInt (cl_generation cur)" and t: "lt_current t = Some (cur\<lparr>cl_expires_at := ISO n\<rparr>)"
    using assms by (auto simp: release_controller_def res_simps validate_controller_eq_Inr Let_def now_utc_def mk_transition_def)
  then obtain r where r: "instant_of (cl_last_renewed_at cur) = Some r" "r \<le> n" by (auto simp: live_at_instants)
  have "lease_wf (cur\<lparr>cl_expires_at := ISO n\<rparr>)"
    using v r by (auto simp: lease_wf_def split: option.splits)
  then show ?thesis using v t r by (auto simp: validate_controller_eq_Inr live_at_instants)
qed

section \<open>A concrete lease\<close>

definition ex_H :: "pstr \<Rightarrow> pstr" where
  "ex_H s = replicate 64 48"

definition ex_lease :: controller_lease where
  "ex_lease = \<lparr>cl_lease_id = u ''lse_'' @ replicate 24 97, cl_client_id = u ''c1'', cl_issued_at = ISO 0,
     cl_expires_at = ISO 100, cl_last_renewed_at = ISO 10, cl_generation = 1\<rparr>"

definition ex_new :: "controller_lease \<Rightarrow> controller_lease" where
  "ex_new prev = \<lparr>cl_lease_id = u ''lse_'' @ replicate 24 98, cl_client_id = u ''c2'', cl_issued_at = ISO 200,
     cl_expires_at = ISO 60000200, cl_last_renewed_at = ISO 200, cl_generation = cl_generation prev + 1\<rparr>"

definition ex_grant :: "controller_lease \<Rightarrow> lease_transition" where
  "ex_grant prev = mk_transition Grant (Some prev) (ex_new prev) (lease_event ex_H (replicate 32 99) Grant (ex_new prev) 200)"

definition ex_dead :: controller_lease where
  "ex_dead = ex_lease\<lparr>cl_lease_id := terminal_lease_id ex_H ex_lease\<rparr>"

definition ex_expire :: lease_transition where
  "ex_expire = mk_transition Expire (Some ex_lease) ex_dead (lease_event ex_H [] Expire ex_lease 150)"

lemma ex_wf [simp]: "lease_wf ex_lease" "lease_wf ex_dead" "SHA256 (ex_H s)" "uuid_hex (replicate 32 99)" "uuid_hex (replicate 32 98)"
    "ACTIVE_LEASE_ID (cl_lease_id ex_lease)" "CLIENT_ID (u ''c2'')"
proof -
  show H: "SHA256 (ex_H s)" for s by (simp add: ex_H_def SHA256_def list_all_iff is_hex_def is_digit_def)
  show hex: "uuid_hex (replicate 32 99)" "uuid_hex (replicate 32 98)"
    by (simp_all add: uuid_hex_def list_all_iff is_hex_def is_digit_def)
  show a: "ACTIVE_LEASE_ID (cl_lease_id ex_lease)"
    by (simp add: ACTIVE_LEASE_ID_def ex_lease_def u_def list_all_iff is_hex_def is_digit_def)
  have c: "CLIENT_ID (u ''c1'')" "CLIENT_ID (u ''c2'')"
    by (simp_all add: CLIENT_ID_def u_def is_alpha_def is_lower_def is_digit_def)
  then show "CLIENT_ID (u ''c2'')" by simp
  show l: "lease_wf ex_lease" using a c by (simp add: lease_wf_def ex_lease_def)
  then show "lease_wf ex_dead" using hex_ids(4)[OF H] by (simp add: lease_wf_def ex_dead_def terminal_lease_id_def)
qed

lemma ex_expire_runs: "expire_controller ex_H [] ex_lease (Some 150) = Inr ex_expire"
  using active_not_terminal[OF ex_wf(6)] ex_wf(1)
  by (simp add: expire_controller_def ex_expire_def ex_dead_def now_utc_def assert_not_backward_def is_terminal_lease_def
      validate_controller_lease_eq_Inr [THEN iffD2])
     (simp add: ex_lease_def)

lemma ex_grant_runs:
  "prev \<in> {ex_lease, ex_dead} \<Longrightarrow>
     grant_controller ex_H (replicate 32 98) (replicate 32 99) (PS ''c2'') (Some 200) (NInt 60) (Some prev) = Inr (ex_grant prev)"
proof -
  assume p: "prev \<in> {ex_lease, ex_dead}"
  have t: "ttl_us (NInt 60) = Inr 60000000" by (simp add: ttl_us_def)
  have c: "client_id_check (PS ''c2'') = Inr (u ''c2'')" by (simp only: client_id_check_eq_Inr ex_wf simp_thms)
  have v: "validate_controller_lease prev = Inr prev" using p ex_wf by auto
  have s: "cl_last_renewed_at prev = ISO 10" "cl_expires_at prev = ISO 100" using p by (auto simp: ex_lease_def ex_dead_def)
  show ?thesis
    by (simp add: grant_controller_def t c v s now_utc_def assert_not_backward_def new_lease_def max_instant_def ex_grant_def ex_new_def
        del: client_id_check_eq_Inr)
qed

lemma ex_fresh: "prev \<in> {ex_lease, ex_dead} \<Longrightarrow> fresh_for (replicate 32 98) (Some prev)"
  by (auto simp: fresh_for_def ex_lease_def ex_dead_def terminal_lease_id_def u_def)

lemma ex_not_zero: "\<not> zero_ttl (ex_grant prev)"
  by (simp add: zero_ttl_def ex_grant_def mk_transition_def lease_event_def ex_new_def)

lemma ex_validates:
  "prev \<in> {ex_lease, ex_dead} \<Longrightarrow> validate_lease_transition ex_H (lease_summary prev) (ex_grant prev) = Inr (ex_grant prev)"
  "validate_lease_transition ex_H (lease_summary ex_lease) ex_expire = Inr ex_expire"
proof -
  show "validate_lease_transition ex_H (lease_summary prev) (ex_grant prev) = Inr (ex_grant prev)"
    if p: "prev \<in> {ex_lease, ex_dead}"
  proof -
    have "controller_lease_from_summary (lease_summary prev) = Inr (Some prev)"
      using p ex_wf summary_round_trip by auto
    then show ?thesis
      using grant_validates[OF ex_grant_runs[OF p] ex_fresh[OF p] ex_wf(4)] ex_not_zero by blast
  qed
  show "validate_lease_transition ex_H (lease_summary ex_lease) ex_expire = Inr ex_expire"
    by (rule expire_validates [OF ex_expire_runs]) (use ex_wf in simp_all)
qed

theorem factory_transitions_validate_witness:
  "validate_lease_transition ex_H (lease_summary ex_lease) (ex_grant ex_lease) = Inr (ex_grant ex_lease)"
  by (rule factory_transitions_validate
        [OF ex_wf(3) lease_factory.grant [OF ex_grant_runs ex_fresh ex_wf(4)] ex_not_zero summary_round_trip [OF ex_wf(1)]]) simp_all

theorem released_lease_window_witness:
  "\<exists>t cur'. release_controller ex_H [] ex_lease (PStr (cl_lease_id ex_lease)) (PInt 1) (Some 50) = Inr t
     \<and> lt_current t = Some cur' \<and> validate_controller (Some cur') (PStr (cl_lease_id ex_lease)) (PInt 1) (Some 20) = Inr True"
proof -
  have l: "live_at ex_lease 50" "cl_generation ex_lease = 1" "cl_last_renewed_at ex_lease = ISO 10"
    by (simp_all add: ex_lease_def live_at_def)
  then have "validate_controller (Some ex_lease) (PStr (cl_lease_id ex_lease)) (PInt 1) (Some 50) = Inr True"
    using ex_wf(1,6) by (simp add: validate_controller_eq_Inr)
  then obtain t where t: "release_controller ex_H [] ex_lease (PStr (cl_lease_id ex_lease)) (PInt 1) (Some 50) = Inr t"
    by (simp add: release_controller_def now_utc_def Let_def)
  show ?thesis using released_lease_window[OF t, of 20] t l by auto
qed

end
