(* ===== verification/Lease_Store.thy ===== *)
theory Lease_Store
  imports Lease
begin

text \<open>
  How the state store (\<^verbatim>\<open>src/agentdeck/state.py\<close>) makes a lease transition durable: the checks of
  the daemon event outbox (\<^verbatim>\<open>daemon/lease.py\<close>), the commit of a lease, the flush of the outbox
  to the event journal, and the check every mutating daemon request passes.

  The lemmas show the fencing of old credentials along every run of commits and interrupted
  flushes, that a commit keeps the store valid, and that a flush is exactly-once.
\<close>

section \<open>Frozen payloads and the daemon event outbox\<close>

text \<open>
  \<^verbatim>\<open>_freeze_json\<close> turns lists into tuples and dictionaries into read-only views. Keys of a
  ledger dictionary are strings; the other restrictions are on surrogates and depth.
\<close>

datatype frozen = FVal pyval | FTuple "frozen list" | FProxy "(pstr \<times> frozen) list"

definition no_surrogate :: "pstr \<Rightarrow> bool" where
  "no_surrogate s \<longleftrightarrow> list_all (\<lambda>c. \<not> (55296 \<le> c \<and> c \<le> 57343)) s"

fun freeze_json :: "nat \<Rightarrow> pyval \<Rightarrow> lease_error + frozen"
and freeze_list :: "nat \<Rightarrow> pyval list \<Rightarrow> lease_error + frozen list"
and freeze_items :: "nat \<Rightarrow> (pstr \<times> pyval) list \<Rightarrow> lease_error + (pstr \<times> frozen) list" where
  "freeze_json depth v =
     rfail_if (depth > 32) (LeaseError ''invalid daemon event outbox'')
     (case v of
        PNone \<Rightarrow> Inr (FVal PNone)
      | PBool b \<Rightarrow> Inr (FVal (PBool b))
      | PInt n \<Rightarrow> Inr (FVal (PInt n))
      | PStr s \<Rightarrow> rfail_if (\<not> no_surrogate s) (LeaseError ''invalid daemon event outbox'') (Inr (FVal (PStr s)))
      | PList xs \<Rightarrow> rbind (freeze_list (depth + 1) xs) (\<lambda>ys. Inr (FTuple ys))
      | PDict kvs \<Rightarrow>
          rfail_if (\<not> list_all (\<lambda>(k, _). no_surrogate k) kvs) (LeaseError ''invalid daemon event outbox'')
          (rbind (freeze_items (depth + 1) kvs) (\<lambda>ys. Inr (FProxy ys))))"
| "freeze_list depth [] = Inr []"
| "freeze_list depth (x # xs) =
     rbind (freeze_json depth x) (\<lambda>y. rbind (freeze_list depth xs) (\<lambda>ys. Inr (y # ys)))"
| "freeze_items depth [] = Inr []"
| "freeze_items depth ((k, x) # kvs) =
     rbind (freeze_json depth x) (\<lambda>y. rbind (freeze_items depth kvs) (\<lambda>ys. Inr ((k, y) # ys)))"

fun thaw_json :: "frozen \<Rightarrow> pyval" where
  "thaw_json (FVal v) = v"
| "thaw_json (FTuple xs) = PList (map thaw_json xs)"
| "thaw_json (FProxy kvs) = PDict (map (\<lambda>(k, x). (k, thaw_json x)) kvs)"

text \<open>An outbox item: a dictionary with exactly the four event fields, or something else.\<close>

datatype event_record = Event_fields pyval pyval iso pyval | Other_record

definition EVENT_ID :: "pstr \<Rightarrow> bool" where
  "EVENT_ID s \<longleftrightarrow> take 4 s = u ''evt_'' \<and> CLIENT_ID (drop 4 s)"

definition EVENT_TYPE :: "pstr \<Rightarrow> bool" where
  "EVENT_TYPE s \<longleftrightarrow> (case s of [] \<Rightarrow> False
     | c # cs \<Rightarrow> is_lower c \<and> length cs \<le> 127 \<and> list_all (\<lambda>c. is_lower c \<or> is_digit c \<or> c = 95) cs)"

definition validate_daemon_event_record :: "event_record \<Rightarrow> lease_error + pstr" where
  "validate_daemon_event_record v =
     (let invalid = LeaseError ''invalid daemon event record'' in
      case v of
        Event_fields (PStr event_id) (PStr event_type) created_at (PDict payload) \<Rightarrow>
          rfail_if (\<not> EVENT_ID event_id \<or> \<not> EVENT_TYPE event_type) invalid
          (case rbind (parse_timestamp ''daemon event created_at'' created_at) (\<lambda>_. freeze_json 0 (PDict payload)) of
             Inl _ \<Rightarrow> Inl invalid
           | Inr _ \<Rightarrow> Inr event_id)
      | _ \<Rightarrow> Inl invalid)"

text \<open>The outbox value is a list of items (\<open>Some\<close>) or not a list.\<close>

definition validate_daemon_event_outbox :: "event_record list option \<Rightarrow> lease_error + pstr list" where
  "validate_daemon_event_outbox v =
     (case v of
        None \<Rightarrow> Inl (Lease_TypeError ''daemon_event_outbox must be a list'')
      | Some items \<Rightarrow>
          (case rmap validate_daemon_event_record items of
             Inl _ \<Rightarrow> Inl (LeaseError ''invalid daemon event outbox item'')
           | Inr ids \<Rightarrow> rfail_if (\<not> distinct ids) (Lease_ValueError ''duplicate daemon event identity'') (Inr ids)))"

fun action_text :: "lease_action \<Rightarrow> string" where
  "action_text Grant = ''grant''"
| "action_text Renew = ''renew''"
| "action_text Expire = ''expire''"
| "action_text Release = ''release''"
| "action_text Takeover = ''takeover''"

definition audit_event_summary :: "lease_audit_event \<Rightarrow> event_record" where
  "audit_event_summary e =
     Event_fields (PStr (ev_event_id e)) (PS (ev_event_type e)) (ev_created_at e)
       (pdict [(''action'', PS (action_text (ap_action (ev_payload e)))),
               (''client_id'', PStr (ap_client_id (ev_payload e))),
               (''generation'', PInt (ap_generation (ev_payload e))),
               (''lease_id'', PStr (ap_lease_id (ev_payload e)))])"

section \<open>Committing a transition\<close>

text \<open>
  The part of the durable state a lease commit reads and writes: the lease and the outbox in the
  state file, and the event journal, whose lines are read back as event records (a line that is no
  strict JSON object with the four fields is \<open>Other_record\<close>).
  \<^verbatim>\<open>StateStore.commit_controller_lease\<close> checks once before it takes the mutation lock and again, on
  the state it then reloads, under the lock.
\<close>

record lease_store =
  ls_lease :: persisted_lease
  ls_outbox :: "event_record list option"
  ls_journal :: "event_record list"

definition strict_event_journal_ids :: "event_record list \<Rightarrow> lease_error + pstr list" where
  "strict_event_journal_ids source =
     (case rmap validate_daemon_event_record source of
        Inl _ \<Rightarrow> Inl (Lease_ValueError ''daemon event journal is malformed'')
      | Inr ids \<Rightarrow> rfail_if (\<not> distinct ids) (Lease_ValueError ''duplicate daemon event identity'') (Inr ids))"

definition commit_check :: "(pstr \<Rightarrow> pstr) \<Rightarrow> lease_store \<Rightarrow> lease_transition \<Rightarrow> lease_error + unit" where
  "commit_check H st t =
     rbind (validate_daemon_event_outbox (ls_outbox st)) (\<lambda>event_ids.
     rbind (validate_lease_transition H (ls_lease st) t) (\<lambda>_.
     rfail_if (ev_event_id (lt_audit_event t) \<in> set event_ids) (Lease_ValueError ''duplicate daemon event identity'')
     (if lt_action t = Expire
      then rbind (strict_event_journal_ids (ls_journal st)) (\<lambda>ids.
             rfail_if (ev_event_id (lt_audit_event t) \<in> set ids) (Lease_ValueError ''duplicate daemon event identity'')
             (Inr ()))
      else Inr ())))"

definition commit_controller_lease ::
    "(pstr \<Rightarrow> pstr) \<Rightarrow> lease_store \<Rightarrow> lease_store \<Rightarrow> lease_transition \<Rightarrow> lease_error + lease_store" where
  "commit_controller_lease H initial_state st t =
     rbind (commit_check H initial_state t) (\<lambda>_.
     rbind (commit_check H st t) (\<lambda>_.
     (case (lt_current t, ls_outbox st) of
        (Some cur, Some outbox) \<Rightarrow>
          Inr (st\<lparr>ls_lease := lease_summary cur, ls_outbox := Some (outbox @ [audit_event_summary (lt_audit_event t)])\<rparr>)
      | _ \<Rightarrow> Inl AssertionError)))"

text \<open>
  \<^verbatim>\<open>flush_daemon_event_outbox\<close> appends the outbox items the journal does not hold yet to the
  journal, then empties the outbox. The two writes are separate, so the model has the first one,
  after which a crash can happen, as an operation of its own.
\<close>

definition flush_pending :: "lease_store \<Rightarrow> lease_error + event_record list" where
  "flush_pending st =
     rbind (validate_daemon_event_outbox (ls_outbox st)) (\<lambda>_.
     rbind (strict_event_journal_ids (ls_journal st)) (\<lambda>durable_ids.
     Inr (filter (\<lambda>item. case validate_daemon_event_record item of Inl _ \<Rightarrow> False | Inr i \<Rightarrow> i \<notin> set durable_ids)
            (case ls_outbox st of None \<Rightarrow> [] | Some items \<Rightarrow> items))))"

definition flush_append :: "lease_store \<Rightarrow> lease_error + lease_store" where
  "flush_append st = rbind (flush_pending st) (\<lambda>pending. Inr (st\<lparr>ls_journal := ls_journal st @ pending\<rparr>))"

definition flush_daemon_event_outbox :: "lease_store \<Rightarrow> lease_error + (lease_store \<times> nat \<times> nat)" where
  "flush_daemon_event_outbox st =
     rbind (flush_pending st) (\<lambda>pending.
     let outbox = (case ls_outbox st of None \<Rightarrow> [] | Some items \<Rightarrow> items)
     in Inr (st\<lparr>ls_journal := ls_journal st @ pending, ls_outbox := Some []\<rparr>,
             length pending, length outbox - length pending))"

definition controller_lease_terminal_state :: "pyval \<Rightarrow> pyval \<Rightarrow> lease_store \<Rightarrow> lease_error + string option" where
  "controller_lease_terminal_state lease_id generation st =
     (case (lease_id, generation) of
        (PStr lid, PInt gen) \<Rightarrow>
          rfail_if (lid = []) (Lease_ValueError ''controller lease identity is invalid'')
          (rbind (flush_pending st) (\<lambda>pending.
           let matching = List.map_filter (\<lambda>r. case r of
                   Event_fields _ (PStr event_type) _ payload \<Rightarrow>
                     if event_type \<in> {u ''controller_lease_released'', u ''controller_lease_expired''} \<and> is_dict payload
                        \<and> py_eq (dget payload ''lease_id'') (PStr lid) \<and> py_eq (dget payload ''generation'') (PInt gen)
                     then Some event_type else None
                 | _ \<Rightarrow> None) (ls_journal st @ pending)
           in Inr (if set matching = {u ''controller_lease_released''} then Some ''released''
                   else if set matching = {u ''controller_lease_expired''} then Some ''expired''
                   else None)))
      | _ \<Rightarrow> Inl (Lease_ValueError ''controller lease identity is invalid''))"

section \<open>Fencing\<close>

text \<open>
  The contract under which a credential can be fenced off: an epoch that never decreases, and a
  holder that is fixed while the epoch stays and is live only if it was live before.
\<close>

locale fenced =
  fixes step :: "'s \<Rightarrow> 's \<Rightarrow> bool" and epoch :: "'s \<Rightarrow> int" and live :: "'s \<Rightarrow> bool" and holder :: "'s \<Rightarrow> 'h"
  assumes epoch_mono: "step s s' \<Longrightarrow> epoch s \<le> epoch s'"
    and same_epoch: "step s s' \<Longrightarrow> epoch s' = epoch s \<Longrightarrow> live s' \<Longrightarrow> live s \<and> holder s' = holder s"
begin

lemma run_epoch_mono: "step\<^sup>*\<^sup>* s s' \<Longrightarrow> epoch s \<le> epoch s'"
  by (induction rule: rtranclp_induct) (auto dest: epoch_mono)

lemma run_same_epoch:
  "step\<^sup>*\<^sup>* s s' \<Longrightarrow> epoch s' = epoch s \<Longrightarrow> live s' \<Longrightarrow> live s \<and> holder s' = holder s"
proof (induction rule: rtranclp_induct)
  case (step y z)
  have "epoch y = epoch s" using run_epoch_mono[OF step(1)] epoch_mono[OF step(2)] step(4) by simp
  then show ?case using step same_epoch by metis
qed simp

lemma dead_epoch_is_over:
  "step\<^sup>*\<^sup>* s s' \<Longrightarrow> \<not> live s \<Longrightarrow> live s' \<Longrightarrow> epoch s < epoch s'"
  using run_epoch_mono run_same_epoch by force

end

text \<open>Every way the durable lease state changes: a commit, or either stage of a flush.\<close>

inductive store_step :: "(pstr \<Rightarrow> pstr) \<Rightarrow> lease_store \<Rightarrow> lease_store \<Rightarrow> bool" for H where
  commit: "commit_controller_lease H s0 s t = Inr s' \<Longrightarrow> store_step H s s'"
| crash_in_flush: "flush_append s = Inr s' \<Longrightarrow> store_step H s s'"
| flush: "flush_daemon_event_outbox s = Inr (s', n) \<Longrightarrow> store_step H s s'"

inductive_cases store_stepE: "store_step H s s'"

fun persisted_epoch :: "persisted_lease \<Rightarrow> int" where
  "persisted_epoch (Lease_fields _ _ _ _ _ (PInt g)) = g"
| "persisted_epoch _ = 0"

fun persisted_live :: "persisted_lease \<Rightarrow> bool" where
  "persisted_live (Lease_fields (PStr lid) _ _ _ _ _) = (\<not> TERMINAL_LEASE_ID lid)"
| "persisted_live _ = False"

fun persisted_holder :: "persisted_lease \<Rightarrow> (pyval \<times> pyval \<times> iso) option" where
  "persisted_holder (Lease_fields lid cid iss _ _ _) = Some (lid, cid, iss)"
| "persisted_holder _ = None"

lemma persisted_of_summary [simp]:
  "persisted_epoch (lease_summary l) = cl_generation l"
  "persisted_live (lease_summary l) \<longleftrightarrow> \<not> is_terminal_lease l"
  "persisted_holder (lease_summary l) = Some (PStr (cl_lease_id l), PStr (cl_client_id l), cl_issued_at l)"
  by (simp_all add: lease_summary_def is_terminal_lease_def)

lemma terminal_id_not_active: "\<not> ACTIVE_LEASE_ID (terminal_lease_id H l)"
  by (simp add: ACTIVE_LEASE_ID_def terminal_lease_id_def u_def)

lemma transition_fences:
  assumes "validate_lease_transition H p t = Inr t" "lt_current t = Some cur"
  shows "persisted_epoch p \<le> cl_generation cur"
    and "cl_generation cur = persisted_epoch p \<Longrightarrow> \<not> is_terminal_lease cur \<Longrightarrow>
           persisted_live p \<and> persisted_holder (lease_summary cur) = persisted_holder p"
proof -
  from assms obtain time where
    v: "controller_lease_from_summary p = Inr (lt_previous t)" "lease_wf cur"
       "valid_edge H (lt_action t) (lt_previous t) cur (ev_created_at (lt_audit_event t)) time"
    by (auto simp: validate_lease_transition_eq_Inr)
  have "persisted_epoch p \<le> cl_generation cur \<and> (cl_generation cur = persisted_epoch p \<longrightarrow> \<not> is_terminal_lease cur \<longrightarrow>
           persisted_live p \<and> persisted_holder (lease_summary cur) = persisted_holder p)"
  proof (cases "lt_previous t")
    case None
    then have "p = No_lease" "cl_generation cur = 1" using v by (auto simp: valid_edge_def)
    then show ?thesis by simp
  next
    case (Some prev)
    then have p: "p = lease_summary prev" using v by (simp add: lease_summary_fields)
    show ?thesis using v(2,3) Some terminal_id_not_active[of H prev]
      by (cases "lt_action t") (auto simp: valid_edge_def p Let_def is_terminal_lease_def lease_wf_def)
  qed
  then show "persisted_epoch p \<le> cl_generation cur"
    and "cl_generation cur = persisted_epoch p \<Longrightarrow> \<not> is_terminal_lease cur \<Longrightarrow>
           persisted_live p \<and> persisted_holder (lease_summary cur) = persisted_holder p" by auto
qed

lemma commit_outcome:
  "commit_controller_lease H s0 s t = Inr s' \<Longrightarrow>
     \<exists>cur outbox. lt_current t = Some cur \<and> ls_outbox s = Some outbox \<and> validate_lease_transition H (ls_lease s) t = Inr t
       \<and> s' = s\<lparr>ls_lease := lease_summary cur, ls_outbox := Some (outbox @ [audit_event_summary (lt_audit_event t)])\<rparr>"
  by (auto simp: commit_controller_lease_def commit_check_def res_simps validate_lease_transition_eq_Inr split: option.splits)

lemma flush_keeps_lease:
  "flush_append s = Inr s' \<Longrightarrow> ls_lease s' = ls_lease s"
  "flush_daemon_event_outbox s = Inr (s', n) \<Longrightarrow> ls_lease s' = ls_lease s"
  by (auto simp: flush_append_def flush_daemon_event_outbox_def res_simps Let_def)

interpretation lease_fence: fenced "store_step H" "\<lambda>s. persisted_epoch (ls_lease s)" "\<lambda>s. persisted_live (ls_lease s)"
    "\<lambda>s. persisted_holder (ls_lease s)" for H
proof
  show "persisted_epoch (ls_lease s) \<le> persisted_epoch (ls_lease s')" if "store_step H s s'" for s s'
    using that by (elim store_stepE) (auto dest!: commit_outcome simp: flush_keeps_lease transition_fences)
  show "persisted_live (ls_lease s) \<and> persisted_holder (ls_lease s') = persisted_holder (ls_lease s)"
    if "store_step H s s'" "persisted_epoch (ls_lease s') = persisted_epoch (ls_lease s)" "persisted_live (ls_lease s')" for s s'
    using that by (elim store_stepE) (auto dest!: commit_outcome simp: flush_keeps_lease dest: transition_fences(2))
qed

text \<open>The check every mutating daemon request passes (\<^verbatim>\<open>_validate_daemon_controller_lease\<close>).\<close>

definition validate_daemon_controller_lease :: "lease_store \<Rightarrow> pyval \<Rightarrow> pyval \<Rightarrow> int option \<Rightarrow> lease_error + bool" where
  "validate_daemon_controller_lease st lease_id generation now =
     rbind (controller_lease_from_summary (ls_lease st)) (\<lambda>lease. validate_controller lease lease_id generation now)"

lemma validate_daemon_controller_lease_eq_Inr:
  "validate_daemon_controller_lease st lid gen now = Inr b \<longleftrightarrow>
     b \<and> (\<exists>l t. ls_lease st = lease_summary l \<and> now = Some t \<and> lease_wf l \<and> ACTIVE_LEASE_ID (cl_lease_id l)
            \<and> lid = PStr (cl_lease_id l) \<and> gen = PInt (cl_generation l) \<and> live_at l t)"
  by (auto simp: validate_daemon_controller_lease_def res_simps validate_controller_eq_Inr lease_summary_fields)

lemma validated_store:
  assumes "validate_daemon_controller_lease st lid (PInt g) now = Inr True"
  shows "persisted_epoch (ls_lease st) = g" "persisted_live (ls_lease st)"
    "\<exists>cid iss. persisted_holder (ls_lease st) = Some (lid, cid, iss)"
  using assms by (auto simp: validate_daemon_controller_lease_eq_Inr is_terminal_lease_def active_not_terminal)

text \<open>
  C14: Fencing. Along any run of lease commits (by any clients, at any clock readings) and outbox
  flushes with crashes, the credentials accepted by the daemon never go back: if (lid, g) is accepted
  now and (lid', g') later, then g' is at least g, and if g' = g it is the same lease id held by the
  same client. So once a newer generation is accepted, an older one never is again.
\<close>
theorem lease_fencing:
  assumes "(store_step H)\<^sup>*\<^sup>* s s'"
    and "validate_daemon_controller_lease s lid (PInt g) now = Inr True"
    and "validate_daemon_controller_lease s' lid' (PInt g') now' = Inr True"
  shows "g \<le> g' \<and> (g' = g \<longrightarrow> lid' = lid \<and> persisted_holder (ls_lease s') = persisted_holder (ls_lease s))"
proof -
  note v = validated_store[OF assms(2)] validated_store[OF assms(3)]
  have "g \<le> g'" using lease_fence.run_epoch_mono[OF assms(1)] v by simp
  moreover have "persisted_holder (ls_lease s') = persisted_holder (ls_lease s)" if "g' = g"
    using lease_fence.run_same_epoch[OF assms(1)] v that by simp
  ultimately show ?thesis using v by auto
qed

text \<open>
  C15: An expired lease is dead for good: once the expiry of a lease of generation g is committed, no
  later state accepts any credential of generation g or below, whatever the clock says.
\<close>
theorem expired_lease_stays_dead:
  assumes "commit_controller_lease H s0 s t = Inr s1" "lt_action t = Expire"
    and "(store_step H)\<^sup>*\<^sup>* s1 s'"
    and "validate_daemon_controller_lease s' lid (PInt g') now = Inr True"
  shows "g' > persisted_epoch (ls_lease s)"
proof -
  obtain cur where c: "lt_current t = Some cur" "validate_lease_transition H (ls_lease s) t = Inr t"
    "ls_lease s1 = lease_summary cur" using commit_outcome[OF assms(1)] by auto
  have "\<not> persisted_live (ls_lease s1)" and "persisted_epoch (ls_lease s1) = persisted_epoch (ls_lease s)"
    using c assms(2) terminal_id_not_active
    by (auto simp: validate_lease_transition_eq_Inr valid_edge_def lease_wf_def is_terminal_lease_def audited_lease_def
        lease_summary_fields)
  then show ?thesis
    using lease_fence.dead_epoch_is_over[OF assms(3)] validated_store[OF assms(4)] by simp
qed

section \<open>The outbox and the journal\<close>

lemma CLIENT_ID_no_surrogate: "CLIENT_ID s \<Longrightarrow> no_surrogate s"
  by (auto simp: CLIENT_ID_def no_surrogate_def list_all_iff is_alpha_def is_lower_def is_upper_def is_digit_def split: list.splits)

lemma hex_no_surrogate: "list_all is_hex s \<Longrightarrow> no_surrogate s"
  by (auto simp: no_surrogate_def list_all_iff is_hex_def is_digit_def)

lemma no_surrogate_append [simp]: "no_surrogate (a @ b) \<longleftrightarrow> no_surrogate a \<and> no_surrogate b"
  by (simp add: no_surrogate_def)

lemma lease_id_no_surrogate:
  assumes "lease_wf l" shows "no_surrogate (cl_lease_id l)"
proof -
  have "no_surrogate (take 4 (cl_lease_id l))" "no_surrogate (drop 4 (cl_lease_id l))"
    using assms hex_no_surrogate
    by (auto simp: lease_wf_def ACTIVE_LEASE_ID_def TERMINAL_LEASE_ID_def no_surrogate_def u_def)
  then show ?thesis using no_surrogate_append append_take_drop_id by metis
qed

lemma hex_CLIENT_ID: "list_all is_hex s \<Longrightarrow> s \<noteq> [] \<Longrightarrow> length s \<le> 128 \<Longrightarrow> CLIENT_ID s"
  by (cases s) (auto simp: CLIENT_ID_def is_hex_def is_alpha_def is_lower_def is_digit_def list_all_iff)

lemma event_hex_id_valid: "EVENT_HEX_ID s \<Longrightarrow> EVENT_ID s"
  by (auto simp: EVENT_HEX_ID_def EVENT_ID_def intro!: hex_CLIENT_ID)

lemma event_name_valid: "EVENT_TYPE (u (event_name a))"
  by (cases a) (simp_all add: EVENT_TYPE_def u_def is_lower_def)

lemma literal_no_surrogate: "no_surrogate (u s)"
proof -
  have "\<not> 55296 \<le> (of_char c :: nat)" for c
    using nat_of_char_less_256[of c] by linarith
  then show ?thesis by (auto simp: no_surrogate_def u_def list_all_iff)
qed

text \<open>The outbox record of a validated transition is itself a valid event record.\<close>

lemma audit_record_valid:
  assumes v: "validate_lease_transition H p t = Inr t"
  shows "validate_daemon_event_record (audit_event_summary (lt_audit_event t)) = Inr (ev_event_id (lt_audit_event t))"
proof -
  from v obtain cur a time where c: "lt_current t = Some cur" "lease_wf cur" "audited_lease t = Some a"
    "instant_of (ev_created_at (lt_audit_event t)) = Some time" "ev_event_type (lt_audit_event t) = event_name (lt_action t)"
    "EVENT_HEX_ID (ev_event_id (lt_audit_event t))"
    "ev_payload (lt_audit_event t) = \<lparr>ap_action = lt_action t, ap_client_id = cl_client_id a,
               ap_generation = cl_generation a, ap_lease_id = cl_lease_id a\<rparr>"
    "controller_lease_from_summary p = Inr (lt_previous t)"
    by (auto simp: validate_lease_transition_eq_Inr)
  have "lease_wf a"
    using c by (cases "lt_action t = Expire") (auto simp: audited_lease_def lease_summary_fields)
  then have "no_surrogate (cl_client_id a)" "no_surrogate (cl_lease_id a)"
    using CLIENT_ID_no_surrogate lease_id_no_surrogate by (auto simp: lease_wf_def)
  moreover have "parse_timestamp f (ev_created_at (lt_audit_event t)) = Inr time" for f using c by simp
  ultimately show ?thesis using c
    by (simp add: validate_daemon_event_record_def audit_event_summary_def event_hex_id_valid event_name_valid pdict_def
        res_simps literal_no_surrogate del: parse_timestamp_eq_Inr)
qed

definition store_ok :: "lease_store \<Rightarrow> bool" where
  "store_ok st \<longleftrightarrow> is_ok (controller_lease_from_summary (ls_lease st))
     \<and> is_ok (validate_daemon_event_outbox (ls_outbox st)) \<and> is_ok (strict_event_journal_ids (ls_journal st))"

definition event_ids :: "event_record list \<Rightarrow> pstr list" where
  "event_ids items = map (\<lambda>r. projr (validate_daemon_event_record r)) items"

definition records_ok :: "event_record list \<Rightarrow> bool" where
  "records_ok items \<longleftrightarrow> list_all (\<lambda>r. is_ok (validate_daemon_event_record r)) items \<and> distinct (event_ids items)"

lemma rmap_records:
  "rmap validate_daemon_event_record items = Inr ids \<longleftrightarrow>
     list_all (\<lambda>r. is_ok (validate_daemon_event_record r)) items \<and> ids = event_ids items"
  by (induction items arbitrary: ids) (auto simp: res_simps event_ids_def is_ok_def split: sum.splits)

lemma rmap_records_Inl:
  "rmap validate_daemon_event_record items = Inl e \<Longrightarrow> \<not> list_all (\<lambda>r. is_ok (validate_daemon_event_record r)) items"
  using rmap_records[of items "event_ids items"] by simp

lemma outbox_eq_Inr:
  "validate_daemon_event_outbox ob = Inr ids \<longleftrightarrow> (\<exists>items. ob = Some items \<and> records_ok items \<and> ids = event_ids items)"
  by (auto simp: validate_daemon_event_outbox_def records_ok_def rmap_records res_simps 
      dest: rmap_records_Inl split: option.splits sum.splits)

lemma journal_eq_Inr:
  "strict_event_journal_ids js = Inr ids \<longleftrightarrow> records_ok js \<and> ids = event_ids js"
  by (auto simp: strict_event_journal_ids_def records_ok_def rmap_records res_simps dest: rmap_records_Inl split: sum.splits)

lemma commit_store_ok:
  assumes "store_ok s" "commit_controller_lease H s0 s t = Inr s'"
  shows "store_ok s'"
proof -
  obtain cur items where c: "lt_current t = Some cur" "ls_outbox s = Some items"
    "validate_lease_transition H (ls_lease s) t = Inr t"
    "s' = s\<lparr>ls_lease := lease_summary cur, ls_outbox := Some (items @ [audit_event_summary (lt_audit_event t)])\<rparr>"
    using commit_outcome[OF assms(2)] by auto
  have new: "ev_event_id (lt_audit_event t) \<notin> set (event_ids items)" "records_ok items"
    using assms(2) c(2) by (auto simp: commit_controller_lease_def commit_check_def res_simps outbox_eq_Inr)
  have "records_ok (items @ [audit_event_summary (lt_audit_event t)])"
    using new audit_record_valid[OF c(3)] by (simp add: records_ok_def event_ids_def)
  moreover have "lease_wf cur" using c(1,3) by (auto simp: validate_lease_transition_eq_Inr)
  ultimately show ?thesis using assms(1) c
    by (simp add: store_ok_def is_ok_iff outbox_eq_Inr)
qed

text \<open>
  C17: A successful commit keeps the durable state valid: the lease it stores is well formed, the
  outbox has only valid records with distinct ids and ends with the transition's own audit record,
  and nothing else of the store changes.
\<close>
theorem commit_keeps_store_ok:
  assumes "store_ok s" "commit_controller_lease H s0 s t = Inr s'"
  shows "store_ok s' \<and> ls_journal s' = ls_journal s
    \<and> (\<exists>cur items. lt_current t = Some cur \<and> ls_lease s' = lease_summary cur \<and> ls_outbox s = Some items
         \<and> ls_outbox s' = Some (items @ [audit_event_summary (lt_audit_event t)]))"
  using commit_store_ok[OF assms] commit_outcome[OF assms(2)] by auto

lemma event_ids_append [simp]: "event_ids (a @ b) = event_ids a @ event_ids b"
  by (simp add: event_ids_def)

lemma flush_pending_eq_Inr:
  "flush_pending st = Inr pending \<longleftrightarrow>
     (\<exists>items. ls_outbox st = Some items \<and> records_ok items \<and> records_ok (ls_journal st)
        \<and> pending = filter (\<lambda>r. projr (validate_daemon_event_record r) \<notin> set (event_ids (ls_journal st))) items)"
proof -
  have "filter (\<lambda>r. case validate_daemon_event_record r of Inl _ \<Rightarrow> False | Inr i \<Rightarrow> i \<notin> X) items
      = filter (\<lambda>r. projr (validate_daemon_event_record r) \<notin> X) items" if "records_ok items" for X items
    using that by (intro filter_cong) (auto simp: records_ok_def list_all_iff is_ok_def split: sum.splits)
  then show ?thesis
    by (auto simp: flush_pending_def res_simps outbox_eq_Inr journal_eq_Inr)
qed

lemma records_ok_filter: "records_ok items \<Longrightarrow> records_ok (filter P items)"
  by (auto simp: records_ok_def event_ids_def list_all_iff distinct_map_filter)

lemma records_ok_append:
  "records_ok (a @ b) \<longleftrightarrow> records_ok a \<and> records_ok b \<and> set (event_ids a) \<inter> set (event_ids b) = {}"
  by (auto simp: records_ok_def)

lemma pending_appends_ok:
  assumes "flush_pending st = Inr pending"
  shows "records_ok (ls_journal st @ pending)"
proof -
  obtain items where i: "records_ok items" "records_ok (ls_journal st)"
    "pending = filter (\<lambda>r. projr (validate_daemon_event_record r) \<notin> set (event_ids (ls_journal st))) items"
    using assms by (auto simp: flush_pending_eq_Inr)
  have "set (event_ids (ls_journal st)) \<inter> set (event_ids pending) = {}"
    unfolding i(3) by (auto simp: event_ids_def [of "filter _ _"])
  then show ?thesis using i by (simp add: records_ok_append records_ok_filter)
qed


lemma freeze_round_trip:
  "freeze_json d v = Inr f \<Longrightarrow> thaw_json f = v"
  "freeze_list d xs = Inr fs \<Longrightarrow> map thaw_json fs = xs"
  "freeze_items d kvs = Inr ks \<Longrightarrow> map (\<lambda>(k, x). (k, thaw_json x)) ks = kvs"
  by (induction d v and d xs and d kvs arbitrary: f and fs and ks rule: freeze_json_freeze_list_freeze_items.induct)
     (auto simp: res_simps simp del: freeze_json.simps simp: freeze_json.simps[abs_def] split: pyval.splits)

section \<open>A concrete run\<close>

definition ex_store :: "controller_lease \<Rightarrow> lease_store" where
  "ex_store l = \<lparr>ls_lease = lease_summary l, ls_outbox = Some [], ls_journal = []\<rparr>"

definition ex_after :: "lease_transition \<Rightarrow> lease_store \<Rightarrow> lease_store" where
  "ex_after t st = st\<lparr>ls_lease := lease_summary (the (lt_current t)),
     ls_outbox := Some (the (ls_outbox st) @ [audit_event_summary (lt_audit_event t)])\<rparr>"

lemma commit_runs:
  assumes "validate_lease_transition H (ls_lease st) t = Inr t" "store_ok st"
    "ev_event_id (lt_audit_event t) \<notin> set (event_ids (the (ls_outbox st))) \<union> set (event_ids (ls_journal st))"
  shows "commit_controller_lease H st st t = Inr (ex_after t st)"
proof -
  obtain cur where cur: "lt_current t = Some cur" using assms(1) by (auto simp: validate_lease_transition_eq_Inr)
  obtain items where ob: "ls_outbox st = Some items" "records_ok items" "records_ok (ls_journal st)"
    using assms(2) by (auto simp: store_ok_def is_ok_iff outbox_eq_Inr journal_eq_Inr)
  have i: "validate_daemon_event_outbox (Some items) = Inr (event_ids items)"
    "strict_event_journal_ids (ls_journal st) = Inr (event_ids (ls_journal st))"
    using ob by (simp_all add: outbox_eq_Inr journal_eq_Inr)
  then have "commit_check H st t = Inr ()"
    using assms(1,3) ob(1) by (simp add: commit_check_def)
  then show ?thesis using cur ob(1) by (simp add: commit_controller_lease_def ex_after_def)
qed

lemma ex_store_ok: "lease_wf l \<Longrightarrow> store_ok (ex_store l)"
  by (simp add: store_ok_def ex_store_def is_ok_iff outbox_eq_Inr journal_eq_Inr records_ok_def event_ids_def)

lemma ex_commits:
  "commit_controller_lease ex_H (ex_store ex_lease) (ex_store ex_lease) (ex_grant ex_lease) = Inr (ex_after (ex_grant ex_lease) (ex_store ex_lease))"
  "commit_controller_lease ex_H (ex_store ex_lease) (ex_store ex_lease) ex_expire = Inr (ex_after ex_expire (ex_store ex_lease))"
  "commit_controller_lease ex_H (ex_store ex_dead) (ex_store ex_dead) (ex_grant ex_dead) = Inr (ex_after (ex_grant ex_dead) (ex_store ex_dead))"
  by (rule commit_runs; use ex_validates ex_store_ok in \<open>simp add: ex_store_def event_ids_def\<close>)+

lemma ex_new_wf: "prev \<in> {ex_lease, ex_dead} \<Longrightarrow> lease_wf (ex_new prev)"
  using ex_validates(1) by (force simp: validate_lease_transition_eq_Inr ex_grant_def mk_transition_def)

lemma ex_accepts_new:
  "prev \<in> {ex_lease, ex_dead} \<Longrightarrow> ls_lease st = lease_summary (ex_new prev) \<Longrightarrow>
     validate_daemon_controller_lease st (PStr (u ''lse_'' @ replicate 24 98)) (PInt 2) (Some 300) = Inr True"
proof -
  assume p: "prev \<in> {ex_lease, ex_dead}" and l: "ls_lease st = lease_summary (ex_new prev)"
  have "cl_generation prev = 1" using p by (auto simp: ex_lease_def ex_dead_def)
  then have f: "cl_lease_id (ex_new prev) = u ''lse_'' @ replicate 24 98" "cl_generation (ex_new prev) = 2" "live_at (ex_new prev) 300"
    by (simp_all add: ex_new_def live_at_def)
  have "ACTIVE_LEASE_ID (u ''lse_'' @ replicate 24 98)" using hex_ids(1)[OF ex_wf(5)] by simp
  then show ?thesis
    unfolding validate_daemon_controller_lease_eq_Inr using l f ex_new_wf[OF p] by (intro conjI exI[of _ "ex_new prev"] exI[of _ 300]) simp_all
qed

lemma ex_accepts_old:
  "validate_daemon_controller_lease (ex_store ex_lease) (PStr (u ''lse_'' @ replicate 24 97)) (PInt 1) (Some 50) = Inr True"
  unfolding validate_daemon_controller_lease_eq_Inr using ex_wf(1,6)
  by (intro conjI exI[of _ ex_lease] exI[of _ 50]) (simp_all add: ex_store_def ex_lease_def live_at_def)

theorem lease_fencing_witness:
  "(store_step ex_H)\<^sup>*\<^sup>* (ex_store ex_lease) (ex_after (ex_grant ex_lease) (ex_store ex_lease)) \<and> (1::int) \<le> 2"
proof -
  have run: "(store_step ex_H)\<^sup>*\<^sup>* (ex_store ex_lease) (ex_after (ex_grant ex_lease) (ex_store ex_lease))"
    by (rule r_into_rtranclp, rule store_step.commit, rule ex_commits)
  have "validate_daemon_controller_lease (ex_after (ex_grant ex_lease) (ex_store ex_lease))
      (PStr (u ''lse_'' @ replicate 24 98)) (PInt 2) (Some 300) = Inr True"
    by (rule ex_accepts_new [of ex_lease]) (simp_all add: ex_after_def ex_grant_def mk_transition_def)
  from lease_fencing [OF run ex_accepts_old this] run show ?thesis by blast
qed

theorem expired_lease_stays_dead_witness: "(2::int) > persisted_epoch (ls_lease (ex_store ex_lease))"
proof (rule expired_lease_stays_dead [OF ex_commits(2)])
  let ?s = "ex_after ex_expire (ex_store ex_lease)"
  have l: "ls_lease ?s = lease_summary ex_dead" by (simp add: ex_after_def ex_expire_def mk_transition_def)
  have ok: "store_ok ?s" using commit_store_ok[OF ex_store_ok[OF ex_wf(1)] ex_commits(2)] .
  have "commit_controller_lease ex_H ?s ?s (ex_grant ex_dead) = Inr (ex_after (ex_grant ex_dead) ?s)"
    using ex_validates(1)[of ex_dead] l ok audit_record_valid[OF ex_validates(2)]
    by (intro commit_runs) (auto simp: ex_after_def ex_store_def event_ids_def ex_grant_def ex_expire_def mk_transition_def
        lease_event_def ex_H_def u_def)
  then show "(store_step ex_H)\<^sup>*\<^sup>* ?s (ex_after (ex_grant ex_dead) ?s)" by (blast intro: store_step.commit)
  show "validate_daemon_controller_lease (ex_after (ex_grant ex_dead) ?s) (PStr (u ''lse_'' @ replicate 24 98)) (PInt 2) (Some 300) = Inr True"
    by (rule ex_accepts_new [of ex_dead]) (simp_all add: ex_after_def ex_grant_def mk_transition_def)
qed (simp add: ex_expire_def mk_transition_def)

theorem commit_keeps_store_ok_witness: "store_ok (ex_after ex_expire (ex_store ex_lease))"
  using commit_keeps_store_ok[OF ex_store_ok[OF ex_wf(1)] ex_commits(2)] by simp

lemma flush_append_runs: "store_ok st \<Longrightarrow> \<exists>st'. flush_append st = Inr st'"
  by (auto simp: store_ok_def is_ok_iff outbox_eq_Inr journal_eq_Inr flush_append_def flush_pending_eq_Inr res_simps)


end
