(* ===== verification/Review_Group.thy ===== *)
theory Review_Group
  imports Step_Dag
begin

text \<open>
  \<^verbatim>\<open>src/agentdeck/review_group.py\<close>: expansion of each review step of a plan into one step per
  configured reviewer, the latest review group that is complete (which may start an iteration) or
  has at least one verdict (which the merge gate shows), and the any-fail-blocks aggregation.

  A dictionary keyed by values of unknown type has normalised keys (\<open>py_key\<close>); building one with
  an unhashable key raises \<^verbatim>\<open>TypeError\<close>. Members of a group are ledger dictionaries, as in the code.

  The lemmas show that an expanded plan is numbered 1 to n with contiguous groups, so that the
  fan-out of the step DAG applies to it, that a complete group is exactly what its name says, and
  that the aggregate passes only when every member does.
\<close>

section \<open>Expansion\<close>

definition member_step :: "pyval \<Rightarrow> int \<Rightarrow> int \<Rightarrow> int \<Rightarrow> pstr \<times> pstr \<Rightarrow> pyval" where
  "member_step step number group_number member_index reviewer =
     dputs [(''step'', PInt number), (''agent_id'', PStr (fst reviewer)), (''role'', PStr (snd reviewer)),
            (''origin'', PS ''review_group''), (''review_group'', PInt group_number),
            (''review_group_member'', PInt member_index)] step"

fun expand_members :: "pyval \<Rightarrow> int \<Rightarrow> int \<Rightarrow> int \<Rightarrow> (pstr \<times> pstr) list \<Rightarrow> pyval list" where
  "expand_members step number group_number member_index [] = []"
| "expand_members step number group_number member_index (r # rs) =
     member_step step (number + 1) group_number member_index r
       # expand_members step (number + 1) group_number (member_index + 1) rs"

text \<open>The loop over the steps; \<open>None\<close> when a step is not a dictionary.\<close>

fun expand_loop :: "(pstr \<times> pstr) list \<Rightarrow> pstr \<Rightarrow> int \<Rightarrow> int \<Rightarrow> pyval list \<Rightarrow> pyval list option" where
  "expand_loop reviewers signature_role number group_number [] = Some []"
| "expand_loop reviewers signature_role number group_number (step # steps) =
     (if \<not> is_dict step then None
      else if \<not> py_eq (dget step ''role'') (PStr signature_role)
      then map_option (Cons (dput ''step'' (PInt (number + 1)) step))
             (expand_loop reviewers signature_role (number + 1) group_number steps)
      else map_option (append (expand_members step number (group_number + 1) 0 reviewers))
             (expand_loop reviewers signature_role (number + int (length reviewers)) (group_number + 1) steps))"

definition expand_review_group :: "pyval \<Rightarrow> (pstr \<times> pstr) list \<Rightarrow> pyval" where
  "expand_review_group plan reviewers =
     (case reviewers of
        [] \<Rightarrow> plan
      | r # _ \<Rightarrow>
          (case dget plan ''steps'' of
             PList steps \<Rightarrow>
               if steps = [] then plan
               else (case expand_loop reviewers (snd r) 0 0 steps of
                       None \<Rightarrow> plan
                     | Some expanded \<Rightarrow> dput ''steps'' (PList expanded) plan)
           | _ \<Rightarrow> plan))"

section \<open>The latest group\<close>

definition review_group_entry :: "pyval \<Rightarrow> (int \<times> int) option" where
  "review_group_entry step =
     (if \<not> is_dict step then None
      else case (dget step ''step'', dget step ''review_group'') of
             (PInt number, PInt grp) \<Rightarrow> Some (number, grp)
           | _ \<Rightarrow> None)"

definition review_group_numbers :: "pyval list \<Rightarrow> (int \<times> int) list" where
  "review_group_numbers steps =
     fold (\<lambda>step d. case review_group_entry step of None \<Rightarrow> d | Some (number, grp) \<Rightarrow> dict_put number grp d) steps []"

text \<open>\<^verbatim>\<open>{x.get(k): x for x in xs}\<close>.\<close>

definition index_by :: "string \<Rightarrow> pyval list \<Rightarrow> py_exn + (pyval \<times> pyval) list" where
  "index_by k xs =
     (if list_all (\<lambda>x. py_hashable (dget x k)) xs
      then Inr (dict_of (map (\<lambda>x. (py_key (dget x k), x)) xs))
      else Inl TypeError)"

definition with_verdict :: "pyval \<Rightarrow> bool" where
  "with_verdict reply \<longleftrightarrow> is_dict reply \<and> is_dict (dget reply ''verdict'')"

definition reply_by_message :: "pyval list \<Rightarrow> (pstr \<times> int \<times> pyval) list" where
  "reply_by_message replies =
     dict_of (map (\<lambda>(index, reply). (py_str (dget reply ''message_id''), int index, reply))
       (filter (\<lambda>(index, reply). with_verdict reply) (enumerate 0 replies)))"

definition by_group :: "(int \<times> int) list \<Rightarrow> (int \<times> int list) list" where
  "by_group groups =
     fold (\<lambda>(number, grp) d. dict_put grp (members_of d grp @ [number]) d) groups []"

definition group_order :: "(int \<times> int list) list \<Rightarrow> (int \<times> int list) list" where
  "group_order d = map (\<lambda>g. (g, sort (members_of d g))) (rev (sort (map fst d)))"

definition reply_of ::
    "(pyval \<times> pyval) list \<Rightarrow> (pstr \<times> int \<times> pyval) list \<Rightarrow> int \<Rightarrow> (int \<times> pyval) option" where
  "reply_of approval_by_step replies number =
     map_of replies (py_str (case map_of approval_by_step (PInt number) of
                               None \<Rightarrow> PNone | Some approval \<Rightarrow> dget approval ''message_id''))"

definition agent_of :: "(pyval \<times> pyval) list \<Rightarrow> int \<Rightarrow> pyval" where
  "agent_of steps_by_number number =
     (case map_of steps_by_number (PInt number) of None \<Rightarrow> PNone | Some step \<Rightarrow> dget step ''agent_id'')"

definition group_member :: "int \<Rightarrow> pyval \<Rightarrow> pyval \<Rightarrow> pyval \<Rightarrow> pyval" where
  "group_member number agent_id reply_id verdict =
     pdict [(''step'', PInt number), (''agent_id'', agent_id), (''reply_id'', reply_id), (''verdict'', verdict)]"

record complete_group =
  cg_group :: int
  cg_members :: "pyval list"
  cg_last_reply_id :: pyval
  cg_last_reply_index :: int

text \<open>The members of one group with the index of their latest reply; \<open>None\<close> when one has none.\<close>

fun complete_members ::
    "(pyval \<times> pyval) list \<Rightarrow> (pyval \<times> pyval) list \<Rightarrow> (pstr \<times> int \<times> pyval) list \<Rightarrow> int list
      \<Rightarrow> (pyval list \<times> int) option" where
  "complete_members S A R [] = Some ([], -1)"
| "complete_members S A R (number # ns) =
     (case reply_of A R number of
        None \<Rightarrow> None
      | Some (index, reply) \<Rightarrow>
          map_option (\<lambda>(ms, last_index).
             (group_member number (agent_of S number) (dget reply ''reply_id'') (dget reply ''verdict'') # ms, max index last_index))
            (complete_members S A R ns))"

fun find_complete ::
    "(pyval \<times> pyval) list \<Rightarrow> (pyval \<times> pyval) list \<Rightarrow> (pstr \<times> int \<times> pyval) list \<Rightarrow> (int \<times> int list) list
      \<Rightarrow> complete_group option" where
  "find_complete S A R [] = None"
| "find_complete S A R ((grp, ns) # gs) =
     (case complete_members S A R ns of
        Some (m # ms, last_index) \<Rightarrow>
          Some \<lparr>cg_group = grp, cg_members = m # ms, cg_last_reply_id = dget (last (m # ms)) ''reply_id'',
                cg_last_reply_index = last_index\<rparr>
      | _ \<Rightarrow> find_complete S A R gs)"

definition plan_approvals :: "pyval list \<Rightarrow> pstr \<Rightarrow> pyval list" where
  "plan_approvals approvals plan_id = filter (\<lambda>a. is_dict a \<and> py_eq (dget a ''plan_id'') (PStr plan_id)) approvals"

definition latest_complete_group ::
    "pyval list \<Rightarrow> pyval list \<Rightarrow> pyval list \<Rightarrow> pstr \<Rightarrow> py_exn + complete_group option" where
  "latest_complete_group steps approvals replies plan_id =
     (let groups = review_group_numbers steps in
      if groups = [] then Inr None
      else rbind (index_by ''step'' (filter is_dict steps)) (\<lambda>S.
           rbind (index_by ''step'' (plan_approvals approvals plan_id)) (\<lambda>A.
           Inr (find_complete S A (reply_by_message replies) (group_order (by_group groups))))))"

record group_status =
  gs_group :: int
  gs_members :: "pyval list"
  gs_reported :: nat
  gs_complete :: bool
  gs_last_reply_id :: "pstr option"

fun status_members ::
    "(pyval \<times> pyval) list \<Rightarrow> (pyval \<times> pyval) list \<Rightarrow> (pstr \<times> int \<times> pyval) list \<Rightarrow> int list
      \<Rightarrow> pyval list \<times> nat \<times> pstr option" where
  "status_members S A R [] = ([], 0, None)"
| "status_members S A R (number # ns) =
     (let (ms, reported, last_reply) = status_members S A R ns in
      case reply_of A R number of
        None \<Rightarrow> (group_member number (agent_of S number) PNone PNone # ms, reported, last_reply)
      | Some (_, reply) \<Rightarrow>
          (group_member number (agent_of S number) (dget reply ''reply_id'') (dget reply ''verdict'') # ms, Suc reported,
           (case last_reply of None \<Rightarrow> Some (py_str (dget reply ''reply_id'')) | Some r \<Rightarrow> Some r)))"

fun find_status ::
    "(pyval \<times> pyval) list \<Rightarrow> (pyval \<times> pyval) list \<Rightarrow> (pstr \<times> int \<times> pyval) list \<Rightarrow> (int \<times> int list) list
      \<Rightarrow> group_status option" where
  "find_status S A R [] = None"
| "find_status S A R ((grp, ns) # gs) =
     (let (members, reported, last_reply) = status_members S A R ns in
      if reported > 0
      then Some \<lparr>gs_group = grp, gs_members = members, gs_reported = reported,
                 gs_complete = (reported = length members), gs_last_reply_id = last_reply\<rparr>
      else find_status S A R gs)"

definition latest_group_status ::
    "pyval list \<Rightarrow> pyval list \<Rightarrow> pyval list \<Rightarrow> pstr \<Rightarrow> py_exn + group_status option" where
  "latest_group_status steps approvals replies plan_id =
     (let groups = review_group_numbers steps in
      if groups = [] then Inr None
      else rbind (index_by ''step'' (filter is_dict steps)) (\<lambda>S.
           rbind (index_by ''step'' (plan_approvals approvals plan_id)) (\<lambda>A.
           Inr (find_status S A (reply_by_message replies) (group_order (by_group groups))))))"

section \<open>Aggregation\<close>

definition severity :: "pstr \<Rightarrow> nat option" where
  "severity s = map_of [(u ''pass'', 0), (u ''needs_changes'', 1), (u ''fail'', 2)] s"

record aggregation =
  ag_overall :: pstr
  ag_merged :: "(pstr \<times> pstr) list"
  ag_order :: "pstr list"
  ag_scores :: "int list"

text \<open>One item of a member's criteria.\<close>

definition merge_criterion :: "pyval \<Rightarrow> aggregation \<Rightarrow> aggregation" where
  "merge_criterion item s =
     (if \<not> is_dict item then s
      else let criterion = py_str (dget item ''criterion''); incoming = py_str (dget item ''verdict'') in
        case map_of (ag_merged s) criterion of
          None \<Rightarrow> s\<lparr>ag_order := ag_order s @ [criterion], ag_merged := dict_put criterion incoming (ag_merged s)\<rparr>
        | Some current \<Rightarrow>
            if current \<noteq> u ''fail'' \<and> (incoming = u ''fail'' \<or> current = u ''pass'')
            then s\<lparr>ag_merged := dict_put criterion incoming (ag_merged s)\<rparr>
            else s)"

text \<open>\<^verbatim>\<open>for item in x\<close> for a ledger value; the items of a string or dictionary are strings.\<close>

definition py_iter :: "pyval \<Rightarrow> py_exn + pyval list" where
  "py_iter v =
     (case v of
        PList xs \<Rightarrow> Inr xs
      | PStr s \<Rightarrow> Inr (map (\<lambda>c. PStr [c]) s)
      | PDict d \<Rightarrow> Inr (map (\<lambda>kv. PStr (fst kv)) d)
      | _ \<Rightarrow> Inl TypeError)"

definition clamp_overall :: "pyval \<Rightarrow> pstr" where
  "clamp_overall v = (case severity (py_str v) of None \<Rightarrow> u ''fail'' | Some _ \<Rightarrow> py_str v)"

definition aggregate_member :: "pyval \<Rightarrow> aggregation \<Rightarrow> py_exn + aggregation" where
  "aggregate_member member s =
     (let verdict = py_or (dget member ''verdict'') (PDict []) in
      if \<not> is_dict member \<or> \<not> is_dict verdict then Inl AttributeError
      else let value = clamp_overall (dget verdict ''overall'');
               s1 = (if the (severity value) > (case severity (ag_overall s) of None \<Rightarrow> 0 | Some n \<Rightarrow> n)
                     then s\<lparr>ag_overall := value\<rparr> else s);
               s2 = (case dget verdict ''score'' of PInt n \<Rightarrow> s1\<lparr>ag_scores := ag_scores s1 @ [n]\<rparr> | _ \<Rightarrow> s1)
           in rbind (py_iter (py_or (dget verdict ''criteria'') (PList []))) (\<lambda>items.
                Inr (fold merge_criterion items s2)))"

fun aggregate_loop :: "pyval list \<Rightarrow> aggregation \<Rightarrow> py_exn + aggregation" where
  "aggregate_loop [] s = Inr s"
| "aggregate_loop (m # ms) s = rbind (aggregate_member m s) (aggregate_loop ms)"

definition aggregate_group_verdicts :: "pyval list \<Rightarrow> py_exn + pyval" where
  "aggregate_group_verdicts members =
     rbind (aggregate_loop members \<lparr>ag_overall = u ''pass'', ag_merged = [], ag_order = [], ag_scores = []\<rparr>) (\<lambda>s.
       Inr (pdict [(''overall'', PStr (ag_overall s)), (''rule'', PS ''any_fail_blocks''),
              (''criteria'', PList (map (\<lambda>c. pdict [(''criterion'', PStr c),
                  (''verdict'', PStr (case map_of (ag_merged s) c of None \<Rightarrow> [] | Some v \<Rightarrow> v))]) (ag_order s))),
              (''score'', if ag_scores s = [] then PNone else PInt (Min (set (ag_scores s))))]))"

section \<open>An expanded plan\<close>

lemma member_step_simps [simp]:
  assumes "is_dict step"
  shows "is_dict (member_step step n g i r)" "group_of (member_step step n g i r) = Some g"
    "1 \<le> n \<Longrightarrow> step_number (member_step step n g i r) = Some n"
    "dget (member_step step n g i r) ''agent_id'' = PStr (fst r)" "dget (member_step step n g i r) ''role'' = PStr (snd r)"
  using assms by (simp_all add: member_step_def step_number_def group_of_def)

lemma renumbered_step [simp]:
  "1 \<le> n \<Longrightarrow> step_number (dput ''step'' (PInt n) step) = Some n"
  "group_of (dput ''step'' (PInt n) step) = group_of step"
  by (simp_all add: step_number_def group_of_def)

lemma plan_numbers_simps [simp]:
  "plan_numbers [] = []"
  "plan_numbers (s # steps) = (case step_number s of None \<Rightarrow> plan_numbers steps | Some n \<Rightarrow> n # plan_numbers steps)"
  "plan_numbers (xs @ ys) = plan_numbers xs @ plan_numbers ys"
  by (simp_all add: plan_numbers_def split: option.split) (simp add: List.map_filter_def)

lemma plan_marks_simps [simp]:
  "plan_marks [] = []"
  "plan_marks (s # steps) = (case step_mark s of None \<Rightarrow> plan_marks steps | Some m \<Rightarrow> m # plan_marks steps)"
  "plan_marks (xs @ ys) = plan_marks xs @ plan_marks ys"
  by (simp_all add: plan_marks_def split: option.split) (simp add: List.map_filter_def)

lemma expand_members_numbers:
  "is_dict step \<Longrightarrow> 0 \<le> n \<Longrightarrow> plan_numbers (expand_members step n g i rs) = [n + 1..n + int (length rs)]"
  "is_dict step \<Longrightarrow> 0 \<le> n \<Longrightarrow> plan_marks (expand_members step n g i rs) = map (\<lambda>m. (m, g)) [n + 1..n + int (length rs)]"
  by (induction rs arbitrary: n i) (auto simp: step_mark_def upto_rec1 algebra_simps)

lemma expand_members_reviewers:
  "is_dict step \<Longrightarrow> map (\<lambda>s. (dget s ''agent_id'', dget s ''role'')) (expand_members step n g i rs)
     = map (\<lambda>(a, r). (PStr a, PStr r)) rs"
  "is_dict step \<Longrightarrow> filter (\<lambda>s. group_of s = Some k) (expand_members step n g i rs)
     = (if k = g then expand_members step n g i rs else [])"
  "length (expand_members step n g i rs) = length rs"
  by (induction rs arbitrary: n i) auto

text \<open>The steps that the predicate of the code takes for a review.\<close>

definition review_steps :: "pstr \<Rightarrow> pyval list \<Rightarrow> nat" where
  "review_steps signature_role steps = length (filter (\<lambda>s. py_eq (dget s ''role'') (PStr signature_role)) steps)"

lemma upto_append: "0 \<le> a \<Longrightarrow> 0 \<le> b \<Longrightarrow> [n + 1..n + a] @ [n + a + 1..n + a + b] = [n + 1..n + a + (b :: int)]"
  using upto_split2 [of "n + 1" "n + a" "n + a + b"] by (cases "a = 0") auto

lemma expand_loop_numbers:
  "expand_loop reviewers sig n g steps = Some e \<Longrightarrow> 0 \<le> n \<Longrightarrow> plan_numbers e = [n + 1..n + int (length e)]"
proof (induction steps arbitrary: n g e)
  case (Cons s steps)
  show ?case
  proof (cases "py_eq (dget s ''role'') (PStr sig)")
    case False
    then obtain e' where e: "e = dput ''step'' (PInt (n + 1)) s # e'" "expand_loop reviewers sig (n + 1) g steps = Some e'"
      using Cons.prems by (auto split: if_splits)
    then show ?thesis using Cons.IH[OF e(2)] Cons.prems by (simp add: upto_rec1 algebra_simps)
  next
    case True
    then obtain e' where e: "e = expand_members s n (g + 1) 0 reviewers @ e'" "is_dict s"
      "expand_loop reviewers sig (n + int (length reviewers)) (g + 1) steps = Some e'"
      using Cons.prems by (auto split: if_splits)
    have "plan_numbers e = [n + 1..n + int (length reviewers)]
        @ [n + int (length reviewers) + 1..n + int (length reviewers) + int (length e')]"
      using Cons.IH[OF e(3)] Cons.prems e by (simp add: expand_members_numbers)
    also have "\<dots> = [n + 1..n + int (length e)]"
      using upto_append [of "int (length reviewers)" "int (length e')" n] by (simp add: e expand_members_reviewers add.assoc)
    finally show ?thesis .
  qed
qed simp

lemma expand_loop_length:
  "expand_loop reviewers sig n g steps = Some e \<Longrightarrow>
     length e + review_steps sig steps = length steps + review_steps sig steps * length reviewers"
proof (induction steps arbitrary: n g e)
  case (Cons s steps)
  show ?case
  proof (cases "py_eq (dget s ''role'') (PStr sig)")
    case False
    then obtain e' where "e = dput ''step'' (PInt (n + 1)) s # e'" "expand_loop reviewers sig (n + 1) g steps = Some e'"
      using Cons.prems by (auto split: if_splits)
    then show ?thesis using Cons.IH [of "n + 1" g e'] False by (simp add: review_steps_def)
  next
    case True
    then obtain e' where "e = expand_members s n (g + 1) 0 reviewers @ e'"
      "expand_loop reviewers sig (n + int (length reviewers)) (g + 1) steps = Some e'"
      using Cons.prems by (auto split: if_splits)
    then show ?thesis using Cons.IH [of "n + int (length reviewers)" "g + 1" e'] True
      by (simp add: review_steps_def expand_members_reviewers)
  qed
qed (simp add: review_steps_def)

text \<open>The marks of an expanded tail: above the counters, and every group a run of consecutive numbers.\<close>

definition marks_block :: "int \<Rightarrow> int \<Rightarrow> (int \<times> int) list \<Rightarrow> bool" where
  "marks_block n g M \<longleftrightarrow> (\<forall>(a, k)\<in>set M. n < a \<and> g < k)
     \<and> (\<forall>(a, k)\<in>set M. \<forall>(c, k')\<in>set M. k = k' \<longrightarrow> (\<forall>b. a \<le> b \<and> b \<le> c \<longrightarrow> (b, k) \<in> set M))"

lemma marks_block_weaken: "marks_block n' g M \<Longrightarrow> n \<le> n' \<Longrightarrow> marks_block n g M"
  by (force simp: marks_block_def)

lemma marks_block_group:
  assumes M: "marks_block (n + m) (g + 1) M" and m: "0 \<le> m"
  shows "marks_block n g (map (\<lambda>b. (b, g + 1)) [n + 1..n + m] @ M)"
proof -
  let ?M = "map (\<lambda>b. (b, g + 1)) [n + 1..n + m] @ M"
  have mem: "(a, k) \<in> set ?M \<longleftrightarrow> k = g + 1 \<and> n < a \<and> a \<le> n + m \<or> (a, k) \<in> set M" for a k by auto
  have above: "n + m < a \<and> g + 1 < k" if "(a, k) \<in> set M" for a k
    using M that by (auto simp: marks_block_def)
  have run: "(b, k) \<in> set M" if "(a, k) \<in> set M" "(c, k) \<in> set M" "a \<le> b" "b \<le> c" for a b c k
    using M that unfolding marks_block_def by blast
  have "(b, k) \<in> set ?M" if "(a, k) \<in> set ?M" "(c, k) \<in> set ?M" "a \<le> b" "b \<le> c" for a b c k
    using that above [of _ k] run [of a k c b] unfolding mem by fastforce
  moreover have "n < a \<and> g < k" if "(a, k) \<in> set ?M" for a k
    using that above [of a k] m unfolding mem by auto
  ultimately show ?thesis unfolding marks_block_def by blast
qed

lemma expand_loop_marks:
  "expand_loop reviewers sig n g steps = Some e \<Longrightarrow> 0 \<le> n \<Longrightarrow> list_all (\<lambda>s. group_of s = None) steps \<Longrightarrow>
     marks_block n g (plan_marks e)"
proof (induction steps arbitrary: n g e)
  case (Cons s steps)
  show ?case
  proof (cases "py_eq (dget s ''role'') (PStr sig)")
    case False
    then obtain e' where e: "e = dput ''step'' (PInt (n + 1)) s # e'" "expand_loop reviewers sig (n + 1) g steps = Some e'"
      using Cons.prems by (auto split: if_splits)
    have "step_mark (dput ''step'' (PInt (n + 1)) s) = None"
      using Cons.prems by (simp add: step_mark_def)
    moreover have "marks_block (n + 1) g (plan_marks e')" using Cons.IH[OF e(2)] Cons.prems by simp
    ultimately show ?thesis using e by (auto intro: marks_block_weaken)
  next
    case True
    then obtain e' where e: "e = expand_members s n (g + 1) 0 reviewers @ e'" "is_dict s"
      "expand_loop reviewers sig (n + int (length reviewers)) (g + 1) steps = Some e'"
      using Cons.prems by (auto split: if_splits)
    have "marks_block (n + int (length reviewers)) (g + 1) (plan_marks e')"
      using Cons.IH[OF e(3)] Cons.prems by simp
    then show ?thesis using e Cons.prems marks_block_group by (simp add: expand_members_numbers)
  qed
qed (simp add: marks_block_def)

lemma expand_loop_sequential:
  assumes "expand_loop reviewers sig 0 0 steps = Some e" "list_all (\<lambda>s. group_of s = None) steps"
  shows "sequential_plan e"
proof -
  have n: "plan_numbers e = [1..int (length e)]" using expand_loop_numbers[OF assms(1)] by simp
  then have "distinct (map fst (plan_marks e))" by (simp add: distinct_plan_marks)
  then have "groups_contiguous e"
    using expand_loop_marks[OF assms(1) _ assms(2)] by (fastforce simp: groups_contiguous_def marks_block_def)
  then show ?thesis using n by (simp add: sequential_plan_def sorted_sort_id)
qed

interpretation expanded: numbered_plan "case expand_loop reviewers sig 0 0 steps of None \<Rightarrow> [] | Some e \<Rightarrow> e"
  for reviewers sig steps
  by unfold_locales (auto simp: expand_loop_numbers split: option.splits)

lemma expand_loop_groups:
  "expand_loop reviewers sig n g steps = Some e \<Longrightarrow> list_all (\<lambda>s. group_of s = None) steps \<Longrightarrow>
     map (\<lambda>s. (dget s ''agent_id'', dget s ''role'')) (filter (\<lambda>s. group_of s = Some k) e)
     = (if g < k \<and> k \<le> g + int (review_steps sig steps) then map (\<lambda>(a, r). (PStr a, PStr r)) reviewers else [])"
proof (induction steps arbitrary: n g e)
  case (Cons s steps)
  show ?case
  proof (cases "py_eq (dget s ''role'') (PStr sig)")
    case False
    then obtain e' where "e = dput ''step'' (PInt (n + 1)) s # e'" "expand_loop reviewers sig (n + 1) g steps = Some e'"
      using Cons.prems by (auto split: if_splits)
    then show ?thesis using Cons.IH [of "n + 1" g e'] Cons.prems False by (simp add: review_steps_def)
  next
    case True
    then obtain e' where "e = expand_members s n (g + 1) 0 reviewers @ e'" "is_dict s"
      "expand_loop reviewers sig (n + int (length reviewers)) (g + 1) steps = Some e'"
      using Cons.prems by (auto split: if_splits)
    then show ?thesis using Cons.IH [of "n + int (length reviewers)" "g + 1" e'] Cons.prems True
      by (auto simp: review_steps_def expand_members_reviewers)
  qed
qed (auto simp: review_steps_def)

lemma expand_loop_runs: "list_all is_dict steps \<Longrightarrow> \<exists>e. expand_loop reviewers sig n g steps = Some e"
proof (induction steps arbitrary: n g)
  case (Cons s steps)
  obtain e1 e2 where "expand_loop reviewers sig (n + 1) g steps = Some e1"
    "expand_loop reviewers sig (n + int (length reviewers)) (g + 1) steps = Some e2"
    using Cons by (metis list.pred_inject(2))
  then show ?case using Cons.prems by simp
qed simp


definition plain_plan :: pyval where
  "plain_plan = pdict [(''steps'', PList [pdict [(''step'', PInt 1), (''role'', PS ''coder'')],
     pdict [(''step'', PInt 2), (''role'', PS ''reviewer'')], pdict [(''step'', PInt 3), (''role'', PS ''coder'')]])]"

definition two_reviewers :: "(pstr \<times> pstr) list" where
  "two_reviewers = [(u ''r1'', u ''reviewer''), (u ''r2'', u ''auditor'')]"


section \<open>The latest group\<close>

lemma complete_members_status:
  "complete_members S A R ns = Some (ms, li) \<Longrightarrow> \<exists>r. status_members S A R ns = (ms, length ns, r)"
  by (induction ns arbitrary: ms li) (auto split: option.splits)

lemma complete_members_None:
  "complete_members S A R ns = None \<longleftrightarrow> (\<exists>n\<in>set ns. reply_of A R n = None)"
  by (induction ns) (auto split: option.splits)

lemma status_members_length:
  "status_members S A R ns = (ms, k, r) \<Longrightarrow> length ms = length ns \<and> k \<le> length ns
     \<and> (k = length ns \<longleftrightarrow> (\<forall>n\<in>set ns. reply_of A R n \<noteq> None))"
  by (induction ns arbitrary: ms k r) (fastforce split: prod.splits option.splits)+

lemma complete_members_shape:
  "complete_members S A R ns = Some (ms, li) \<Longrightarrow> map (\<lambda>m. dget m ''step'') ms = map PInt ns
     \<and> (\<forall>m\<in>set ms. \<exists>k reply. reply_of A R k = Some reply \<and> dget m ''step'' = PInt k
          \<and> dget m ''verdict'' = dget (snd reply) ''verdict'')"
  by (induction ns arbitrary: ms li) (fastforce simp: group_member_def split: option.splits)+

lemma find_complete_status:
  assumes "sorted_wrt (>) (map fst gs)" "\<forall>(g, ns)\<in>set gs. ns \<noteq> []"
  shows "find_status S A R gs = None \<Longrightarrow> find_complete S A R gs = None"
    and "find_status S A R gs = Some st \<Longrightarrow> gs_complete st \<Longrightarrow>
           \<exists>cg. find_complete S A R gs = Some cg \<and> cg_group cg = gs_group st \<and> cg_members cg = gs_members st"
    and "find_status S A R gs = Some st \<Longrightarrow> \<not> gs_complete st \<Longrightarrow> find_complete S A R gs = Some cg \<Longrightarrow>
           cg_group cg < gs_group st"
proof -
  have in_list: "find_complete S A R gs' = Some cg \<Longrightarrow> cg_group cg \<in> fst ` set gs'" for gs' cg
    by (induction gs') (auto split: option.splits list.splits)
  have "(find_status S A R gs = None \<longrightarrow> find_complete S A R gs = None)
    \<and> (find_status S A R gs = Some st \<longrightarrow> gs_complete st \<longrightarrow>
           (\<exists>cg. find_complete S A R gs = Some cg \<and> cg_group cg = gs_group st \<and> cg_members cg = gs_members st))
    \<and> (find_status S A R gs = Some st \<longrightarrow> \<not> gs_complete st \<longrightarrow> find_complete S A R gs = Some cg \<longrightarrow>
           cg_group cg < gs_group st)"
    using assms
  proof (induction gs)
    case (Cons gn gs)
    obtain g ns where gn: "gn = (g, ns)" by force
    obtain ms k r where s: "status_members S A R ns = (ms, k, r)" by (metis prod_cases3)
    note len = status_members_length [OF s]
    show ?case
    proof (cases "complete_members S A R ns")
      case None
      then have "k < length ns" using len by (auto simp: complete_members_None)
      have less: "cg_group cg < g" if "find_complete S A R gs = Some cg"
        using in_list [OF that] Cons.prems(1) gn by force
      from \<open>k < length ns\<close> have "(find_status S A R (gn # gs) = None \<longleftrightarrow> k = 0 \<and> find_status S A R gs = None) \<and> find_complete S A R (gn # gs) = find_complete S A R gs
          \<and> (k > 0 \<longrightarrow> find_status S A R (gn # gs) = Some st \<longrightarrow> gs_group st = g \<and> \<not> gs_complete st)
          \<and> (k = 0 \<longrightarrow> find_status S A R (gn # gs) = find_status S A R gs)"
        using None gn s len by auto
      then show ?thesis using Cons less by (cases "k > 0") auto
    next
      case (Some p)
      then obtain li where p: "complete_members S A R ns = Some (ms, li)" "k = length ns"
        using complete_members_status s by (cases p) fastforce
      moreover have "ms \<noteq> []" using len Cons.prems gn by auto
      ultimately show ?thesis using gn s len by (cases ms) auto
    qed
  qed simp
  then show "find_status S A R gs = None \<Longrightarrow> find_complete S A R gs = None"
    and "find_status S A R gs = Some st \<Longrightarrow> gs_complete st \<Longrightarrow>
           \<exists>cg. find_complete S A R gs = Some cg \<and> cg_group cg = gs_group st \<and> cg_members cg = gs_members st"
    and "find_status S A R gs = Some st \<Longrightarrow> \<not> gs_complete st \<Longrightarrow> find_complete S A R gs = Some cg \<Longrightarrow>
           cg_group cg < gs_group st" by auto
qed

lemma members_of_by_group: "members_of (by_group groups) g = map fst (filter (\<lambda>(n, g'). g' = g) groups)"
  by (simp add: by_group_def members_of_fold)

lemma keys_by_group: "fst ` set (by_group groups) = snd ` set groups" "distinct (map fst (by_group groups))"
proof -
  have "fst ` set (fold (\<lambda>(n, g) d. dict_put g (members_of d g @ [n]) d) groups d) = snd ` set groups \<union> fst ` set d" for d
    by (induction groups arbitrary: d) (simp_all add: keys_dict_put split_beta)
  then show "fst ` set (by_group groups) = snd ` set groups" by (simp add: by_group_def)
  have "distinct (map fst d) \<Longrightarrow> distinct (map fst (fold (\<lambda>(n, g) d. dict_put g (members_of d g @ [n]) d) groups d))" for d
    by (induction groups arbitrary: d) (auto intro: distinct_dict_put)
  then show "distinct (map fst (by_group groups))" by (simp add: by_group_def)
qed

lemma group_order_ok:
  "sorted_wrt (>) (map fst (group_order (by_group groups)))"
  "\<forall>(g, ns)\<in>set (group_order (by_group groups)). ns \<noteq> [] \<and> ns = sort (map fst (filter (\<lambda>(n, g'). g' = g) groups))"
proof -
  have "sorted_wrt (<) (sort (map fst (by_group groups)))"
    using keys_by_group(2) by (simp add: strict_sorted_iff)
  then show "sorted_wrt (>) (map fst (group_order (by_group groups)))"
    by (simp add: group_order_def sorted_wrt_rev comp_def)
  have "sort (map fst (filter (\<lambda>(n, g'). g' = g) groups)) \<noteq> []" if g: "g \<in> fst ` set (by_group groups)" for g
  proof -
    obtain n where "(n, g) \<in> set groups" using g by (auto simp: keys_by_group)
    then have "n \<in> set (sort (map fst (filter (\<lambda>(n, g'). g' = g) groups)))" by force
    then show ?thesis by (metis empty_iff empty_set)
  qed
  then show "\<forall>(g, ns)\<in>set (group_order (by_group groups)). ns \<noteq> [] \<and> ns = sort (map fst (filter (\<lambda>(n, g'). g' = g) groups))"
    by (simp add: group_order_def members_of_by_group)
qed

lemma group_order_nonempty: "\<forall>(g, ns)\<in>set (group_order (by_group groups)). ns \<noteq> []"
  using group_order_ok(2) by fastforce

text \<open>
  C22: The merge gate is never weaker than the iteration trigger. If latest_group_status shows a
  complete group, latest_complete_group returns that very group with the same members; if it shows an
  incomplete one, whatever latest_complete_group returns is an older group; and if it shows nothing,
  there is no complete group at all.
\<close>
theorem group_status_covers_trigger:
  assumes "latest_group_status steps approvals replies plan_id = Inr status"
  shows "\<exists>trigger. latest_complete_group steps approvals replies plan_id = Inr trigger \<and>
    (case status of
       None \<Rightarrow> trigger = None
     | Some st \<Rightarrow>
         if gs_complete st then \<exists>cg. trigger = Some cg \<and> cg_group cg = gs_group st \<and> cg_members cg = gs_members st
         else \<forall>cg. trigger = Some cg \<longrightarrow> cg_group cg < gs_group st)"
proof (cases "review_group_numbers steps = []")
  case True
  then show ?thesis using assms by (auto simp: latest_group_status_def latest_complete_group_def)
next
  case False
  then obtain S A where SA: "index_by ''step'' (filter is_dict steps) = Inr S"
    "index_by ''step'' (plan_approvals approvals plan_id) = Inr A"
    "status = find_status S A (reply_by_message replies) (group_order (by_group (review_group_numbers steps)))"
    using assms by (auto simp: latest_group_status_def res_simps Let_def)
  have t: "latest_complete_group steps approvals replies plan_id
      = Inr (find_complete S A (reply_by_message replies) (group_order (by_group (review_group_numbers steps))))"
    using SA False by (simp add: latest_complete_group_def)
  note find = find_complete_status [OF group_order_ok(1) group_order_nonempty,
      of S A "reply_by_message replies" "review_group_numbers steps"]
  show ?thesis
  proof (cases status)
    case None
    then show ?thesis using find(1) SA(3) t by simp
  next
    case (Some st)
    then have "find_status S A (reply_by_message replies) (group_order (by_group (review_group_numbers steps))) = Some st"
      using SA(3) by simp
    then show ?thesis using find(2,3) t Some by simp
  qed
qed

lemma find_complete_entry:
  "find_complete S A R gs = Some cg \<Longrightarrow> \<exists>ns li. (cg_group cg, ns) \<in> set gs \<and> complete_members S A R ns = Some (cg_members cg, li)"
  by (induction gs) (auto split: option.splits list.splits, blast+)

lemma reply_by_message_verdict:
  assumes "map_of (reply_by_message replies) m = Some (i, reply)"
  shows "reply \<in> set replies \<and> with_verdict reply \<and> py_str (dget reply ''message_id'') = m"
proof -
  have "(m, i, reply) \<in> set (map (\<lambda>(index, reply). (py_str (dget reply ''message_id''), int index, reply))
       (filter (\<lambda>(index, reply). with_verdict reply) (enumerate 0 replies)))"
    using assms unfolding reply_by_message_def map_of_dict_of by (auto dest!: map_of_SomeD)
  then show ?thesis by (auto simp: in_set_enumerate_eq)
qed

text \<open>
  A group is complete only when every step numbered into it has its verdict: the members of the
  returned group are exactly those steps, in order, and the verdict of each is the verdict dictionary
  of a reply in the ledger.
\<close>
theorem complete_group_is_complete:
  assumes "latest_complete_group steps approvals replies plan_id = Inr (Some cg)"
  shows "map (\<lambda>m. dget m ''step'') (cg_members cg)
      = map PInt (sort (map fst (filter (\<lambda>(n, g). g = cg_group cg) (review_group_numbers steps))))
    \<and> cg_members cg \<noteq> []
    \<and> (\<forall>m\<in>set (cg_members cg). \<exists>reply\<in>set replies. with_verdict reply \<and> dget m ''verdict'' = dget reply ''verdict'')"
proof -
  obtain S A where f: "find_complete S A (reply_by_message replies) (group_order (by_group (review_group_numbers steps))) = Some cg"
    using assms by (auto simp: latest_complete_group_def res_simps Let_def split: if_splits)
  then obtain ns li where e: "(cg_group cg, ns) \<in> set (group_order (by_group (review_group_numbers steps)))"
    "complete_members S A (reply_by_message replies) ns = Some (cg_members cg, li)"
    using find_complete_entry by blast
  have ns: "ns \<noteq> []" "ns = sort (map fst (filter (\<lambda>(n, g). g = cg_group cg) (review_group_numbers steps)))"
    using e(1) group_order_ok(2) [of "review_group_numbers steps"] by auto
  note shape = complete_members_shape [OF e(2)]
  have "\<exists>reply\<in>set replies. with_verdict reply \<and> dget m ''verdict'' = dget reply ''verdict''" if "m \<in> set (cg_members cg)" for m
    using shape that reply_by_message_verdict unfolding reply_of_def by fastforce
  moreover have "cg_members cg \<noteq> []" using shape ns(1) by auto
  ultimately show ?thesis using shape ns(2) by simp
qed

section \<open>Any fail blocks\<close>

abbreviation verdict_of :: "pyval \<Rightarrow> pyval" where
  "verdict_of m \<equiv> py_or (dget m ''verdict'') (PDict [])"

definition overall_of :: "pyval \<Rightarrow> pstr" where
  "overall_of m = clamp_overall (dget (verdict_of m) ''overall'')"

text \<open>All reports of one criterion, by all members in order.\<close>

definition criteria_of :: "pyval \<Rightarrow> pyval list" where
  "criteria_of m = (case py_iter (py_or (dget (verdict_of m) ''criteria'') (PList [])) of Inl _ \<Rightarrow> [] | Inr xs \<Rightarrow> xs)"

definition reports :: "pstr \<Rightarrow> pyval list \<Rightarrow> pstr list" where
  "reports c items = map (\<lambda>i. py_str (dget i ''verdict'')) (filter (\<lambda>i. is_dict i \<and> py_str (dget i ''criterion'') = c) items)"

lemma severity_clamp: "\<exists>n. severity (clamp_overall v) = Some n"
  by (auto simp: clamp_overall_def severity_def split: option.split)

lemma overall_severity: "\<exists>k. severity (overall_of m) = Some k"
  using severity_clamp by (simp add: overall_of_def)

lemma merge_criterion_fields [simp]:
  "ag_overall (merge_criterion i s) = ag_overall s" "ag_scores (merge_criterion i s) = ag_scores s"
  by (auto simp: merge_criterion_def Let_def split: option.splits)

lemma fold_merge_fields [simp]:
  "ag_overall (fold merge_criterion items s) = ag_overall s" "ag_scores (fold merge_criterion items s) = ag_scores s"
  by (induction items arbitrary: s) simp_all

text \<open>What the merged table says of a criterion, given all its reports so far.\<close>

definition merged_ok :: "pstr option \<Rightarrow> pstr list \<Rightarrow> bool" where
  "merged_ok v rs \<longleftrightarrow> (case v of None \<Rightarrow> rs = []
     | Some w \<Rightarrow> rs \<noteq> [] \<and> w \<in> set rs \<and> (w = u ''fail'' \<longleftrightarrow> u ''fail'' \<in> set rs) \<and> (w = u ''pass'' \<longleftrightarrow> set rs = {u ''pass''}))"

lemma merged_ok_snoc:
  assumes "merged_ok (Some v) rs"
  shows "merged_ok (Some (if v \<noteq> u ''fail'' \<and> (w = u ''fail'' \<or> v = u ''pass'') then w else v)) (rs @ [w])"
proof -
  have d: "u ''fail'' \<noteq> u ''pass''" by simp
  consider "v = u ''pass''" "set rs = {u ''pass''}" | "v = u ''fail''" "u ''fail'' \<in> set rs"
    | "v \<noteq> u ''pass''" "v \<noteq> u ''fail''" "v \<in> set rs" "u ''fail'' \<notin> set rs"
    using assms by (auto simp: merged_ok_def)
  then show ?thesis
  proof cases
    case 1 then show ?thesis using d by (auto simp: merged_ok_def)
  next
    case 2 then show ?thesis using d by (auto simp: merged_ok_def)
  next
    case 3 then show ?thesis using d by (auto simp: merged_ok_def)
  qed
qed

lemma merge_criterion_table:
  assumes "merged_ok (map_of (ag_merged s) c) rs"
  shows "merged_ok (map_of (ag_merged (merge_criterion i s)) c) (rs @ reports c [i])"
proof (cases "is_dict i \<and> py_str (dget i ''criterion'') = c")
  case True
  show ?thesis
  proof (cases "map_of (ag_merged s) c")
    case None
    then show ?thesis using True assms by (auto simp: merge_criterion_def reports_def merged_ok_def)
  next
    case (Some v)
    then have "map_of (ag_merged (merge_criterion i s)) c
        = Some (if v \<noteq> u ''fail'' \<and> (py_str (dget i ''verdict'') = u ''fail'' \<or> v = u ''pass'') then py_str (dget i ''verdict'') else v)"
      using True by (simp add: merge_criterion_def Let_def)
    then show ?thesis using merged_ok_snoc [of v rs] True assms Some by (simp add: reports_def)
  qed
next
  case False
  then have "map_of (ag_merged (merge_criterion i s)) c = map_of (ag_merged s) c"
    by (auto simp: merge_criterion_def Let_def split: option.split)
  moreover have "reports c [i] = []" using False by (auto simp: reports_def)
  ultimately show ?thesis using assms by simp
qed

lemma reports_append: "reports c (a @ b) = reports c a @ reports c b"
  by (simp add: reports_def)

lemma fold_merge_table:
  "merged_ok (map_of (ag_merged s) c) rs \<Longrightarrow>
     merged_ok (map_of (ag_merged (fold merge_criterion items s)) c) (rs @ reports c items)"
proof (induction items arbitrary: s rs)
  case (Cons i items)
  show ?case
    using Cons.IH [OF merge_criterion_table [OF Cons.prems, of i]] reports_append [of c "[i]" items] by simp
qed (simp add: reports_def)

lemma merge_criterion_order:
  assumes "set (ag_order s) = fst ` set (ag_merged s)"
  shows "set (ag_order (merge_criterion i s)) = fst ` set (ag_merged (merge_criterion i s))"
proof -
  have "insert c (fst ` set (ag_merged s)) = fst ` set (ag_merged s)" if "map_of (ag_merged s) c = Some v" for c v
    using that by (metis insert_absorb map_of_eq_None_iff option.distinct(1))
  then show ?thesis using assms
    by (simp add: merge_criterion_def Let_def keys_dict_put split: option.split)
qed

lemma fold_merge_order:
  "set (ag_order s) = fst ` set (ag_merged s) \<Longrightarrow>
     set (ag_order (fold merge_criterion items s)) = fst ` set (ag_merged (fold merge_criterion items s))"
  by (induction items arbitrary: s) (simp_all add: merge_criterion_order)

text \<open>The state after some members, in terms of these members.\<close>

definition aggregated :: "pyval list \<Rightarrow> aggregation \<Rightarrow> bool" where
  "aggregated ms s \<longleftrightarrow>
     (\<exists>n. severity (ag_overall s) = Some n \<and> n = Max (insert 0 ((\<lambda>m. the (severity (overall_of m))) ` set ms)))
     \<and> (\<forall>c. merged_ok (map_of (ag_merged s) c) (reports c (concat (map criteria_of ms))))
     \<and> set (ag_order s) = fst ` set (ag_merged s)
     \<and> set (ag_scores s) = {n. \<exists>m\<in>set ms. dget (verdict_of m) ''score'' = PInt n}"

lemma aggregate_member_step:
  assumes a: "aggregated ms s" and m: "aggregate_member m s = Inr s'"
  shows "aggregated (ms @ [m]) s'"
proof -
  define s1 where "s1 = (if the (severity (overall_of m)) > (case severity (ag_overall s) of None \<Rightarrow> 0 | Some n \<Rightarrow> n)
                     then s\<lparr>ag_overall := overall_of m\<rparr> else s)"
  define s2 where "s2 = (case dget (verdict_of m) ''score'' of PInt n \<Rightarrow> s1\<lparr>ag_scores := ag_scores s1 @ [n]\<rparr> | _ \<Rightarrow> s1)"
  have s': "s' = fold merge_criterion (criteria_of m) s2"
  proof -
    have "is_dict m \<and> is_dict (verdict_of m)" by (rule ccontr) (use m in \<open>auto simp: aggregate_member_def\<close>)
    then have "aggregate_member m s = rbind (py_iter (py_or (dget (verdict_of m) ''criteria'') (PList [])))
        (\<lambda>items. Inr (fold merge_criterion items s2))"
      unfolding aggregate_member_def Let_def s2_def s1_def overall_of_def by simp
    then have "rbind (py_iter (py_or (dget (verdict_of m) ''criteria'') (PList []))) (\<lambda>items. Inr (fold merge_criterion items s2)) = Inr s'"
      using m by simp
    then show ?thesis by (auto simp: rbind_eq_Inr criteria_of_def)
  qed
  have merged: "ag_merged s2 = ag_merged s" "ag_order s2 = ag_order s" and ov: "ag_overall s2 = ag_overall s1"
    and sc: "ag_scores s2 = ag_scores s @ (case dget (verdict_of m) ''score'' of PInt n \<Rightarrow> [n] | _ \<Rightarrow> [])"
    by (simp_all add: s2_def s1_def split: pyval.split)
  obtain k where k: "severity (overall_of m) = Some k" using overall_severity by blast
  obtain n where n: "severity (ag_overall s) = Some n" "n = Max (insert 0 ((\<lambda>m. the (severity (overall_of m))) ` set ms))"
    using a by (auto simp: aggregated_def)
  have "severity (ag_overall s') = Some (max n k)"
    using k n(1) by (auto simp: s' ov s1_def max_def)
  moreover have "max n k = Max (insert 0 ((\<lambda>m. the (severity (overall_of m))) ` set (ms @ [m])))"
  proof -
    let ?S = "insert 0 ((\<lambda>m. the (severity (overall_of m))) ` set ms)"
    have "insert 0 ((\<lambda>m. the (severity (overall_of m))) ` set (ms @ [m])) = insert k ?S" using k by auto
    moreover have "Max (insert k ?S) = max k (Max ?S)" by (rule Max_insert) simp_all
    ultimately show ?thesis unfolding n(2) by (metis max.commute)
  qed
  moreover have "merged_ok (map_of (ag_merged s') c) (reports c (concat (map criteria_of (ms @ [m]))))" for c
    using a fold_merge_table [of s2 c "reports c (concat (map criteria_of ms))" "criteria_of m"] merged
    by (simp add: aggregated_def s' reports_append)
  moreover have "set (ag_order s') = fst ` set (ag_merged s')"
    using a merged unfolding s' by (intro fold_merge_order) (simp add: aggregated_def)
  moreover have "set (ag_scores s') = {n. \<exists>m\<in>set (ms @ [m]). dget (verdict_of m) ''score'' = PInt n}"
    using a sc by (auto simp: s' aggregated_def split: pyval.splits)
  ultimately show ?thesis unfolding aggregated_def by blast
qed

lemma aggregate_loop_step:
  "aggregated ms0 s \<Longrightarrow> aggregate_loop ms s = Inr s' \<Longrightarrow> aggregated (ms0 @ ms) s'"
proof (induction ms arbitrary: ms0 s)
  case (Cons m ms)
  then obtain s1 where "aggregate_member m s = Inr s1" "aggregate_loop ms s1 = Inr s'" by (auto simp: res_simps)
  then show ?case using Cons.IH aggregate_member_step [OF Cons.prems(1)] by fastforce
qed simp

lemma aggregated_start: "aggregated [] \<lparr>ag_overall = u ''pass'', ag_merged = [], ag_order = [], ag_scores = []\<rparr>"
  by (simp add: aggregated_def severity_def merged_ok_def reports_def)

lemma severity_ranks:
  "severity s = Some n \<Longrightarrow> (s = u ''pass'' \<longleftrightarrow> n = 0) \<and> (s = u ''fail'' \<longleftrightarrow> n = 2) \<and> n \<le> 2"
  by (auto simp: severity_def split: if_splits)

lemma overall_strictest:
  assumes "aggregated members s"
  shows "(ag_overall s = u ''pass'' \<longleftrightarrow> (\<forall>m\<in>set members. overall_of m = u ''pass''))
    \<and> (ag_overall s = u ''fail'' \<longleftrightarrow> (\<exists>m\<in>set members. overall_of m = u ''fail''))"
proof -
  let ?R = "insert 0 ((\<lambda>m. the (severity (overall_of m))) ` set members)"
  have s: "severity (ag_overall s) = Some (Max ?R)" using assms by (auto simp: aggregated_def)
  have m: "(overall_of m = u ''pass'' \<longleftrightarrow> the (severity (overall_of m)) = 0)
      \<and> (overall_of m = u ''fail'' \<longleftrightarrow> the (severity (overall_of m)) = 2) \<and> the (severity (overall_of m)) \<le> 2" for m
  proof -
    obtain k where "severity (overall_of m) = Some k" using overall_severity by blast
    then show ?thesis using severity_ranks by simp
  qed
  have "Max ?R = 0 \<longleftrightarrow> (\<forall>r\<in>?R. r = 0)"
  proof
    show "\<forall>r\<in>?R. r = 0" if z: "Max ?R = 0"
    proof
      fix r assume "r \<in> ?R"
      then have "r \<le> Max ?R" by (intro Max_ge) simp_all
      then show "r = 0" unfolding z by simp
    qed
    show "Max ?R = 0" if "\<forall>r\<in>?R. r = 0" using that by (intro Max_eqI) auto
  qed
  moreover have "Max ?R = 2 \<longleftrightarrow> 2 \<in> ?R"
  proof
    show "2 \<in> ?R" if "Max ?R = 2" using Max_in [of ?R] that by simp
    show "Max ?R = 2" if "2 \<in> ?R" using that m by (intro Max_eqI) auto
  qed
  ultimately show ?thesis using severity_ranks [OF s] m by auto
qed


lemma truthy_pdict: "truthy (pdict kvs) \<longleftrightarrow> kvs \<noteq> []"
  by (simp add: pdict_def)


text \<open>Two reviewers, both of whom have answered, then a second round with one answer.\<close>

definition two_rounds :: "pyval list" where
  "two_rounds = map (\<lambda>(n, g). pdict [(''step'', PInt n), (''review_group'', PInt g)]) [(1, 1), (2, 1), (3, 2), (4, 2)]"

definition round_approvals :: "pyval list" where
  "round_approvals = map (\<lambda>n. pdict [(''plan_id'', PS ''p''), (''step'', PInt n), (''message_id'', PInt n)]) [1, 2, 3, 4]"

definition round_replies :: "int list \<Rightarrow> pyval list" where
  "round_replies ns = map (\<lambda>n. pdict [(''message_id'', PInt n), (''reply_id'', PInt (n + 10)),
     (''verdict'', pdict [(''overall'', PS ''pass'')])]) ns"

lemma rounds_index:
  "index_by ''step'' (filter is_dict two_rounds) = Inr (map (\<lambda>(n, g). (PInt n, pdict [(''step'', PInt n), (''review_group'', PInt g)]))
     [(1, 1), (2, 1), (3, 2), (4, 2)])"
  "index_by ''step'' (plan_approvals round_approvals (u ''p'')) = Inr (map (\<lambda>n. (PInt n, pdict [(''plan_id'', PS ''p''), (''step'', PInt n), (''message_id'', PInt n)])) [1, 2, 3, 4])"
  by (simp_all add: index_by_def two_rounds_def dict_of_def plan_approvals_def round_approvals_def)

lemma show_int_digit: "0 \<le> n \<Longrightarrow> n < 10 \<Longrightarrow> show_int n = [48 + nat n]"
  by (simp add: show_int_def digits.simps)

lemma rounds_groups:
  "review_group_numbers two_rounds = [(1, 1), (2, 1), (3, 2), (4, 2)]"
  "group_order (by_group [(1, 1), (2, 1), (3, 2), (4, 2)]) = [(2, [3, 4]), (1, [1, 2])]"
  by (simp_all add: review_group_numbers_def two_rounds_def review_group_entry_def group_order_def by_group_def members_of_def)

lemma rounds_status:
  "\<exists>st. latest_group_status two_rounds round_approvals (round_replies [1, 2, 3]) (u ''p'') = Inr (Some st)"
  by (simp add: latest_group_status_def rounds_index rounds_groups reply_of_def show_int_digit Let_def reply_by_message_def round_replies_def with_verdict_def dict_of_def)

theorem group_status_covers_trigger_witness:
  "\<exists>st trigger. latest_group_status two_rounds round_approvals (round_replies [1, 2, 3]) (u ''p'') = Inr (Some st)
     \<and> latest_complete_group two_rounds round_approvals (round_replies [1, 2, 3]) (u ''p'') = Inr trigger"
proof -
  obtain st where st: "latest_group_status two_rounds round_approvals (round_replies [1, 2, 3]) (u ''p'') = Inr (Some st)"
    using rounds_status by blast
  from group_status_covers_trigger [OF st] st show ?thesis by blast
qed

lemma rounds_complete:
  "\<exists>cg. latest_complete_group two_rounds round_approvals (round_replies [1, 2, 3]) (u ''p'') = Inr (Some cg) \<and> cg_group cg = 1"
  by (simp add: latest_complete_group_def rounds_index rounds_groups reply_of_def show_int_digit Let_def reply_by_message_def
      round_replies_def with_verdict_def dict_of_def)

theorem complete_group_is_complete_witness:
  "\<exists>cg. latest_complete_group two_rounds round_approvals (round_replies [1, 2, 3]) (u ''p'') = Inr (Some cg)
     \<and> map (\<lambda>m. dget m ''step'') (cg_members cg) = [PInt 1, PInt 2]"
proof -
  obtain cg where cg: "latest_complete_group two_rounds round_approvals (round_replies [1, 2, 3]) (u ''p'') = Inr (Some cg)"
    "cg_group cg = 1" using rounds_complete by blast
  have "map (\<lambda>m. dget m ''step'') (cg_members cg)
      = map PInt (sort (map fst (filter (\<lambda>(n, g). g = cg_group cg) (review_group_numbers two_rounds))))"
    using complete_group_is_complete [OF cg(1)] by blast
  then show ?thesis using cg by (simp add: rounds_groups)
qed

end
