(* ===== verification/Review_Verdict.thy ===== *)
theory Review_Verdict
  imports PyValue
begin

text \<open>
  \<^verbatim>\<open>src/agentdeck/review_verdict.py\<close>: the shape of a quantified review verdict, the one
  \<^verbatim>\<open>verdict:\<close> line of a reply that carries it, and its alignment with the acceptance criteria of the
  plan step. \<^verbatim>\<open>json.loads\<close> is the argument \<open>loads\<close> (\<open>None\<close> for a \<^verbatim>\<open>JSONDecodeError\<close>).
  Membership of an unhashable value in a \<^verbatim>\<open>frozenset\<close> raises \<^verbatim>\<open>TypeError\<close>.

  The lemmas characterise the accepted verdicts, the four outcomes of parsing a reply, and that the
  alignment accounts for every criterion on both sides.
\<close>

section \<open>The code\<close>

definition invalid_verdict :: "py_exn + 'a" where
  "invalid_verdict = Inl (ValueError ''review verdict is invalid'')"

text \<open>\<^verbatim>\<open>x in {literals}\<close>.\<close>

definition py_in_set :: "pyval \<Rightarrow> string list \<Rightarrow> py_exn + bool" where
  "py_in_set v lits = (if py_hashable v then Inr (v \<in> PS ` set lits) else Inl TypeError)"

definition nonblank_str :: "pyval \<Rightarrow> bool" where
  "nonblank_str v \<longleftrightarrow> (case v of PStr s \<Rightarrow> py_strip s \<noteq> [] | _ \<Rightarrow> False)"

definition CRITERION_VERDICTS :: "string list" where
  "CRITERION_VERDICTS = [''pass'', ''fail'', ''unknown'']"

definition OVERALL_VALUES :: "string list" where
  "OVERALL_VALUES = [''pass'', ''fail'', ''needs_changes'']"

definition REQUIRED_FIELDS :: "string list" where
  "REQUIRED_FIELDS = [''schema_version'', ''criteria'', ''overall'']"

definition OPTIONAL_FIELDS :: "string list" where
  "OPTIONAL_FIELDS = [''score'', ''notes'']"

definition validate_criterion :: "pyval \<Rightarrow> py_exn + unit" where
  "validate_criterion item =
     (if \<not> is_dict item then invalid_verdict
      else if \<not> (u ` {''criterion'', ''verdict''} \<subseteq> dkeys item)
              \<or> dkeys item - u ` {''criterion'', ''verdict'', ''evidence''} \<noteq> {} then invalid_verdict
      else if \<not> nonblank_str (dget item ''criterion'') then invalid_verdict
      else rbind (py_in_set (dget item ''verdict'') CRITERION_VERDICTS) (\<lambda>ok.
        if \<not> ok then invalid_verdict
        else if dhas item ''evidence'' \<and> \<not> nonblank_str (dget item ''evidence'') then invalid_verdict
        else Inr ()))"

definition validate_review_verdict :: "pyval \<Rightarrow> py_exn + pyval" where
  "validate_review_verdict payload =
     (if \<not> is_dict payload then invalid_verdict
      else if \<not> (u ` set REQUIRED_FIELDS \<subseteq> dkeys payload)
              \<or> dkeys payload - (u ` set REQUIRED_FIELDS \<union> u ` set OPTIONAL_FIELDS) \<noteq> {} then invalid_verdict
      else if dget payload ''schema_version'' \<noteq> PS ''review-verdict/v1'' then invalid_verdict
      else (case dget payload ''criteria'' of
          PList criteria \<Rightarrow>
            if criteria = [] then invalid_verdict
            else rbind (rmap validate_criterion criteria) (\<lambda>_.
                 rbind (py_in_set (dget payload ''overall'') OVERALL_VALUES) (\<lambda>ok.
                 if \<not> ok then invalid_verdict
                 else if dhas payload ''score''
                      \<and> \<not> (case dget payload ''score'' of PInt score \<Rightarrow> 0 \<le> score \<and> score \<le> 100 | _ \<Rightarrow> False)
                 then invalid_verdict
                 else if dhas payload ''notes'' \<and> \<not> nonblank_str (dget payload ''notes'') then invalid_verdict
                 else Inr payload))
        | _ \<Rightarrow> invalid_verdict))"

text \<open>\<^verbatim>\<open>str.splitlines\<close>.\<close>

definition is_linebreak :: "nat \<Rightarrow> bool" where
  "is_linebreak c \<longleftrightarrow> 10 \<le> c \<and> c \<le> 13 \<or> 28 \<le> c \<and> c \<le> 30 \<or> c = 133 \<or> c = 8232 \<or> c = 8233"

fun splitlines_acc :: "pstr \<Rightarrow> pstr \<Rightarrow> pstr list" where
  "splitlines_acc acc [] = (if acc = [] then [] else [rev acc])"
| "splitlines_acc acc [c] = (if is_linebreak c then [rev acc] else [rev (c # acc)])"
| "splitlines_acc acc (c # d # cs) =
     (if c = 13 \<and> d = 10 then rev acc # splitlines_acc [] cs
      else if is_linebreak c then rev acc # splitlines_acc [] (d # cs)
      else splitlines_acc (c # acc) (d # cs))"

definition splitlines :: "pstr \<Rightarrow> pstr list" where
  "splitlines s = splitlines_acc [] s"

definition verdict_lines :: "pstr \<Rightarrow> pstr list" where
  "verdict_lines text =
     map (\<lambda>stripped. py_strip (drop (length (u ''verdict:'')) stripped))
       (filter (\<lambda>stripped. py_startswith stripped (u ''verdict:'')) (map py_strip (splitlines text)))"

definition parse_verdict_line :: "(pstr \<Rightarrow> pyval option) \<Rightarrow> pyval \<Rightarrow> py_exn + pyval option" where
  "parse_verdict_line loads text =
     (case text of
        PStr t \<Rightarrow>
          (case verdict_lines t of
             [] \<Rightarrow> Inr None
           | [line] \<Rightarrow>
               (case loads line of
                  None \<Rightarrow> invalid_verdict
                | Some payload \<Rightarrow> rbind (validate_review_verdict payload) (\<lambda>v. Inr (Some v)))
           | _ \<Rightarrow> invalid_verdict)
      | _ \<Rightarrow> invalid_verdict)"

record alignment =
  al_criteria_total :: nat
  al_passed :: nat
  al_failed :: nat
  al_unknown :: nat
  al_overall :: pyval
  al_score :: pyval
  al_unverified :: "pstr list"
  al_extra :: "pyval list"

text \<open>\<^verbatim>\<open>counts[item["verdict"]] += 1\<close>.\<close>

definition count_verdict :: "pyval \<Rightarrow> nat \<times> nat \<times> nat \<Rightarrow> py_exn + nat \<times> nat \<times> nat" where
  "count_verdict item counts =
     (let (p, f, k) = counts; v = dget item ''verdict'' in
      if v = PS ''pass'' then Inr (Suc p, f, k)
      else if v = PS ''fail'' then Inr (p, Suc f, k)
      else if v = PS ''unknown'' then Inr (p, f, Suc k)
      else Inl KeyError)"

fun count_verdicts :: "pyval list \<Rightarrow> nat \<times> nat \<times> nat \<Rightarrow> py_exn + nat \<times> nat \<times> nat" where
  "count_verdicts [] counts = Inr counts"
| "count_verdicts (item # items) counts = rbind (count_verdict item counts) (count_verdicts items)"

definition align_verdict_with_criteria :: "pyval \<Rightarrow> pstr list option \<Rightarrow> py_exn + alignment" where
  "align_verdict_with_criteria verdict acceptance_criteria =
     rbind (validate_review_verdict verdict) (\<lambda>validated.
       let criteria = list_items (dget validated ''criteria'');
           verdict_texts = map (\<lambda>item. dget item ''criterion'') criteria
       in rbind (count_verdicts criteria (0, 0, 0)) (\<lambda>(passed, failed, unknown).
          Inr \<lparr>al_criteria_total = length criteria, al_passed = passed, al_failed = failed, al_unknown = unknown,
               al_overall = dget validated ''overall'', al_score = dget validated ''score'',
               al_unverified = (case acceptance_criteria of None \<Rightarrow> []
                  | Some ac \<Rightarrow> filter (\<lambda>c. PStr c \<notin> set verdict_texts) ac),
               al_extra = (case acceptance_criteria of None \<Rightarrow> []
                  | Some ac \<Rightarrow> filter (\<lambda>t. t \<notin> PStr ` set ac) verdict_texts)\<rparr>))"

section \<open>Accepted verdicts\<close>

definition criterion_wf :: "pyval \<Rightarrow> bool" where
  "criterion_wf item \<longleftrightarrow> is_dict item \<and> u ` {''criterion'', ''verdict''} \<subseteq> dkeys item
     \<and> dkeys item \<subseteq> u ` {''criterion'', ''verdict'', ''evidence''} \<and> nonblank_str (dget item ''criterion'')
     \<and> dget item ''verdict'' \<in> PS ` set CRITERION_VERDICTS \<and> (dhas item ''evidence'' \<longrightarrow> nonblank_str (dget item ''evidence''))"

definition verdict_wf :: "pyval \<Rightarrow> bool" where
  "verdict_wf v \<longleftrightarrow> is_dict v \<and> u ` set REQUIRED_FIELDS \<subseteq> dkeys v
     \<and> dkeys v \<subseteq> u ` set REQUIRED_FIELDS \<union> u ` set OPTIONAL_FIELDS
     \<and> dget v ''schema_version'' = PS ''review-verdict/v1''
     \<and> (\<exists>cs. dget v ''criteria'' = PList cs \<and> cs \<noteq> [] \<and> list_all criterion_wf cs)
     \<and> dget v ''overall'' \<in> PS ` set OVERALL_VALUES
     \<and> (dhas v ''score'' \<longrightarrow> (\<exists>n. dget v ''score'' = PInt n \<and> 0 \<le> n \<and> n \<le> 100))
     \<and> (dhas v ''notes'' \<longrightarrow> nonblank_str (dget v ''notes''))"

lemma py_in_set_eq_Inr: "py_in_set v lits = Inr b \<longleftrightarrow> py_hashable v \<and> (b \<longleftrightarrow> v \<in> PS ` set lits)"
  by (auto simp: py_in_set_def)

lemma invalid_not_Inr [simp]: "invalid_verdict \<noteq> Inr v" "Inr v \<noteq> invalid_verdict"
  by (simp_all add: invalid_verdict_def)

lemma PS_hashable: "v \<in> PS ` X \<Longrightarrow> py_hashable v"
  by auto

lemma validate_criterion_ok: "validate_criterion item = Inr x \<longleftrightarrow> criterion_wf item"
proof -
  have "dkeys item - u ` {''criterion'', ''verdict'', ''evidence''} = {} \<longleftrightarrow> dkeys item \<subseteq> u ` {''criterion'', ''verdict'', ''evidence''}"
    by blast
  then show ?thesis
    by (auto simp: validate_criterion_def criterion_wf_def rbind_eq_Inr py_in_set_eq_Inr split: if_splits dest: PS_hashable
        simp del: image_insert)
qed

lemma rmap_unit_ok: "(\<exists>ys. rmap validate_criterion xs = Inr ys) \<longleftrightarrow> list_all criterion_wf xs"
  by (induction xs) (auto simp: rbind_eq_Inr validate_criterion_ok)

lemma validate_ok: "validate_review_verdict payload = Inr v \<longleftrightarrow> v = payload \<and> verdict_wf payload"
proof (cases "dget payload ''criteria''")
  case (PList cs)
  have "dkeys payload - (u ` set REQUIRED_FIELDS \<union> u ` set OPTIONAL_FIELDS) = {}
      \<longleftrightarrow> dkeys payload \<subseteq> u ` set REQUIRED_FIELDS \<union> u ` set OPTIONAL_FIELDS" by blast
  moreover have "(case s of PInt score \<Rightarrow> 0 \<le> score \<and> score \<le> 100 | _ \<Rightarrow> False) \<longleftrightarrow> (\<exists>n. s = PInt n \<and> 0 \<le> n \<and> n \<le> 100)" for s
    by (cases s) auto
  ultimately show ?thesis using PList
    by (auto simp: validate_review_verdict_def verdict_wf_def rbind_eq_Inr py_in_set_eq_Inr rmap_unit_ok split: if_splits
        dest: PS_hashable)
qed (auto simp: validate_review_verdict_def verdict_wf_def)

text \<open>
  C25: validate_review_verdict returns its argument unchanged exactly on the dictionaries of the schema
  (the three required fields, at most the two optional ones, a non-empty list of well-formed criteria,
  legal overall, score from 0 to 100); every other value raises ValueError, or TypeError for an
  unhashable verdict field, which parse_verdict_line lets through.
\<close>
theorem verdict_schema_exact:
  "(validate_review_verdict payload = Inr v \<longleftrightarrow> v = payload \<and> verdict_wf payload)
   \<and> (\<not> verdict_wf payload \<longrightarrow> validate_review_verdict payload \<in> {invalid_verdict, Inl TypeError})"
proof (cases "verdict_wf payload")
  case True
  then show ?thesis by (simp add: validate_ok)
next
  case False
  have c: "validate_criterion i \<in> {Inr (), invalid_verdict, Inl TypeError}" for i
    by (auto simp: validate_criterion_def py_in_set_def)
  have "rmap validate_criterion cs = Inl e \<Longrightarrow> Inl e \<in> {invalid_verdict, Inl TypeError}" for cs :: "pyval list" and e
  proof (induction cs)
    case (Cons i cs)
    then show ?case using c [of i] by (auto simp: rbind_eq_Inl invalid_verdict_def)
  qed simp
  then have r: "rmap validate_criterion cs \<in> {invalid_verdict, Inl TypeError} \<or> (\<exists>ys. rmap validate_criterion cs = Inr ys)" for cs
    by (cases "rmap validate_criterion cs") (auto simp: invalid_verdict_def)
  have "validate_review_verdict payload \<in> {Inr payload, invalid_verdict, Inl TypeError}"
  proof (cases "dget payload ''criteria''")
    case (PList cs)
    then show ?thesis using r [of cs]
      by (elim disjE) (auto simp: validate_review_verdict_def py_in_set_def invalid_verdict_def)
  qed (simp_all add: validate_review_verdict_def)
  then show ?thesis using False by (auto simp: validate_ok)
qed

definition ex_verdict :: pyval where
  "ex_verdict = pdict [(''schema_version'', PS ''review-verdict/v1''),
     (''criteria'', PList [pdict [(''criterion'', PS ''a''), (''verdict'', PS ''pass'')],
                           pdict [(''criterion'', PS ''b''), (''verdict'', PS ''fail'')]]),
     (''overall'', PS ''fail''), (''score'', PInt 40)]"

lemma ex_verdict_wf: "verdict_wf ex_verdict"
proof -
  have "py_strip (u ''a'') \<noteq> []" "py_strip (u ''b'') \<noteq> []"
    by (rule nonblank_literal; simp add: space_chars_def)+
  then show ?thesis
    by (auto simp: verdict_wf_def ex_verdict_def criterion_wf_def nonblank_str_def REQUIRED_FIELDS_def OPTIONAL_FIELDS_def
        CRITERION_VERDICTS_def OVERALL_VALUES_def)
qed

theorem verdict_schema_exact_witness:
  "validate_review_verdict ex_verdict = Inr ex_verdict \<and> validate_review_verdict (PInt 3) \<in> {invalid_verdict, Inl TypeError}"
proof -
  have "\<not> verdict_wf (PInt 3)" by (simp add: verdict_wf_def)
  then show ?thesis
    using verdict_schema_exact [of ex_verdict ex_verdict] verdict_schema_exact [of "PInt 3"] ex_verdict_wf by blast
qed

text \<open>
  A reply without a verdict line is left alone; with two or more, or with one that is not JSON or
  not of the schema, parsing raises; and a verdict is returned only for a reply with exactly one
  verdict line, whose JSON value it is.
\<close>
theorem parse_verdict_outcomes:
  "(verdict_lines t = [] \<longleftrightarrow> parse_verdict_line loads (PStr t) = Inr None)
   \<and> (parse_verdict_line loads (PStr t) = Inr (Some v) \<longleftrightarrow>
        (\<exists>line. verdict_lines t = [line] \<and> loads line = Some v \<and> verdict_wf v))
   \<and> (length (verdict_lines t) > 1 \<longrightarrow> parse_verdict_line loads (PStr t) = invalid_verdict)"
proof -
  consider "verdict_lines t = []" | line where "verdict_lines t = [line]" | a b r where "verdict_lines t = a # b # r"
    by (metis neq_Nil_conv)
  then show ?thesis
  proof cases
    case 2
    then show ?thesis
      by (cases "loads line") (auto simp: parse_verdict_line_def rbind_eq_Inr validate_ok)
  qed (auto simp: parse_verdict_line_def)
qed

definition ex_loads :: "pstr \<Rightarrow> pyval option" where
  "ex_loads s = (if s = u ''x'' then Some ex_verdict else None)"

lemma count_verdicts_ok:
  "list_all criterion_wf cs \<Longrightarrow> count_verdicts cs (p, f, k)
     = Inr (p + length (filter (\<lambda>c. dget c ''verdict'' = PS ''pass'') cs), f + length (filter (\<lambda>c. dget c ''verdict'' = PS ''fail'') cs),
            k + length (filter (\<lambda>c. dget c ''verdict'' = PS ''unknown'') cs))"
  by (induction cs arbitrary: p f k) (auto simp: count_verdict_def criterion_wf_def CRITERION_VERDICTS_def)

lemma verdict_partition:
  "list_all criterion_wf cs \<Longrightarrow> length (filter (\<lambda>c. dget c ''verdict'' = PS ''pass'') cs)
     + length (filter (\<lambda>c. dget c ''verdict'' = PS ''fail'') cs) + length (filter (\<lambda>c. dget c ''verdict'' = PS ''unknown'') cs) = length cs"
  by (induction cs) (auto simp: criterion_wf_def CRITERION_VERDICTS_def)

text \<open>
  The alignment of a valid verdict always succeeds and accounts for everything: passed, failed and
  unknown add up to the total, which is positive; unverified are exactly the acceptance criteria the
  verdict does not mention and extra exactly the verdict's criteria that were not asked for, so both
  are empty exactly when the two sides name the same criteria.
\<close>
theorem alignment_accounts:
  assumes "verdict_wf v"
  shows "\<exists>al. align_verdict_with_criteria v (Some ac) = Inr al
    \<and> al_passed al + al_failed al + al_unknown al = al_criteria_total al \<and> al_criteria_total al > 0
    \<and> (al_unverified al = [] \<and> al_extra al = [] \<longleftrightarrow>
         PStr ` set ac = (\<lambda>c. dget c ''criterion'') ` set (list_items (dget v ''criteria'')))
    \<and> set (al_unverified al) = {c \<in> set ac. PStr c \<notin> (\<lambda>c. dget c ''criterion'') ` set (list_items (dget v ''criteria''))}"
proof -
  obtain cs where cs: "dget v ''criteria'' = PList cs" "cs \<noteq> []" "list_all criterion_wf cs"
    using assms by (auto simp: verdict_wf_def)
  have "validate_review_verdict v = Inr v" using assms by (simp add: validate_ok)
  then show ?thesis
    using cs verdict_partition [OF cs(3)]
    by (auto simp: align_verdict_with_criteria_def count_verdicts_ok filter_empty_conv Let_def)
qed

theorem alignment_accounts_witness:
  "\<exists>al. align_verdict_with_criteria ex_verdict (Some [u ''a'', u ''c'']) = Inr al \<and> set (al_unverified al) = {u ''c''}"
proof -
  have "{c \<in> set [u ''a'', u ''c'']. PStr c \<notin> (\<lambda>c. dget c ''criterion'') ` set (list_items (dget ex_verdict ''criteria''))} = {u ''c''}"
    by (auto simp: ex_verdict_def)
  then show ?thesis using alignment_accounts [OF ex_verdict_wf, of "[u ''a'', u ''c'']"] by auto
qed

theorem parse_verdict_outcomes_witness:
  "parse_verdict_line ex_loads (PS ''verdict: x'') = Inr (Some ex_verdict)
   \<and> parse_verdict_line ex_loads (PStr (u ''verdict: x'' @ [10] @ u ''verdict: x'')) = invalid_verdict"
proof -
  have one: "verdict_lines (u ''verdict: x'') = [u ''x'']"
    by (simp add: verdict_lines_def splitlines_def u_def is_linebreak_def py_strip_def is_space_def py_startswith_def)
  have two: "length (verdict_lines (u ''verdict: x'' @ [10] @ u ''verdict: x'')) > 1"
    by (simp add: verdict_lines_def splitlines_def u_def is_linebreak_def py_strip_def is_space_def py_startswith_def)
  have "\<exists>line. verdict_lines (u ''verdict: x'') = [line] \<and> ex_loads line = Some ex_verdict \<and> verdict_wf ex_verdict"
    by (simp add: one ex_loads_def ex_verdict_wf)
  then show ?thesis
    using parse_verdict_outcomes [of "u ''verdict: x''" ex_loads ex_verdict]
      parse_verdict_outcomes [of "u ''verdict: x'' @ [10] @ u ''verdict: x''" ex_loads] two by blast
qed

end
