(* ===== verification/Review_Iteration.thy ===== *)
theory Review_Iteration
  imports Review_Group Review_Verdict
begin

text \<open>
  \<^verbatim>\<open>src/agentdeck/review_iteration.py\<close> and \<^verbatim>\<open>StateStore.append_review_iteration\<close>: from a
  review verdict of a plan that did not pass, the rework step and the re-review steps to append. The
  ledger is a dictionary with the keys \<^verbatim>\<open>plans\<close>, \<^verbatim>\<open>approvals\<close>, \<^verbatim>\<open>replies\<close> and
  \<^verbatim>\<open>messages\<close>. The fixed Chinese texts are lists of code points.

  The lemmas show what must hold when an iteration is derived, that a plan can be iterated at most
  \<^verbatim>\<open>max_review_rounds\<close> times however the ledger changes in between, each time for another
  reply, that a rework step's own verdict is never taken for a review, and the bounds on the texts.
\<close>

section \<open>Fixed texts\<close>

definition REWORK_TASK_FOOTER :: pstr where
  "REWORK_TASK_FOOTER = [20462, 22797, 21518, 32, 99, 111, 109, 109, 105, 116, 32, 21040, 20219, 21153, 20998, 25903, 12290]"

definition txt_round_open :: pstr where
  "txt_round_open = [82, 101, 118, 105, 101, 119, 32, 31532, 32]"

definition txt_round_close :: pstr where
  "txt_round_close = [32, 36718, 26410, 36890, 36807, 44, 25353, 23457, 26597, 24847, 35265, 36820, 24037, 12290]"

definition txt_original_task :: pstr where
  "txt_original_task = [21407, 20219, 21153, 58, 32]"

definition txt_overall :: pstr where
  "txt_overall = [23457, 26597, 21028, 23450, 58, 32]"

definition txt_failed :: pstr where
  "txt_failed = [26410, 36890, 36807, 30340, 39564, 25910, 26631, 20934, 58]"

definition txt_evidence :: pstr where
  "txt_evidence = [32, 40, 35777, 25454, 58, 32]"

definition txt_review_text :: pstr where
  "txt_review_text = [23457, 26597, 24847, 35265, 21407, 25991, 58]"

definition txt_truncated :: pstr where
  "txt_truncated = [91, 23457, 26597, 24847, 35265, 24050, 25130, 26029, 44, 20840, 25991, 35265, 32]"

definition txt_judged :: pstr where
  "txt_judged = [21028, 23450, 58, 32]"

definition txt_refine_1 :: pstr where
  "txt_refine_1 = [20320, 26159, 36719, 20214, 39033, 30446, 30340, 32, 76, 101, 97, 100, 101, 114, 12290, 19979, 38754,
     26159, 19968, 27425, 20195, 30721, 23457, 26597, 26410, 36890, 36807, 30340, 35760, 24405, 12290]"

definition txt_refine_2 :: pstr where
  "txt_refine_2 = [35831, 25226, 23457, 26597, 24847, 35265, 25552, 28860, 25104, 19968, 20221, 32858, 28966, 12289, 21487,
     25191, 34892, 30340, 36820, 24037, 20219, 21153, 44, 30452, 25509, 20889, 32473, 23454, 29616,
     32773, 30475, 12290]"

definition txt_refine_3 :: pstr where
  "txt_refine_3 = [21482, 36755, 20986, 36820, 24037, 20219, 21153, 27491, 25991, 26412, 36523, 58, 19981, 35201, 21069,
     35328, 12289, 19981, 35201, 26631, 39064, 12289, 19981, 35201, 20195, 30721, 22359, 21253, 35065,
     12290]"

definition txt_refine_4 :: pstr where
  "txt_refine_4 = [21482, 20381, 25454, 19979, 38754, 32473, 20986, 30340, 20107, 23454, 44, 19981, 35201, 33222, 36896,
     26410, 25552, 21040, 30340, 38382, 39064, 44, 20063, 19981, 35201, 25913, 21160, 20219, 21153,
     30340, 36127, 36131, 20154, 25110, 27493, 39588, 32467, 26500, 12290]"

definition txt_refine_truncated :: pstr where
  "txt_refine_truncated = [91, 24847, 35265, 36807, 38271, 44, 24050, 25130, 26029, 93]"

definition txt_refine_by_reviewer :: pstr where
  "txt_refine_by_reviewer = [23457, 26597, 24847, 35265, 21407, 25991, 40, 25353, 32, 114, 101, 118, 105, 101, 119, 101, 114, 32,
     20998, 27573, 41, 58]"

definition MAX_REWORK_TASK_CHARS :: nat where
  "MAX_REWORK_TASK_CHARS = 4000"

section \<open>Rounds and consumed replies\<close>

definition is_iteration_step :: "pyval \<Rightarrow> bool" where
  "is_iteration_step step \<longleftrightarrow> is_dict step \<and> py_eq (dget step ''origin'') (PS ''review_iteration'')"

definition plan_review_rounds :: "pyval list \<Rightarrow> int" where
  "plan_review_rounds steps =
     fold (\<lambda>step rounds. if \<not> is_iteration_step step then rounds
        else case num_of (dget step ''round'') of Some value \<Rightarrow> (if value > rounds then value else rounds) | None \<Rightarrow> rounds) steps 0"

definition rework_step_numbers :: "pyval list \<Rightarrow> int set" where
  "rework_step_numbers steps =
     set (List.map_filter (\<lambda>step.
        if \<not> is_iteration_step step \<or> \<not> py_eq (dget step ''iteration_kind'') (PS ''rework'') then None
        else case dget step ''step'' of PInt value \<Rightarrow> Some value | _ \<Rightarrow> None) steps)"

definition consumed_reply_ids :: "pyval list \<Rightarrow> pstr set" where
  "consumed_reply_ids steps =
     set (List.map_filter (\<lambda>step.
        if is_iteration_step step \<and> truthy (dget step ''triggered_by_reply'')
        then Some (py_str (dget step ''triggered_by_reply'')) else None) steps)"

section \<open>Selecting the verdict\<close>

text \<open>\<^verbatim>\<open>state.get(k, [])\<close>, iterated.\<close>

definition ledger_items :: "pyval \<Rightarrow> string \<Rightarrow> py_exn + pyval list" where
  "ledger_items state k = py_iter (dget_or state k (PList []))"

text \<open>
  \<^verbatim>\<open>approval.get("step") not in excluded_steps\<close>, asked only of approvals that pass the tests
  before it.
\<close>

fun approvals_by_message :: "pstr \<Rightarrow> int set \<Rightarrow> pyval list \<Rightarrow> (pstr \<times> pyval) list \<Rightarrow> py_exn + (pstr \<times> pyval) list" where
  "approvals_by_message plan_id excluded [] d = Inr d"
| "approvals_by_message plan_id excluded (a # as) d =
     (if is_dict a \<and> py_eq (dget a ''plan_id'') (PStr plan_id) \<and> truthy (dget a ''message_id'')
      then if \<not> py_hashable (dget a ''step'') then Inl TypeError
           else if num_of (dget a ''step'') \<in> Some ` excluded then approvals_by_message plan_id excluded as d
           else approvals_by_message plan_id excluded as (dict_put (py_str (dget a ''message_id'')) a d)
      else approvals_by_message plan_id excluded as d)"

definition latest_verdict_reply :: "pyval \<Rightarrow> pstr \<Rightarrow> pyval list \<Rightarrow> py_exn + (pyval \<times> pyval) option" where
  "latest_verdict_reply state plan_id steps =
     rbind (ledger_items state ''approvals'') (\<lambda>approvals.
     rbind (approvals_by_message plan_id (rework_step_numbers steps) approvals []) (\<lambda>by_message.
     rbind (ledger_items state ''replies'') (\<lambda>replies.
     Inr (fold (\<lambda>reply latest.
        if \<not> with_verdict reply then latest
        else case map_of by_message (py_str (dget reply ''message_id'')) of
               None \<Rightarrow> latest
             | Some approval \<Rightarrow> Some (reply, approval)) replies None))))"

record selection =
  sel_verdict :: pyval
  sel_reply_id :: pstr
  sel_reply_text :: pstr
  sel_approval :: "pyval option"
  sel_members :: "pyval list option"
  sel_group :: "int option"
  sel_complete :: bool

text \<open>What the two group functions return, in one shape.\<close>

definition selected_group ::
    "bool \<Rightarrow> pyval list \<Rightarrow> pyval list \<Rightarrow> pyval list \<Rightarrow> pstr \<Rightarrow> py_exn + (int \<times> pyval list \<times> pyval \<times> bool) option" where
  "selected_group require_complete steps approvals replies plan_id =
     (if require_complete
      then rbind (latest_complete_group steps approvals replies plan_id) (\<lambda>g.
             Inr (map_option (\<lambda>cg. (cg_group cg, cg_members cg, cg_last_reply_id cg, True)) g))
      else rbind (latest_group_status steps approvals replies plan_id) (\<lambda>g.
             Inr (map_option (\<lambda>gs. (gs_group gs, gs_members gs,
                (case gs_last_reply_id gs of None \<Rightarrow> PNone | Some r \<Rightarrow> PStr r), gs_complete gs)) g)))"

definition group_selection :: "bool \<Rightarrow> pyval list \<Rightarrow> pyval list \<Rightarrow> pyval list \<Rightarrow> pstr \<Rightarrow> py_exn + selection option" where
  "group_selection require_complete steps approvals replies plan_id =
     rbind (selected_group require_complete steps approvals replies plan_id) (\<lambda>group.
     case group of
       None \<Rightarrow> Inr None
     | Some (grp, members, last_reply_id, complete) \<Rightarrow>
         let reported = filter (\<lambda>m. truthy (dget m ''verdict'')) members;
             approval = find (\<lambda>a. py_eq (dget a ''plan_id'') (PStr plan_id)
                                  \<and> py_eq (dget a ''step'') (dget (hd members) ''step'')) approvals;
             texts = dict_of (map (\<lambda>r. (py_str (dget r ''reply_id''), py_str (py_or (dget r ''text'') (PS [])))) replies)
         in if reported = [] then Inr None
            else if approval = None \<and> require_complete then Inr None
            else rbind (aggregate_group_verdicts reported) (\<lambda>aggregate.
              Inr (Some \<lparr>
                sel_verdict = dputs (case dget aggregate ''score'' of PInt n \<Rightarrow> [(''score'', PInt n)] | _ \<Rightarrow> [])
                  (pdict [(''schema_version'', PS ''review-verdict/v1''), (''criteria'', dget aggregate ''criteria''),
                          (''overall'', dget aggregate ''overall'')]),
                sel_reply_id = py_str last_reply_id, sel_reply_text = [], sel_approval = approval,
                sel_members = Some (map (\<lambda>m. pdict [(''agent_id'', dget m ''agent_id''), (''step'', dget m ''step''),
                    (''reply_id'', dget m ''reply_id''), (''verdict'', py_or (dget m ''verdict'') (PDict [])),
                    (''text'', PStr (case map_of texts (py_str (dget m ''reply_id'')) of None \<Rightarrow> [] | Some t \<Rightarrow> t))]) members),
                sel_group = Some grp, sel_complete = complete\<rparr>)))"

definition select_plan_verdict :: "pyval \<Rightarrow> pstr \<Rightarrow> pyval \<Rightarrow> bool \<Rightarrow> py_exn + selection option" where
  "select_plan_verdict state plan_id steps_value require_complete =
     (let steps = list_items steps_value in
      if review_group_numbers steps = []
      then rbind (latest_verdict_reply state plan_id steps) (\<lambda>latest.
             Inr (map_option (\<lambda>(reply, approval).
               \<lparr>sel_verdict = dget reply ''verdict'', sel_reply_id = py_str (dget reply ''reply_id''),
                sel_reply_text = py_str (py_or (dget reply ''text'') (PS [])), sel_approval = Some approval,
                sel_members = None, sel_group = None, sel_complete = True\<rparr>) latest))
      else rbind (ledger_items state ''approvals'') (\<lambda>approvals.
           rbind (ledger_items state ''replies'') (\<lambda>replies.
           group_selection require_complete steps (filter is_dict approvals) (filter is_dict replies) plan_id)))"

section \<open>The implementation step\<close>

text \<open>One approval of the loop: the best with a branch, the best dispatched.\<close>

definition implementation_step ::
    "(pstr \<times> pyval) list \<Rightarrow> pstr \<Rightarrow> int \<Rightarrow> pyval \<Rightarrow> (int \<times> pyval) option \<times> (int \<times> pyval) option
      \<Rightarrow> (int \<times> pyval) option \<times> (int \<times> pyval) option" where
  "implementation_step messages plan_id review_step approval best =
     (if \<not> is_dict approval \<or> \<not> py_eq (dget approval ''plan_id'') (PStr plan_id) then best
      else case py_int_or_0 (dget approval ''step'') of
        Inl _ \<Rightarrow> best
      | Inr step \<Rightarrow>
          if step \<ge> review_step \<or> \<not> truthy (dget approval ''message_id'') then best
          else let message = (case map_of messages (py_str (dget approval ''message_id'')) of None \<Rightarrow> PDict [] | Some m \<Rightarrow> m);
                   better = (\<lambda>b. case b of None \<Rightarrow> True | Some (n, _) \<Rightarrow> step > n);
                   (best_branch, best_dispatched) = best
               in (if truthy (dget message ''worktree_branch'') \<and> better best_branch then Some (step, approval) else best_branch,
                   if better best_dispatched then Some (step, approval) else best_dispatched))"

definition implementation_approval :: "pyval \<Rightarrow> pstr \<Rightarrow> int \<Rightarrow> py_exn + pyval option" where
  "implementation_approval state plan_id review_step =
     rbind (ledger_items state ''messages'') (\<lambda>messages.
     rbind (ledger_items state ''approvals'') (\<lambda>approvals.
     let by_id = dict_of (map (\<lambda>m. (py_str (dget m ''message_id''), m)) (filter is_dict messages));
         (best_branch, best_dispatched) = fold (implementation_step by_id plan_id review_step) approvals (None, None)
     in Inr (map_option snd (if best_branch \<noteq> None then best_branch else best_dispatched))))"

section \<open>Texts\<close>

text \<open>\<^verbatim>\<open>text[:n]\<close>, for a negative \<open>n\<close> too.\<close>

definition py_slice_to :: "int \<Rightarrow> 'a list \<Rightarrow> 'a list" where
  "py_slice_to n xs = (if n \<ge> 0 then take (nat n) xs else take (length xs - nat (- n)) xs)"

definition failed_criteria :: "pyval \<Rightarrow> py_exn + pyval list" where
  "failed_criteria verdict =
     rbind (py_iter (dget_or verdict ''criteria'' (PList []))) (\<lambda>items.
       Inr (filter (\<lambda>item. is_dict item \<and> py_eq (dget item ''verdict'') (PS ''fail'')) items))"

definition criterion_entry :: "pyval \<Rightarrow> pstr" where
  "criterion_entry item =
     u ''- '' @ py_str (dget item ''criterion'')
     @ (if truthy (dget item ''evidence'') then txt_evidence @ py_str (dget item ''evidence'') @ u '')'' else [])"

definition failed_lines :: "pyval list \<Rightarrow> pstr list" where
  "failed_lines failed = (if failed = [] then [] else txt_failed # map criterion_entry failed)"

definition member_block :: "pyval \<Rightarrow> py_exn + pstr list" where
  "member_block member =
     (let verdict = py_or (dget member ''verdict'') (PDict []); overall = py_str (dget verdict ''overall'') in
      if \<not> is_dict member \<or> \<not> is_dict verdict then Inl AttributeError
      else if overall = u ''pass'' then Inr []
      else rbind (failed_criteria verdict) (\<lambda>failed.
        let text = py_str (py_or (dget member ''text'') (PS []))
        in Inr [py_join [10] ([u ''### reviewer '' @ py_str (dget member ''agent_id''), txt_judged @ overall]
                 @ failed_lines failed @ (if text = [] then [] else [text]))]))"

definition build_group_review_text :: "pyval list \<Rightarrow> py_exn + pstr" where
  "build_group_review_text members =
     rbind (rmap member_block members) (\<lambda>blocks. Inr (py_join [10, 10] (concat blocks)))"

definition score_suffix :: "pyval \<Rightarrow> pstr" where
  "score_suffix score = (if num_of score \<noteq> None then u '' (score '' @ py_str score @ u '')'' else [])"

definition rework_marker :: "pstr \<Rightarrow> pstr list option \<Rightarrow> pstr" where
  "rework_marker reply_id trace_ids =
     (let ids = (case trace_ids of None \<Rightarrow> [reply_id] | Some [] \<Rightarrow> [reply_id] | Some ts \<Rightarrow> ts);
          pointers = py_join (u '' / '') (map (\<lambda>t. u ''agentdeck trace --id '' @ t) ids)
      in [10] @ txt_truncated @ pointers @ u '']'' @ [10] @ REWORK_TASK_FOOTER)"

text \<open>The template before truncation.\<close>

definition rework_text :: "int \<Rightarrow> pstr \<Rightarrow> pyval \<Rightarrow> pyval list \<Rightarrow> pstr \<Rightarrow> pstr" where
  "rework_text round_number original_task verdict failed reply_text =
     (let header = [txt_round_open @ show_int round_number @ txt_round_close, txt_original_task @ original_task,
                    txt_overall @ py_str (dget verdict ''overall'') @ score_suffix (dget verdict ''score'')] @ failed_lines failed
      in py_join [10] (header @ [txt_review_text, reply_text, REWORK_TASK_FOOTER]))"

definition build_rework_task ::
    "int \<Rightarrow> pstr \<Rightarrow> pyval \<Rightarrow> pstr \<Rightarrow> pstr \<Rightarrow> pstr list option \<Rightarrow> py_exn + pstr" where
  "build_rework_task round_number original_task verdict reply_id reply_text trace_ids =
     rbind (failed_criteria verdict) (\<lambda>failed.
       let text = rework_text round_number original_task verdict failed reply_text;
           marker = rework_marker reply_id trace_ids
       in Inr (if length text > MAX_REWORK_TASK_CHARS
               then py_slice_to (int MAX_REWORK_TASK_CHARS - int (length marker)) text @ marker
               else text))"

definition build_refine_prompt :: "pstr \<Rightarrow> pyval \<Rightarrow> pyval list option \<Rightarrow> py_exn + pstr" where
  "build_refine_prompt original_task verdict members =
     rbind (failed_criteria verdict) (\<lambda>failed.
     rbind (case members of None \<Rightarrow> Inr [] | Some [] \<Rightarrow> Inr [] | Some ms \<Rightarrow> build_group_review_text ms) (\<lambda>text.
       let review_text = (if length text > MAX_REWORK_TASK_CHARS then take MAX_REWORK_TASK_CHARS text @ [10] @ txt_refine_truncated else text);
           lines = [txt_refine_1, txt_refine_2, txt_refine_3, txt_refine_4, [], txt_original_task @ original_task,
                    txt_overall @ py_str (dget verdict ''overall'') @ score_suffix (dget verdict ''score'')]
             @ failed_lines failed @ (if review_text = [] then [] else [[], txt_refine_by_reviewer, review_text])
       in Inr (py_join [10] lines)))"

definition footer_key :: "pstr \<Rightarrow> pstr" where
  "footer_key text = filter (\<lambda>ch. \<not> is_space ch \<and> ch \<notin> {12290, 46}) text"

definition has_rework_footer :: "pstr \<Rightarrow> bool" where
  "has_rework_footer text =
     (let tail = drop (length text - length REWORK_TASK_FOOTER * 3) text
      in py_in (footer_key REWORK_TASK_FOOTER) (footer_key tail))"

definition validate_refined_task :: "pyval \<Rightarrow> py_exn + pstr" where
  "validate_refined_task text =
     (case text of
        PStr t \<Rightarrow>
          let stripped = py_strip t in
          if stripped = [] then Inl (ValueError ''refined task must not be empty'')
          else let normalized = (if has_rework_footer stripped then stripped else stripped @ [10] @ REWORK_TASK_FOOTER)
               in if length normalized > MAX_REWORK_TASK_CHARS then Inl (ValueError ''refined task exceeds 4000 chars'')
                  else Inr normalized
      | _ \<Rightarrow> Inl (ValueError ''refined task must be a string''))"

section \<open>Deriving an iteration\<close>

definition binding_pair :: "pyval \<Rightarrow> (pstr \<times> pstr) option" where
  "binding_pair value =
     (case value of PList [a, b] \<Rightarrow> (if truthy a \<and> truthy b then Some (py_str a, py_str b) else None) | _ \<Rightarrow> None)"

definition review_binding_pairs :: "pyval \<Rightarrow> py_exn + (pstr \<times> pstr) list \<times> (pstr \<times> pstr) option" where
  "review_binding_pairs review_binding =
     (let binding = (if is_dict review_binding then review_binding else PDict []) in
      rbind (py_iter (py_or (dget binding ''reviewers'') (PList []))) (\<lambda>items.
        Inr (List.map_filter binding_pair items, binding_pair (dget binding ''round_reviewer''))))"

definition iteration_provenance :: "int \<Rightarrow> pstr \<Rightarrow> (string \<times> pyval) list" where
  "iteration_provenance round_number reply_id =
     [(''origin'', PS ''review_iteration''), (''round'', PInt round_number), (''triggered_by_reply'', PStr reply_id)]"

definition review_step ::
    "int \<Rightarrow> pyval \<Rightarrow> pyval \<Rightarrow> pstr \<Rightarrow> pyval \<Rightarrow> (string \<times> pyval) list \<Rightarrow> (int \<times> int) option \<Rightarrow> pyval" where
  "review_step step agent_id role task risk provenance mark =
     pdict ([(''iteration_kind'', PS ''review''), (''step'', PInt step), (''agent_id'', agent_id), (''role'', role),
             (''task'', PStr task), (''risk'', risk), (''requires_approval'', PBool True)] @ provenance
            @ (case mark of None \<Rightarrow> [] | Some (grp, member) \<Rightarrow> [(''review_group'', PInt grp), (''review_group_member'', PInt member)]))"

datatype skip_reason = No_plan | No_verdict | Verdict_pass | Already_triggered | Rounds_exhausted | No_implementation_step

record iteration =
  it_round :: int
  it_triggered_by_reply :: pstr
  it_rework_step :: pyval
  it_review_steps :: "pyval list"
  it_original_task :: pstr
  it_verdict :: pyval
  it_members :: "pyval list option"

definition find_plan :: "pstr \<Rightarrow> pyval list \<Rightarrow> pyval option" where
  "find_plan plan_id plans = find (\<lambda>p. is_dict p \<and> py_eq (dget p ''plan_id'') (PStr plan_id)) plans"

definition plan_steps_value :: "pyval \<Rightarrow> pyval" where
  "plan_steps_value plan = (let body = dget plan ''plan'' in if is_dict body then dget_or body ''steps'' (PList []) else PList [])"

definition review_steps_for ::
    "pyval list \<Rightarrow> int \<Rightarrow> pyval \<Rightarrow> (string \<times> pyval) list \<Rightarrow> (pstr \<times> pstr) list \<Rightarrow> (pstr \<times> pstr) option \<Rightarrow> pyval list" where
  "review_steps_for steps next_number review_approval provenance reviewers round_reviewer =
     (let review_task = py_str (py_or (dget review_approval ''task'') (PS []));
          review_risk = py_or (dget review_approval ''risk'') (PS ''low'') in
      if reviewers \<noteq> []
      then (let next_group = (case review_group_numbers steps of [] \<Rightarrow> 0 | gs \<Rightarrow> Max (snd ` set gs)) + 1
            in map (\<lambda>(index, (agent_id, role)). review_step (next_number + 1 + int index) (PStr agent_id) (PStr role)
                     review_task review_risk provenance (Some (next_group, int index))) (enumerate 0 reviewers))
      else (case round_reviewer of
              Some (agent_id, role) \<Rightarrow> [review_step (next_number + 1) (PStr agent_id) (PStr role) review_task review_risk provenance None]
            | None \<Rightarrow> [review_step (next_number + 1) (dget review_approval ''agent_id'') (dget review_approval ''role'')
                         review_task review_risk provenance None]))"

text \<open>The reply text and the trace pointers that the rework task quotes.\<close>

definition rework_sources :: "selection \<Rightarrow> py_exn + pstr \<times> pstr list option" where
  "rework_sources s =
     (case sel_members s of
        Some (m # ms) \<Rightarrow>
          rbind (build_group_review_text (m # ms)) (\<lambda>text.
            let ids = map (\<lambda>m. py_str (dget m ''reply_id''))
                        (filter (\<lambda>m. \<not> py_eq (dget (py_or (dget m ''verdict'') (PDict [])) ''overall'') (PS ''pass'')) (m # ms))
            in Inr (text, Some (if ids = [] then [sel_reply_id s] else ids)))
      | _ \<Rightarrow> Inr (sel_reply_text s, None))"

definition derive_steps ::
    "pyval list \<Rightarrow> selection \<Rightarrow> pyval \<Rightarrow> pyval \<Rightarrow> pyval \<Rightarrow> int \<Rightarrow> py_exn + iteration" where
  "derive_steps steps s review_approval implementation review_binding round_number =
     rbind (rmap (\<lambda>step. py_int_or_0 (dget step ''step'')) (filter is_dict steps)) (\<lambda>numbers.
     rbind (rework_sources s) (\<lambda>(reply_text, trace_ids).
     let next_number = (if numbers = [] then 0 else Max (set numbers)) + 1;
         provenance = iteration_provenance round_number (sel_reply_id s);
         original_task = py_str (py_or (dget implementation ''task'') (PS []))
     in rbind (build_rework_task round_number original_task (sel_verdict s) (sel_reply_id s) reply_text trace_ids) (\<lambda>task.
        rbind (review_binding_pairs review_binding) (\<lambda>(reviewers, round_reviewer).
        Inr \<lparr>it_round = round_number, it_triggered_by_reply = sel_reply_id s,
             it_rework_step = pdict ([(''iteration_kind'', PS ''rework''), (''step'', PInt next_number),
                 (''agent_id'', dget implementation ''agent_id''), (''role'', dget implementation ''role''), (''task'', PStr task),
                 (''risk'', py_or (dget implementation ''risk'') (PS ''low'')), (''requires_approval'', PBool True)] @ provenance),
             it_review_steps = review_steps_for steps next_number review_approval provenance reviewers round_reviewer,
             it_original_task = original_task, it_verdict = sel_verdict s, it_members = sel_members s\<rparr>))))"

text \<open>From a verdict that asks for rework, with the steps of the plan.\<close>

definition derive_from_verdict ::
    "pyval \<Rightarrow> pstr \<Rightarrow> int \<Rightarrow> pyval \<Rightarrow> pyval list \<Rightarrow> selection \<Rightarrow> py_exn + (skip_reason + iteration)" where
  "derive_from_verdict state plan_id max_review_rounds review_binding steps s =
     (if sel_reply_id s \<in> consumed_reply_ids steps then Inr (Inl Already_triggered)
      else if plan_review_rounds steps \<ge> max_review_rounds then Inr (Inl Rounds_exhausted)
      else case sel_approval s of
        None \<Rightarrow> Inl AttributeError
      | Some review_approval \<Rightarrow>
          (case py_int_or_0 (dget review_approval ''step'') of
             Inl _ \<Rightarrow> Inr (Inl No_implementation_step)
           | Inr review_step_number \<Rightarrow>
               rbind (implementation_approval state plan_id review_step_number) (\<lambda>implementation.
               case implementation of
                 None \<Rightarrow> Inr (Inl No_implementation_step)
               | Some impl \<Rightarrow>
                   rbind (derive_steps steps s review_approval impl review_binding (plan_review_rounds steps + 1)) (\<lambda>it.
                     Inr (Inr it)))))"

definition derive_review_iteration ::
    "pyval \<Rightarrow> pstr \<Rightarrow> int \<Rightarrow> pyval \<Rightarrow> py_exn + (skip_reason + iteration)" where
  "derive_review_iteration state plan_id max_review_rounds review_binding =
     rbind (ledger_items state ''plans'') (\<lambda>plans.
     case find_plan plan_id plans of
       None \<Rightarrow> Inr (Inl No_plan)
     | Some plan \<Rightarrow>
         rbind (select_plan_verdict state plan_id (plan_steps_value plan) True) (\<lambda>selection.
         case selection of
           None \<Rightarrow> Inr (Inl No_verdict)
         | Some s \<Rightarrow>
             rbind (py_in_set (dget (sel_verdict s) ''overall'') [''fail'', ''needs_changes'']) (\<lambda>triggers.
             if \<not> triggers then Inr (Inl Verdict_pass)
             else rbind (py_iter (plan_steps_value plan)) (\<lambda>steps.
                    derive_from_verdict state plan_id max_review_rounds review_binding steps s))))"

section \<open>Appending it\<close>

text \<open>
  \<^verbatim>\<open>append_review_iteration\<close> on the ledger: fresh approval ids and the clock are arguments; the
  audit event is not modelled. A refined task replaces the template only when the derivation under
  the lock was triggered by the reply it was refined for.
\<close>

definition adopt_override :: "(pstr \<times> pstr) option \<Rightarrow> iteration \<Rightarrow> iteration \<times> bool" where
  "adopt_override override it =
     (case override of
        None \<Rightarrow> (it, False)
      | Some (task, for_reply) \<Rightarrow>
          if it_triggered_by_reply it = for_reply
          then (it\<lparr>it_rework_step := dputs [(''task'', PStr task), (''task_source'', PS ''leader_refined'')] (it_rework_step it)\<rparr>, True)
          else (it, False))"

definition new_approval :: "pstr \<Rightarrow> pstr \<Rightarrow> pstr \<Rightarrow> pyval \<Rightarrow> pyval" where
  "new_approval approval_id created_at plan_id step =
     pdict [(''approval_id'', PStr approval_id), (''plan_id'', PStr plan_id), (''step'', dget step ''step''),
            (''agent_id'', dget step ''agent_id''), (''role'', dget step ''role''), (''task'', dget step ''task''),
            (''risk'', dget step ''risk''), (''status'', PS ''pending''), (''created_at'', PStr created_at)]"

definition extend_plan :: "pyval list \<Rightarrow> pyval \<Rightarrow> pyval" where
  "extend_plan new_steps plan =
     dput ''plan'' (dput ''steps'' (PList (list_items (dget (dget plan ''plan'') ''steps'') @ new_steps)) (dget plan ''plan'')) plan"

text \<open>The first plan of that id is updated in place.\<close>

fun update_plan :: "pstr \<Rightarrow> (pyval \<Rightarrow> pyval) \<Rightarrow> pyval list \<Rightarrow> pyval list" where
  "update_plan plan_id f [] = []"
| "update_plan plan_id f (p # ps) =
     (if is_dict p \<and> py_eq (dget p ''plan_id'') (PStr plan_id) then f p # ps else p # update_plan plan_id f ps)"

definition append_review_iteration ::
    "(nat \<Rightarrow> pstr) \<Rightarrow> pstr \<Rightarrow> pyval \<Rightarrow> pstr \<Rightarrow> int \<Rightarrow> pyval \<Rightarrow> (pstr \<times> pstr) option
      \<Rightarrow> py_exn + pyval \<times> (skip_reason + iteration)" where
  "append_review_iteration fresh now state plan_id max_review_rounds review_binding override =
     (if (case override of None \<Rightarrow> False | Some (task, _) \<Rightarrow> py_strip task = [] \<or> length task > MAX_REWORK_TASK_CHARS)
      then Inl (ValueError ''rework_task_override must be a validated task text'')
      else rbind (derive_review_iteration state plan_id max_review_rounds review_binding) (\<lambda>derived.
        case derived of
          Inl reason \<Rightarrow> Inr (state, Inl reason)
        | Inr it \<Rightarrow>
            let it' = fst (adopt_override override it);
                plans = list_items (dget state ''plans'');
                body = (case find_plan plan_id plans of None \<Rightarrow> PNone | Some p \<Rightarrow> dget p ''plan'') in
            if \<not> is_dict body \<or> \<not> is_list (dget body ''steps'') then Inr (state, Inl No_plan)
            else let new_steps = it_rework_step it' # it_review_steps it';
                     approvals = map (\<lambda>(i, step). new_approval (fresh i) now plan_id step) (enumerate 0 new_steps)
                 in Inr (dput ''approvals'' (PList (list_items (dget state ''approvals'') @ approvals))
                          (dput ''plans'' (PList (update_plan plan_id (extend_plan new_steps) plans)) state),
                         Inr it')))"

section \<open>What an iteration needs\<close>

lemma derive_from_verdict_ok:
  assumes "derive_from_verdict state plan_id max_rounds binding steps s = Inr (Inr it)"
  shows "sel_reply_id s \<notin> consumed_reply_ids steps \<and> plan_review_rounds steps < max_rounds
    \<and> (\<exists>appr impl. derive_steps steps s appr impl binding (plan_review_rounds steps + 1) = Inr it)"
proof -
  have g: "sel_reply_id s \<notin> consumed_reply_ids steps" "\<not> plan_review_rounds steps \<ge> max_rounds"
    using assms by (auto simp: derive_from_verdict_def split: if_splits)
  then obtain appr where "(case py_int_or_0 (dget appr ''step'') of
             Inl _ \<Rightarrow> Inr (Inl No_implementation_step)
           | Inr n \<Rightarrow> rbind (implementation_approval state plan_id n) (\<lambda>implementation.
               case implementation of
                 None \<Rightarrow> Inr (Inl No_implementation_step)
               | Some impl \<Rightarrow> rbind (derive_steps steps s appr impl binding (plan_review_rounds steps + 1)) (\<lambda>it. Inr (Inr it))))
      = Inr (Inr it)"
    using assms by (auto simp: derive_from_verdict_def split: option.splits)
  then have "\<exists>impl. derive_steps steps s appr impl binding (plan_review_rounds steps + 1) = Inr it"
    by (auto simp: rbind_eq_Inr split: sum.splits option.splits)
  with g show ?thesis by auto
qed

lemma derive_ok:
  assumes "derive_review_iteration state plan_id max_rounds binding = Inr (Inr it)"
  shows "\<exists>plans plan s steps. ledger_items state ''plans'' = Inr plans \<and> find_plan plan_id plans = Some plan
    \<and> select_plan_verdict state plan_id (plan_steps_value plan) True = Inr (Some s)
    \<and> dget (sel_verdict s) ''overall'' \<in> {PS ''fail'', PS ''needs_changes''}
    \<and> py_iter (plan_steps_value plan) = Inr steps
    \<and> derive_from_verdict state plan_id max_rounds binding steps s = Inr (Inr it)"
proof -
  obtain plans where p: "ledger_items state ''plans'' = Inr plans"
    using assms by (auto simp: derive_review_iteration_def rbind_eq_Inr)
  with assms obtain plan where q: "find_plan plan_id plans = Some plan"
    by (auto simp: derive_review_iteration_def split: option.splits)
  with p assms obtain s where s: "select_plan_verdict state plan_id (plan_steps_value plan) True = Inr (Some s)"
    by (auto simp: derive_review_iteration_def rbind_eq_Inr split: option.splits)
  with p q assms have t: "dget (sel_verdict s) ''overall'' \<in> PS ` set [''fail'', ''needs_changes'']"
    by (auto simp: derive_review_iteration_def rbind_eq_Inr py_in_set_eq_Inr split: if_splits)
  with p q s assms obtain steps where "py_iter (plan_steps_value plan) = Inr steps"
     "derive_from_verdict state plan_id max_rounds binding steps s = Inr (Inr it)"
    by (auto simp: derive_review_iteration_def rbind_eq_Inr py_in_set_eq_Inr)
  then show ?thesis using p q s t by (intro exI conjI) auto
qed

text \<open>A step appended by round \<open>r\<close> for a reply.\<close>

definition appended_step :: "int \<Rightarrow> pstr \<Rightarrow> pyval \<Rightarrow> bool" where
  "appended_step r reply step \<longleftrightarrow> is_iteration_step step \<and> dget step ''round'' = PInt r
     \<and> dget step ''triggered_by_reply'' = PStr reply \<and> dget step ''requires_approval'' = PBool True"

lemma review_step_appended:
  "appended_step r reply (review_step n a role task risk (iteration_provenance r reply) mark)"
  "dget (review_step n a role task risk (iteration_provenance r reply) mark) ''step'' = PInt n"
  by (auto simp: appended_step_def review_step_def is_iteration_step_def iteration_provenance_def split: option.split)

lemma review_steps_for_appended:
  "list_all (appended_step r reply) (review_steps_for steps n appr (iteration_provenance r reply) reviewers rr)"
  "review_steps_for steps n appr (iteration_provenance r reply) reviewers rr \<noteq> []"
  "map (\<lambda>s. dget s ''step'') (review_steps_for steps n appr (iteration_provenance r reply) reviewers rr)
     = map (\<lambda>i. PInt (n + 1 + int i)) [0..<max 1 (length reviewers)]"
proof -
  show "list_all (appended_step r reply) (review_steps_for steps n appr (iteration_provenance r reply) reviewers rr)"
    by (auto simp: review_steps_for_def list_all_iff review_step_appended Let_def split: option.split)
  show "review_steps_for steps n appr (iteration_provenance r reply) reviewers rr \<noteq> []"
    by (auto simp: review_steps_for_def Let_def enumerate_eq_zip split: option.split)
  show "map (\<lambda>s. dget s ''step'') (review_steps_for steps n appr (iteration_provenance r reply) reviewers rr)
     = map (\<lambda>i. PInt (n + 1 + int i)) [0..<max 1 (length reviewers)]"
  proof (cases "reviewers = []")
    case True
    then show ?thesis by (auto simp: review_steps_for_def review_step_appended Let_def split: option.split)
  next
    case False
    then have "max 1 (length reviewers) = length reviewers" by (cases reviewers) auto
    then show ?thesis using False
      by (auto simp: review_steps_for_def review_step_appended Let_def enumerate_eq_zip split_beta intro!: nth_equalityI)
  qed
qed

lemma derive_steps_ok:
  assumes "derive_steps steps s appr impl binding r = Inr it"
  shows "it_round it = r \<and> it_triggered_by_reply it = sel_reply_id s
    \<and> list_all (appended_step r (sel_reply_id s)) (it_rework_step it # it_review_steps it) \<and> it_review_steps it \<noteq> []
    \<and> (\<exists>k m. dget (it_rework_step it) ''step'' = PInt k
         \<and> map (\<lambda>s. dget s ''step'') (it_review_steps it) = map (\<lambda>i. PInt (k + 1 + int i)) [0..<m]
         \<and> (\<forall>step\<in>set (filter is_dict steps). \<forall>n. py_int_or_0 (dget step ''step'') = Inr n \<longrightarrow> n < k))"
proof -
  obtain numbers where nums: "rmap (\<lambda>step. py_int_or_0 (dget step ''step'')) (filter is_dict steps) = Inr numbers"
    using assms by (auto simp: derive_steps_def rbind_eq_Inr)
  define k where "k = (if numbers = [] then 0 else Max (set numbers)) + 1"
  obtain otask task reviewers rr where
    it: "it = \<lparr>it_round = r, it_triggered_by_reply = sel_reply_id s,
             it_rework_step = pdict ([(''iteration_kind'', PS ''rework''), (''step'', PInt k),
                 (''agent_id'', dget impl ''agent_id''), (''role'', dget impl ''role''), (''task'', PStr task),
                 (''risk'', py_or (dget impl ''risk'') (PS ''low'')), (''requires_approval'', PBool True)]
                 @ iteration_provenance r (sel_reply_id s)),
             it_review_steps = review_steps_for steps k appr (iteration_provenance r (sel_reply_id s)) reviewers rr,
             it_original_task = otask, it_verdict = sel_verdict s, it_members = sel_members s\<rparr>"
    using assms nums by (auto simp: derive_steps_def rbind_eq_Inr Let_def k_def)
  have "n < k" if step: "step \<in> set (filter is_dict steps)" "py_int_or_0 (dget step ''step'') = Inr n" for step n
  proof -
    obtain i where i: "i < length (filter is_dict steps)" "filter is_dict steps ! i = step"
      using step(1) unfolding in_set_conv_nth by blast
    have "length numbers = length (filter is_dict steps)" "py_int_or_0 (dget (filter is_dict steps ! i) ''step'') = Inr (numbers ! i)"
      using rmap_eq_Inr [OF nums] i(1) by blast+
    then have "i < length numbers" "numbers ! i = n" using i step(2) by simp_all
    then have "n \<in> set numbers" using nth_mem by blast
    then show ?thesis using Max_ge [of "set numbers" n] by (auto simp: k_def)
  qed
  moreover have "appended_step r (sel_reply_id s) (it_rework_step it)"
    by (simp add: it appended_step_def is_iteration_step_def iteration_provenance_def)
  ultimately show ?thesis
    using review_steps_for_appended by (simp add: it) blast
qed

section \<open>Rounds\<close>

lemma fold_rounds:
  "fold (\<lambda>step rounds. if \<not> is_iteration_step step then rounds
        else case num_of (dget step ''round'') of Some value \<Rightarrow> (if value > rounds then value else rounds) | None \<Rightarrow> rounds) new r
    = r'" if "list_all (appended_step r' reply) new" "new \<noteq> []" "r < r'"
  using that(2,3,1)
proof (induction new arbitrary: r rule: list_nonempty_induct)
  case (single s)
  then show ?case by (simp add: appended_step_def)
next
  case (cons s new)
  then have s: "is_iteration_step s" "num_of (dget s ''round'') = Some r'" by (simp_all add: appended_step_def)
  have idle: "fold (\<lambda>step rounds. if \<not> is_iteration_step step then rounds
        else case num_of (dget step ''round'') of Some value \<Rightarrow> (if value > rounds then value else rounds) | None \<Rightarrow> rounds) new r' = r'"
    if "list_all (appended_step r' reply) new" for new
    using that by (induction new) (simp_all add: appended_step_def)
  show ?case using s cons.prems idle by simp
qed

lemma rounds_after_append:
  assumes "list_all (appended_step (plan_review_rounds steps + 1) reply) new" "new \<noteq> []"
  shows "plan_review_rounds (steps @ new) = plan_review_rounds steps + 1"
  using fold_rounds [OF assms, of "plan_review_rounds steps"] by (simp add: plan_review_rounds_def)

lemma rounds_nonneg: "0 \<le> plan_review_rounds steps"
proof -
  have "r \<le> fold (\<lambda>step rounds. if \<not> is_iteration_step step then rounds
        else case num_of (dget step ''round'') of Some value \<Rightarrow> (if value > rounds then value else rounds) | None \<Rightarrow> rounds) steps r"
    for r :: int
    by (induction steps arbitrary: r) (auto split: option.split intro: order_trans [OF less_imp_le])
  then show ?thesis by (simp add: plan_review_rounds_def)
qed

lemma consumed_after_append:
  assumes "list_all (appended_step r reply) new" "new \<noteq> []" "reply \<noteq> []"
  shows "consumed_reply_ids (steps @ new) = insert reply (consumed_reply_ids steps)"
proof -
  have "consumed_reply_ids (xs @ ys) = consumed_reply_ids xs \<union> consumed_reply_ids ys" for xs ys
    by (auto simp: consumed_reply_ids_def set_map_filter)
  moreover have "consumed_reply_ids new = {reply}"
    using assms by (cases new) (auto simp: consumed_reply_ids_def set_map_filter appended_step_def list_all_iff)
  ultimately show ?thesis by simp
qed

lemma consumed_mono: "consumed_reply_ids steps \<subseteq> consumed_reply_ids (steps @ new)"
  by (auto simp: consumed_reply_ids_def set_map_filter)

section \<open>The plan in the ledger\<close>

definition current_steps :: "pstr \<Rightarrow> pyval \<Rightarrow> pyval list option" where
  "current_steps plan_id state =
     map_option (\<lambda>p. list_items (plan_steps_value p)) (find_plan plan_id (list_items (dget state ''plans'')))"

lemma find_plan_dict: "find_plan plan_id plans = Some p \<Longrightarrow> is_dict p \<and> dget p ''plan_id'' = PStr plan_id"
  by (auto simp: find_plan_def find_Some_iff)

lemma find_update_plan:
  assumes "\<And>p. is_dict (f p)" "\<And>p. dget (f p) ''plan_id'' = dget p ''plan_id''"
  shows "find_plan plan_id (update_plan plan_id f plans) = map_option f (find_plan plan_id plans)"
  using assms by (induction plans) (simp_all add: find_plan_def)

lemma ledger_plans:
  assumes "ledger_items state ''plans'' = Inr plans" "find_plan plan_id plans = Some p"
  shows "dget state ''plans'' = PList plans"
proof (cases "dget_or state ''plans'' (PList [])")
  case (PList xs)
  then have "plans = xs" using assms(1) by (simp add: ledger_items_def py_iter_def)
  with PList assms(2) show ?thesis
    by (cases "map_of (dict_items state) (u ''plans'')") (auto simp: dget_or_def find_plan_def)
qed (use assms find_plan_dict [OF assms(2)] in \<open>auto simp: ledger_items_def py_iter_def find_plan_def find_Some_iff\<close>)

lemma appended_override:
  "list_all (appended_step r reply) (it_rework_step it # it_review_steps it) \<Longrightarrow>
     list_all (appended_step r reply) (it_rework_step (fst (adopt_override ov it)) # it_review_steps (fst (adopt_override ov it)))"
  "it_triggered_by_reply (fst (adopt_override ov it)) = it_triggered_by_reply it"
  by (auto simp: adopt_override_def appended_step_def is_iteration_step_def split: option.split)

lemma append_outcome:
  assumes "append_review_iteration fresh now state plan_id max_rounds binding ov = Inr (state', Inr it)"
  shows "\<exists>steps new. current_steps plan_id state = Some steps \<and> current_steps plan_id state' = Some (steps @ new)
    \<and> new = it_rework_step it # it_review_steps it
    \<and> list_all (appended_step (plan_review_rounds steps + 1) (it_triggered_by_reply it)) new
    \<and> plan_review_rounds steps < max_rounds \<and> it_triggered_by_reply it \<notin> consumed_reply_ids steps"
proof -
  obtain x where x: "derive_review_iteration state plan_id max_rounds binding = Inr x"
    using assms by (auto simp: append_review_iteration_def rbind_eq_Inr split: if_splits)
  then obtain it0 where d: "derive_review_iteration state plan_id max_rounds binding = Inr (Inr it0)"
    using assms by (cases x) (auto simp: append_review_iteration_def split: if_splits)
  obtain plans plan s steps where p: "ledger_items state ''plans'' = Inr plans" "find_plan plan_id plans = Some plan"
    "py_iter (plan_steps_value plan) = Inr steps" "derive_from_verdict state plan_id max_rounds binding steps s = Inr (Inr it0)"
    using derive_ok [OF d] by blast
  have l: "dget state ''plans'' = PList plans" by (rule ledger_plans [OF p(1,2)])
  have o: "is_dict (dget plan ''plan'') \<and> is_list (dget (dget plan ''plan'') ''steps'')" and it: "it = fst (adopt_override ov it0)"
    and s': "state' = dput ''approvals'' (PList (list_items (dget state ''approvals'')
         @ map (\<lambda>(i, step). new_approval (fresh i) now plan_id step) (enumerate 0 (it_rework_step it # it_review_steps it))))
        (dput ''plans'' (PList (update_plan plan_id (extend_plan (it_rework_step it # it_review_steps it)) plans)) state)"
    using assms d p(2) l by (auto simp: append_review_iteration_def Let_def split: if_splits)
  obtain xs where xs: "dget (dget plan ''plan'') ''steps'' = PList xs"
    using o by (cases "dget (dget plan ''plan'') ''steps''") auto
  then have sv: "plan_steps_value plan = PList xs"
    using o by (cases "map_of (dict_items (dget plan ''plan'')) (u ''steps'')") (auto simp: plan_steps_value_def dget_or_def)
  then have steps: "steps = xs" using p(3) by (simp add: py_iter_def)
  have cur: "current_steps plan_id state = Some steps"
    using l p(2) sv steps by (simp add: current_steps_def)
  let ?new = "it_rework_step it # it_review_steps it"
  have "find_plan plan_id (update_plan plan_id (extend_plan ?new) plans) = Some (extend_plan ?new plan)"
    using p(2) by (subst find_update_plan) (simp_all add: extend_plan_def)
  then have cur': "current_steps plan_id state' = Some (steps @ ?new)"
    using xs steps by (simp add: current_steps_def s' plan_steps_value_def extend_plan_def)
  have v: "it_triggered_by_reply it0 \<notin> consumed_reply_ids steps" "plan_review_rounds steps < max_rounds"
    "list_all (appended_step (plan_review_rounds steps + 1) (it_triggered_by_reply it0)) (it_rework_step it0 # it_review_steps it0)"
    using derive_from_verdict_ok [OF p(4)] derive_steps_ok by (metis, metis, metis)
  show ?thesis using cur cur' v appended_override it by metis
qed

section \<open>Runs of the iteration loop\<close>

text \<open>
  A run on one plan: appends, and any other change of the ledger that leaves the steps of this plan
  as they are (replies and approvals arriving, messages, other plans). The list is that of the
  replies that triggered the appends.
\<close>

inductive ledger_run :: "pstr \<Rightarrow> int \<Rightarrow> pyval \<Rightarrow> pstr list \<Rightarrow> pyval \<Rightarrow> bool" for plan_id max_rounds where
  start: "ledger_run plan_id max_rounds st [] st"
| append: "ledger_run plan_id max_rounds st rs st1 \<Longrightarrow>
     append_review_iteration fresh now st1 plan_id max_rounds binding ov = Inr (st2, Inr it) \<Longrightarrow>
     ledger_run plan_id max_rounds st (rs @ [it_triggered_by_reply it]) st2"
| other: "ledger_run plan_id max_rounds st rs st1 \<Longrightarrow> current_steps plan_id st2 = current_steps plan_id st1 \<Longrightarrow>
     ledger_run plan_id max_rounds st rs st2"

definition steps_in :: "pstr \<Rightarrow> pyval \<Rightarrow> pyval list" where
  "steps_in plan_id state = (case current_steps plan_id state of None \<Rightarrow> [] | Some steps \<Rightarrow> steps)"

lemma ledger_run_invariant:
  assumes "ledger_run plan_id max_rounds st rs st'"
  shows "plan_review_rounds (steps_in plan_id st') = plan_review_rounds (steps_in plan_id st) + int (length rs)
    \<and> (rs \<noteq> [] \<longrightarrow> plan_review_rounds (steps_in plan_id st') \<le> max_rounds)
    \<and> distinct (filter (\<lambda>r. r \<noteq> []) rs)
    \<and> set (filter (\<lambda>r. r \<noteq> []) rs) \<inter> consumed_reply_ids (steps_in plan_id st) = {}
    \<and> consumed_reply_ids (steps_in plan_id st) \<union> set (filter (\<lambda>r. r \<noteq> []) rs) \<subseteq> consumed_reply_ids (steps_in plan_id st')"
  using assms
proof induction
  case (append st rs st1 fresh now binding ov st2 it)
  obtain steps new where a: "current_steps plan_id st1 = Some steps" "current_steps plan_id st2 = Some (steps @ new)"
    "list_all (appended_step (plan_review_rounds steps + 1) (it_triggered_by_reply it)) new" "new \<noteq> []"
    "plan_review_rounds steps < max_rounds" "it_triggered_by_reply it \<notin> consumed_reply_ids steps"
    using append_outcome [OF append(2)] by blast
  have s: "steps_in plan_id st1 = steps" "steps_in plan_id st2 = steps @ new" using a by (simp_all add: steps_in_def)
  have "plan_review_rounds (steps @ new) = plan_review_rounds steps + 1" by (rule rounds_after_append [OF a(3,4)])
  moreover have "consumed_reply_ids steps \<subseteq> consumed_reply_ids (steps @ new)" by (rule consumed_mono)
  moreover have "it_triggered_by_reply it \<noteq> [] \<Longrightarrow> it_triggered_by_reply it \<in> consumed_reply_ids (steps @ new)"
    using consumed_after_append [OF a(3,4)] by simp
  ultimately show ?case using append.IH a(5,6) unfolding s by auto
qed (auto simp: steps_in_def)



section \<open>A rework step's own verdict\<close>

lemma approvals_by_message_entry:
  "approvals_by_message plan_id excluded as d = Inr d' \<Longrightarrow> map_of d' m = Some a \<Longrightarrow>
     map_of d m = Some a \<or> a \<in> set as \<and> is_dict a \<and> dget a ''plan_id'' = PStr plan_id
       \<and> num_of (dget a ''step'') \<notin> Some ` excluded \<and> py_str (dget a ''message_id'') = m"
  by (induction plan_id excluded as d arbitrary: d' rule: approvals_by_message.induct) (auto split: if_splits)

lemma fold_latest:
  "fold (\<lambda>reply latest. if \<not> with_verdict reply then latest
        else case map_of d (py_str (dget reply ''message_id'')) of None \<Rightarrow> latest | Some approval \<Rightarrow> Some (reply, approval)) replies l
     = Some (reply, approval) \<Longrightarrow>
   l = Some (reply, approval) \<or> reply \<in> set replies \<and> with_verdict reply \<and> map_of d (py_str (dget reply ''message_id'')) = Some approval"
proof (induction replies arbitrary: l)
  case (Cons r replies)
  show ?case
  proof (cases "with_verdict r \<and> (\<exists>a. map_of d (py_str (dget r ''message_id'')) = Some a)")
    case True
    then obtain a where "map_of d (py_str (dget r ''message_id'')) = Some a" by blast
    then show ?thesis using Cons.IH [of "Some (r, a)"] Cons.prems True by auto
  next
    case False
    then show ?thesis using Cons.IH [of l] Cons.prems by (auto split: option.splits)
  qed
qed simp

text \<open>
  In a plan without review groups the selected verdict is that of a reply in the ledger whose
  message belongs to an approval of this plan, and never one of a rework step: the worker who did the
  rework cannot pass or fail its own review.
\<close>
theorem rework_verdict_excluded:
  assumes "select_plan_verdict state plan_id (PList steps) complete = Inr (Some s)"
    and "review_group_numbers steps = []"
  shows "\<exists>reply approval. sel_approval s = Some approval \<and> sel_verdict s = dget reply ''verdict'' \<and> with_verdict reply
    \<and> dget approval ''plan_id'' = PStr plan_id \<and> py_str (dget approval ''message_id'') = py_str (dget reply ''message_id'')
    \<and> num_of (dget approval ''step'') \<notin> Some ` rework_step_numbers steps"
proof -
  obtain reply approval where l: "latest_verdict_reply state plan_id steps = Inr (Some (reply, approval))"
    and s: "sel_approval s = Some approval" "sel_verdict s = dget reply ''verdict''"
    using assms by (auto simp: select_plan_verdict_def rbind_eq_Inr)
  obtain as d replies where a: "approvals_by_message plan_id (rework_step_numbers steps) as [] = Inr d"
    and f: "fold (\<lambda>reply latest. if \<not> with_verdict reply then latest
        else case map_of d (py_str (dget reply ''message_id'')) of None \<Rightarrow> latest | Some approval \<Rightarrow> Some (reply, approval)) replies None
     = Some (reply, approval)"
    using l unfolding latest_verdict_reply_def by (auto simp: rbind_eq_Inr)
  have r: "with_verdict reply" "map_of d (py_str (dget reply ''message_id'')) = Some approval"
    using fold_latest [OF f] by auto
  show ?thesis using approvals_by_message_entry [OF a r(2)] r(1) s by auto
qed

section \<open>The texts\<close>

lemma py_join_snoc: "xs \<noteq> [] \<Longrightarrow> py_join sep (xs @ [y]) = py_join sep xs @ sep @ y"
  by (induction sep xs rule: py_join.induct) auto

lemma rework_text_footer: "suffix REWORK_TASK_FOOTER (rework_text r task v failed reply)"
proof -
  have "rework_text r task v failed reply = py_join [10] (([txt_round_open @ show_int r @ txt_round_close, txt_original_task @ task,
      txt_overall @ py_str (dget v ''overall'') @ score_suffix (dget v ''score'')] @ failed_lines failed @ [txt_review_text, reply])
      @ [REWORK_TASK_FOOTER])"
    by (simp add: rework_text_def Let_def)
  also have "\<dots> = py_join [10] ([txt_round_open @ show_int r @ txt_round_close, txt_original_task @ task,
      txt_overall @ py_str (dget v ''overall'') @ score_suffix (dget v ''score'')] @ failed_lines failed @ [txt_review_text, reply])
      @ [10] @ REWORK_TASK_FOOTER"
    by (rule py_join_snoc) simp
  finally show ?thesis by (simp add: suffix_def)
qed

lemma rework_marker_footer: "suffix REWORK_TASK_FOOTER (rework_marker reply_id ids)"
  by (simp add: rework_marker_def Let_def suffix_def)

lemma length_slice:
  "length (py_slice_to (4000 - int m) xs) = (if m \<le> 4000 then min (4000 - m) (length xs) else length xs - (m - 4000))"
  by (auto simp: py_slice_to_def nat_diff_distrib min_def)

text \<open>
  C29: Every generated rework task ends with the fixed instruction to commit. It keeps the bound of 4000
  characters except in one case: when the truncation marker, which lists one trace command per
  non-passing reviewer, is itself longer than the bound, the slice index turns negative and the
  "truncated" text is longer than the bound.
\<close>
theorem rework_task_bounded:
  assumes "build_rework_task r task v reply_id reply_text ids = Inr t"
  shows "suffix REWORK_TASK_FOOTER t
    \<and> (length (rework_marker reply_id ids) \<le> 4000 \<longrightarrow> length t \<le> 4000)
    \<and> (length (rework_marker reply_id ids) > 4000 \<longrightarrow>
         (length t \<le> 4000 \<longleftrightarrow> (\<exists>failed. failed_criteria v = Inr failed \<and> t = rework_text r task v failed reply_text)))"
proof -
  obtain failed where f: "failed_criteria v = Inr failed"
    and t: "t = (if length (rework_text r task v failed reply_text) > 4000
               then py_slice_to (4000 - int (length (rework_marker reply_id ids))) (rework_text r task v failed reply_text)
                 @ rework_marker reply_id ids
               else rework_text r task v failed reply_text)"
    using assms by (auto simp: build_rework_task_def rbind_eq_Inr Let_def MAX_REWORK_TASK_CHARS_def)
  have "suffix REWORK_TASK_FOOTER t"
    unfolding t using rework_text_footer rework_marker_footer by (auto intro: suffix_appendI)
  moreover have "length (rework_marker reply_id ids) \<le> 4000 \<longrightarrow> length t \<le> 4000"
    unfolding t by (simp add: length_slice)
  moreover have "length (rework_marker reply_id ids) > 4000 \<longrightarrow> (length t \<le> 4000 \<longleftrightarrow> t = rework_text r task v failed reply_text)"
    unfolding t by (auto simp: length_slice dest!: arg_cong [of _ _ length])
  ultimately show ?thesis using f by simp
qed

lemma py_join_length: "x \<in> set xs \<Longrightarrow> length x \<le> length (py_join sep xs)"
  by (induction sep xs rule: py_join.induct) auto

lemma rework_text_length: "length reply \<le> length (rework_text r task v failed reply)"
  unfolding rework_text_def Let_def by (rule py_join_length) simp

theorem rework_task_bounded_witness:
  "\<exists>t. build_rework_task 1 [] (pdict []) (replicate 5000 48) (replicate 5000 48) None = Inr t \<and> length t > 4000"
proof -
  define z where "z = replicate 5000 (48 :: nat)"
  have z: "length z = 5000" by (simp add: z_def)
  have f: "failed_criteria (pdict []) = Inr []" by (simp add: failed_criteria_def py_iter_def)
  obtain t where t: "build_rework_task 1 [] (pdict []) z z None = Inr t"
    by (simp add: build_rework_task_def f Let_def)
  have m: "length (rework_marker z None) > 4000" using z by (simp add: rework_marker_def)
  have "\<not> length t \<le> 4000"
  proof
    assume "length t \<le> 4000"
    then have "t = rework_text 1 [] (pdict []) [] z"
      using rework_task_bounded [OF t] m f by auto
    then show False using rework_text_length [of z 1 "[]" "pdict []" "[]"] z \<open>length t \<le> 4000\<close> by simp
  qed
  then show ?thesis using t unfolding z_def by auto
qed

lemma footer_length: "length REWORK_TASK_FOOTER = 17"
  by (simp add: REWORK_TASK_FOOTER_def)

lemma footer_ends: "\<not> is_space (last REWORK_TASK_FOOTER)" "REWORK_TASK_FOOTER \<noteq> []"
  by (simp_all add: REWORK_TASK_FOOTER_def is_space_def)

lemma dropWhile_id: "xs = [] \<or> \<not> P (hd xs) \<Longrightarrow> dropWhile P xs = xs"
  by (cases xs) auto

lemma py_strip_id: "s \<noteq> [] \<Longrightarrow> \<not> is_space (hd s) \<Longrightarrow> \<not> is_space (last s) \<Longrightarrow> py_strip s = s"
  by (simp add: py_strip_def dropWhile_id hd_rev)

lemma py_strip_ends:
  assumes "py_strip s \<noteq> []"
  shows "\<not> is_space (hd (py_strip s))" "\<not> is_space (last (py_strip s))"
proof -
  let ?a = "dropWhile is_space s"
  let ?b = "dropWhile is_space (rev ?a)"
  have b: "?b \<noteq> []" "py_strip s = rev ?b" using assms by (auto simp: py_strip_def)
  then show "\<not> is_space (last (py_strip s))" using hd_dropWhile [of is_space "rev ?a"] by (simp add: last_rev)
  have "suffix ?b (rev ?a)" by (rule suffix_dropWhile)
  then have "prefix (rev ?b) ?a" by (simp add: suffix_to_prefix)
  then have "hd (rev ?b) = hd ?a" using b(1) by (metis hd_append2 prefix_def rev_is_Nil_conv)
  moreover have "?a \<noteq> []" using b(1) by (metis dropWhile.simps(1) rev.simps(1))
  ultimately show "\<not> is_space (hd (py_strip s))" unfolding b(2) by (metis hd_dropWhile)
qed

lemma has_footer_appended: "has_rework_footer (s @ [10] @ REWORK_TASK_FOOTER)"
proof -
  let ?t = "s @ [10] @ REWORK_TASK_FOOTER"
  have "\<exists>a. drop (length ?t - length REWORK_TASK_FOOTER * 3) ?t = a @ REWORK_TASK_FOOTER"
    by (rule exI [of _ "drop (length ?t - length REWORK_TASK_FOOTER * 3) (s @ [10])"]) (simp add: footer_length)
  then obtain a where "drop (length ?t - length REWORK_TASK_FOOTER * 3) ?t = a @ REWORK_TASK_FOOTER" by blast
  then have "footer_key (drop (length ?t - length REWORK_TASK_FOOTER * 3) ?t) = footer_key a @ footer_key REWORK_TASK_FOOTER"
    by (simp add: footer_key_def)
  then show ?thesis unfolding has_rework_footer_def Let_def py_in_iff by (metis append_Nil2)
qed

text \<open>
  A refined task that passes validation is within 4000 characters, not blank and carries the commit
  instruction in its tail; validating it again returns it unchanged.
\<close>
theorem refined_task_stable:
  assumes "validate_refined_task (PStr t) = Inr r"
  shows "length r \<le> 4000 \<and> has_rework_footer r \<and> prefix (py_strip t) r \<and> validate_refined_task (PStr r) = Inr r"
proof -
  have s: "py_strip t \<noteq> []" and r: "r = (if has_rework_footer (py_strip t) then py_strip t else py_strip t @ [10] @ REWORK_TASK_FOOTER)"
    and l: "length r \<le> 4000"
    using assms by (auto simp: validate_refined_task_def Let_def MAX_REWORK_TASK_CHARS_def split: if_splits)
  have f: "has_rework_footer r" using r has_footer_appended by auto
  have "r \<noteq> []" "\<not> is_space (hd r)" "\<not> is_space (last r)"
    using s r py_strip_ends [OF s] footer_ends by auto
  then have "py_strip r = r" by (rule py_strip_id)
  then show ?thesis using f l \<open>r \<noteq> []\<close> r
    by (auto simp: validate_refined_task_def Let_def MAX_REWORK_TASK_CHARS_def)
qed

theorem refined_task_stable_witness:
  "\<exists>r. validate_refined_task (PS ''do it'') = Inr r \<and> validate_refined_task (PStr r) = Inr r"
proof -
  have "\<exists>r. validate_refined_task (PS ''do it'') = Inr r"
    by (simp add: validate_refined_task_def py_strip_def u_def is_space_def MAX_REWORK_TASK_CHARS_def footer_length Let_def)
  then show ?thesis using refined_task_stable by blast
qed

section \<open>A concrete iteration\<close>

definition ex_steps :: "pyval list" where
  "ex_steps = [pdict [(''step'', PInt 1), (''role'', PS ''coder'')], pdict [(''step'', PInt 2), (''role'', PS ''reviewer'')]]"

definition ex_plan :: pyval where
  "ex_plan = pdict [(''plan_id'', PS ''p''), (''plan'', pdict [(''steps'', PList ex_steps)])]"

definition ex_approval :: "int \<Rightarrow> pyval" where
  "ex_approval n = pdict [(''plan_id'', PS ''p''), (''step'', PInt n), (''message_id'', PInt n), (''task'', PS ''t'')]"

definition ex_reply :: pyval where
  "ex_reply = pdict [(''message_id'', PInt 2), (''reply_id'', PS ''r''), (''verdict'', pdict [(''overall'', PS ''fail'')])]"

definition ex_state :: pyval where
  "ex_state = pdict [(''plans'', PList [ex_plan]), (''approvals'', PList [ex_approval 1, ex_approval 2]), (''replies'', PList [ex_reply])]"

lemma ex_ledger:
  "ledger_items ex_state ''plans'' = Inr [ex_plan]" "ledger_items ex_state ''approvals'' = Inr [ex_approval 1, ex_approval 2]"
  "ledger_items ex_state ''replies'' = Inr [ex_reply]" "ledger_items ex_state ''messages'' = Inr []"
  "plan_steps_value ex_plan = PList ex_steps" "find_plan (u ''p'') [ex_plan] = Some ex_plan"
  by (simp_all add: ledger_items_def ex_state_def py_iter_def plan_steps_value_def ex_plan_def find_plan_def)

lemma ex_no_groups: "review_group_numbers ex_steps = []" "rework_step_numbers ex_steps = {}" "consumed_reply_ids ex_steps = {}"
    "plan_review_rounds ex_steps = 0"
  by (simp_all add: review_group_numbers_def review_group_entry_def ex_steps_def rework_step_numbers_def is_iteration_step_def
      consumed_reply_ids_def plan_review_rounds_def)

lemma ex_selection:
  "select_plan_verdict ex_state (u ''p'') (PList ex_steps) c = Inr (Some
     \<lparr>sel_verdict = pdict [(''overall'', PS ''fail'')], sel_reply_id = u ''r'', sel_reply_text = [], sel_approval = Some (ex_approval 2),
      sel_members = None, sel_group = None, sel_complete = True\<rparr>)"
  by (simp add: select_plan_verdict_def ex_no_groups latest_verdict_reply_def ex_ledger ex_approval_def ex_reply_def with_verdict_def
      show_int_digit py_or_def)

lemma ex_derives: "\<exists>it. derive_review_iteration ex_state (u ''p'') 3 PNone = Inr (Inr it)"
proof -
  have sel: "select_plan_verdict ex_state (u ''p'') (plan_steps_value ex_plan) True = Inr (Some
     \<lparr>sel_verdict = pdict [(''overall'', PS ''fail'')], sel_reply_id = u ''r'', sel_reply_text = [], sel_approval = Some (ex_approval 2),
      sel_members = None, sel_group = None, sel_complete = True\<rparr>)"
    using ex_selection by (simp add: ex_ledger)
  have impl: "implementation_approval ex_state (u ''p'') 2 = Inr (Some (ex_approval 1))"
    by (simp add: implementation_approval_def ex_ledger dict_of_def implementation_step_def ex_approval_def Let_def)
  have fc: "failed_criteria (pdict [(''overall'', PS ''fail'')]) = Inr []" by (simp add: failed_criteria_def py_iter_def)
  have nums: "rmap (\<lambda>step. py_int_or_0 (dget step ''step'')) (filter is_dict ex_steps) = Inr [1, 2]"
    by (simp add: ex_steps_def)
  have b: "review_binding_pairs PNone = Inr ([], None)"
    by (simp add: review_binding_pairs_def py_or_def py_iter_def binding_pair_def dget_or_def)
  have d: "derive_from_verdict ex_state (u ''p'') 3 PNone ex_steps
      \<lparr>sel_verdict = pdict [(''overall'', PS ''fail'')], sel_reply_id = u ''r'', sel_reply_text = [], sel_approval = Some (ex_approval 2),
      sel_members = None, sel_group = None, sel_complete = True\<rparr> = Inr (Inr it)" if
     "derive_steps ex_steps \<lparr>sel_verdict = pdict [(''overall'', PS ''fail'')], sel_reply_id = u ''r'', sel_reply_text = [], sel_approval = Some (ex_approval 2),
      sel_members = None, sel_group = None, sel_complete = True\<rparr> (ex_approval 2) (ex_approval 1) PNone 1 = Inr it" for it
    using that impl by (simp add: derive_from_verdict_def ex_no_groups ex_approval_def)
  have "\<exists>it. derive_steps ex_steps \<lparr>sel_verdict = pdict [(''overall'', PS ''fail'')], sel_reply_id = u ''r'', sel_reply_text = [], sel_approval = Some (ex_approval 2),
      sel_members = None, sel_group = None, sel_complete = True\<rparr> (ex_approval 2) (ex_approval 1) PNone 1 = Inr it"
    by (simp add: derive_steps_def nums rework_sources_def build_rework_task_def fc b Let_def)
  then obtain it where "derive_from_verdict ex_state (u ''p'') 3 PNone ex_steps
      \<lparr>sel_verdict = pdict [(''overall'', PS ''fail'')], sel_reply_id = u ''r'', sel_reply_text = [], sel_approval = Some (ex_approval 2),
      sel_members = None, sel_group = None, sel_complete = True\<rparr> = Inr (Inr it)" using d by blast
  then show ?thesis
    by (simp add: derive_review_iteration_def ex_ledger sel [unfolded ex_ledger] py_in_set_def py_iter_def)
qed


theorem rework_verdict_excluded_witness:
  "\<exists>s reply. select_plan_verdict ex_state (u ''p'') (PList ex_steps) True = Inr (Some s) \<and> sel_verdict s = dget reply ''verdict'' \<and> with_verdict reply"
  using rework_verdict_excluded [OF ex_selection ex_no_groups(1)] ex_selection by blast


end
