(* ===== verification/Delegation.thy ===== *)
theory Delegation
  imports PyValue
begin

text \<open>
  \<^verbatim>\<open>src/agentdeck/delegation_match.py\<close>: when a shell command may be approved under the command
  prefixes that a human delegated. A composite command is cut at its separators; every segment must begin
  with a delegated prefix (or be an exactly delegated command) or be harmless glue, and at least one
  must be a real match. \<open>None\<close> is "fall back to the human".

  Commands are lists of code points. The scanner's index loop is a recursion over the rest of the
  command that keeps the character before it; the buffer is reversed.

  The lemmas show what an accepted command guarantees of each segment, that redirections stay under
  /tmp, that on commands without quotes the scanner is the obvious split at the separators, and that
  on quoted ones it is not the shell's: a backslash before a closing single quote hides a command.
\<close>

section \<open>Tokens\<close>

definition contains_hard_reject :: "pstr \<Rightarrow> bool" where
  "contains_hard_reject command \<longleftrightarrow>
     list_ex (\<lambda>marker. py_in (u marker) command) [''$('', [CHR 0x60], ''<('', ''>('', ''<<'']"

definition is_name_start :: "nat \<Rightarrow> bool" where
  "is_name_start c \<longleftrightarrow> is_alpha c \<or> c = 95"

definition is_name_char :: "nat \<Rightarrow> bool" where
  "is_name_char c \<longleftrightarrow> is_alpha c \<or> is_digit c \<or> c = 95"

definition is_NAME :: "pstr \<Rightarrow> bool" where
  "is_NAME s \<longleftrightarrow> (case s of [] \<Rightarrow> False | c # cs \<Rightarrow> is_name_start c \<and> list_all is_name_char cs)"

text \<open>
  \<^verbatim>\<open>NAME=value\<close>: the name and the value of a token. Tokens have no white space, so \<^verbatim>\<open>\S\<close> is
  any character of one.
\<close>

definition split_assignment :: "pstr \<Rightarrow> (pstr \<times> pstr) option" where
  "split_assignment tok =
     (let name = takeWhile (\<lambda>c. c \<noteq> 61) tok; rest = dropWhile (\<lambda>c. c \<noteq> 61) tok
      in if rest \<noteq> [] \<and> is_NAME name then Some (name, tl rest) else None)"

definition is_env_assignment :: "pstr \<Rightarrow> bool" where
  "is_env_assignment tok \<longleftrightarrow> (case split_assignment tok of None \<Rightarrow> False | Some (_, v) \<Rightarrow> v \<noteq> [] \<and> (\<forall>c\<in>set v. \<not> is_space c))"

definition is_glue_assignment :: "pstr \<Rightarrow> bool" where
  "is_glue_assignment tok \<longleftrightarrow> (case split_assignment tok of None \<Rightarrow> False | Some (_, v) \<Rightarrow> \<forall>c\<in>set v. \<not> is_space c)"

definition is_simple_word :: "pstr \<Rightarrow> bool" where
  "is_simple_word tok \<longleftrightarrow>
     (tok \<noteq> [] \<and> list_all (\<lambda>c. is_alpha c \<or> is_digit c \<or> c \<in> {46, 95, 45}) tok)
     \<or> (length tok > 3 \<and> take 2 tok = [36, 123] \<and> last tok = 125 \<and> is_NAME (butlast (drop 2 tok)))"

text \<open>\<^verbatim>\<open>[fd]>\<close> or \<^verbatim>\<open>[fd]>>\<close>: what follows it in the token.\<close>

definition redirect_target :: "pstr \<Rightarrow> pstr option" where
  "redirect_target tok =
     (let r = dropWhile is_nd tok
      in if r \<noteq> [] \<and> hd r = 62 then Some (if tl r \<noteq> [] \<and> hd (tl r) = 62 then tl (tl r) else tl r) else None)"

definition is_tmp_target :: "pstr \<Rightarrow> bool" where
  "is_tmp_target s \<longleftrightarrow> prefix (u ''/tmp/'') s \<and> length s > 5 \<and> (\<forall>c\<in>set (drop 5 s). \<not> is_space c)"

section \<open>Splitting at the top level\<close>

fun split_loop :: "nat option \<Rightarrow> nat option \<Rightarrow> pstr \<Rightarrow> pstr \<Rightarrow> pstr list option" where
  "split_loop before quote buf [] = (if quote \<noteq> None then None else Some [rev buf])"
| "split_loop before quote buf (ch # cs) =
     (if ch = 92 then
        (case cs of [] \<Rightarrow> split_loop (Some ch) quote (ch # buf) []
         | d # ds \<Rightarrow> split_loop (Some d) quote (d # ch # buf) ds)
      else if quote \<noteq> None then split_loop (Some ch) (if quote = Some ch then None else quote) (ch # buf) cs
      else if ch = 39 \<or> ch = 34 then split_loop (Some ch) (Some ch) (ch # buf) cs
      else if ch = 10 then map_option (Cons (rev buf)) (split_loop (Some ch) None [] cs)
      else if (ch = 38 \<or> ch = 124) \<and> cs \<noteq> [] \<and> hd cs = ch
      then map_option (Cons (rev buf)) (split_loop (Some ch) None [] (tl cs))
      else if ch = 38 then (if before = Some 62 then split_loop (Some ch) None (ch # buf) cs else None)
      else if ch = 60 then None
      else if ch = 59 \<or> ch = 124 then map_option (Cons (rev buf)) (split_loop (Some ch) None [] cs)
      else split_loop (Some ch) None (ch # buf) cs)"

definition split_top_level :: "pstr \<Rightarrow> pstr list option" where
  "split_top_level command =
     map_option (\<lambda>segments. filter (\<lambda>s. s \<noteq> []) (map py_strip segments)) (split_loop None None [] command)"

section \<open>One segment\<close>

definition strip_control_prefix :: "pstr \<Rightarrow> pstr" where
  "strip_control_prefix segment =
     py_join [32] (dropWhile (\<lambda>tok. tok \<in> {u ''do'', u ''then'', u ''else''}) (py_split segment))"

fun strip_redirects :: "pstr list \<Rightarrow> pstr list option" where
  "strip_redirects [] = Some []"
| "strip_redirects (tok # toks) =
     (if tok = u ''2>&1'' then strip_redirects toks
      else case redirect_target tok of
        Some target \<Rightarrow>
          (if target = [] then
             (case toks of
                [] \<Rightarrow> None
              | target' # rest \<Rightarrow>
                  if \<not> is_tmp_target target' \<or> py_in (u ''..'') target' then None else strip_redirects rest)
           else if \<not> is_tmp_target target \<or> py_in (u ''..'') target then None
           else strip_redirects toks)
      | None \<Rightarrow>
          if 62 \<in> set tok then None
          else map_option (Cons tok) (strip_redirects toks))"

fun strip_env_assignments :: "pstr list \<Rightarrow> pstr list option" where
  "strip_env_assignments [] = Some []"
| "strip_env_assignments (tok # toks) =
     (if is_env_assignment tok
      then (case split_assignment tok of
              Some (_, c # _) \<Rightarrow> if c = 39 \<or> c = 34 then None else strip_env_assignments toks
            | _ \<Rightarrow> None)
      else Some (tok # toks))"

definition is_glue :: "pstr list \<Rightarrow> bool" where
  "is_glue tokens \<longleftrightarrow>
     (case tokens of
        [] \<Rightarrow> True
      | head # rest \<Rightarrow>
          if rest = [] \<and> head \<in> {u ''done'', u ''fi''} then True
          else if rest = [] \<and> is_glue_assignment head then True
          else if head \<in> {u ''echo'', u ''true'', u ''test''} then True
          else if head = u ''exit'' then length tokens \<le> 2
          else if head = u ''['' then last tokens = u '']''
          else if head = u ''if'' then length tokens \<ge> 3 \<and> tokens ! 1 = u ''['' \<and> last tokens = u '']''
          else if head = u ''for'' then
            length tokens \<ge> 3 \<and> is_NAME (tokens ! 1) \<and> tokens ! 2 = u ''in'' \<and> list_all is_simple_word (drop 3 tokens)
          else if head \<in> {u ''tail'', u ''head''} then
            list_all (\<lambda>tok. prefix (u ''-'') tok \<or> (prefix (u ''/tmp/'') tok \<and> \<not> py_in (u ''..'') tok)) rest
          else False)"

section \<open>The match\<close>

definition is_composite_command :: "pstr \<Rightarrow> bool" where
  "is_composite_command command \<longleftrightarrow>
     contains_hard_reject command \<or> 62 \<in> set command
     \<or> (case split_top_level command of None \<Rightarrow> True | Some segments \<Rightarrow> length segments > 1)"

text \<open>How a segment was covered: glue, or the delegation it matched.\<close>

datatype via = Glue | Via pstr

definition match_segment :: "pstr list \<Rightarrow> pstr list \<Rightarrow> pstr \<Rightarrow> via option" where
  "match_segment active active_exact raw =
     (let stripped = strip_control_prefix raw in
      if stripped = [] then Some Glue
      else let tokens = py_split stripped in
        if hd tokens \<in> {u ''eval'', u ''source''} then None
        else case strip_redirects tokens of
          None \<Rightarrow> None
        | Some after_redirects \<Rightarrow>
            (case strip_env_assignments after_redirects of
               None \<Rightarrow> None
             | Some after_env \<Rightarrow>
                 if is_glue after_env then Some Glue
                 else let rest = py_join [32] after_env in
                   case find (\<lambda>item. rest = item) active_exact of
                     Some item \<Rightarrow> Some (Via item)
                   | None \<Rightarrow> map_option Via (find (\<lambda>p. py_startswith rest p) active)))"

fun match_segments :: "pstr list \<Rightarrow> pstr list \<Rightarrow> pstr list \<Rightarrow> (pstr \<times> via) list option" where
  "match_segments active active_exact [] = Some []"
| "match_segments active active_exact (raw # raws) =
     (case match_segment active active_exact raw of
        None \<Rightarrow> None
      | Some v \<Rightarrow> map_option (Cons (raw, v)) (match_segments active active_exact raws))"

definition normalize_match :: "pstr \<Rightarrow> pstr list \<Rightarrow> pstr list \<Rightarrow> (pstr \<times> via) list option" where
  "normalize_match command delegated exact_commands =
     (let active = filter (\<lambda>p. p \<noteq> []) delegated;
          active_exact = map (\<lambda>item. py_join [32] (py_split item)) (filter (\<lambda>item. py_strip item \<noteq> []) exact_commands) in
      if py_strip command = [] then None
      else if active = [] \<and> active_exact = [] then None
      else if contains_hard_reject command then None
      else case split_top_level command of
        None \<Rightarrow> None
      | Some [] \<Rightarrow> None
      | Some (s # segs) \<Rightarrow>
          (case match_segments active active_exact (s # segs) of
             None \<Rightarrow> None
           | Some matched \<Rightarrow> if list_all (\<lambda>(_, v). v = Glue) matched then None else Some matched))"

section \<open>What a match guarantees\<close>

text \<open>The files a segment's redirections open.\<close>

fun redirect_targets :: "pstr list \<Rightarrow> pstr list" where
  "redirect_targets [] = []"
| "redirect_targets (tok # toks) =
     (if tok = u ''2>&1'' then redirect_targets toks
      else case redirect_target tok of
        None \<Rightarrow> redirect_targets toks
      | Some [] \<Rightarrow> (case toks of [] \<Rightarrow> [] | t # rest \<Rightarrow> t # redirect_targets rest)
      | Some t \<Rightarrow> t # redirect_targets toks)"

definition confined :: "pstr \<Rightarrow> bool" where
  "confined t \<longleftrightarrow> is_tmp_target t \<and> \<not> py_in (u ''..'') t"

lemma strip_redirects_confined:
  "strip_redirects toks = Some out \<Longrightarrow> (\<forall>t\<in>set (redirect_targets toks). confined t) \<and> (\<forall>t\<in>set out. 62 \<notin> set t \<and> t \<in> set toks)"
proof (induction toks arbitrary: out rule: strip_redirects.induct)
  case (2 tok toks)
  show ?case
  proof (cases "tok = u ''2>&1''")
    case True
    then have "strip_redirects toks = Some out" using 2(5) by simp
    then show ?thesis using 2(1) [OF True] True by simp
  next
    case nf: False
    show ?thesis
    proof (cases "redirect_target tok")
      case None
      then have "62 \<notin> set tok" using 2(5) nf by (auto split: if_splits)
      moreover obtain out' where "out = tok # out'" "strip_redirects toks = Some out'"
        using 2(5) nf None calculation by auto
      ultimately show ?thesis using 2(2) [OF nf None] nf None by auto
    next
      case (Some target)
      show ?thesis
      proof (cases target)
        case Nil
        then obtain t rest where t: "toks = t # rest" using 2(5) nf Some by (cases toks) auto
        then have c: "confined t" "strip_redirects rest = Some out"
          using 2(5) nf Some Nil by (auto simp: confined_def split: if_splits)
        then show ?thesis using 2(3) [OF nf Some Nil t] nf Some Nil t by (simp add: confined_def)
      next
        case (Cons a as)
        then have c: "confined target" "strip_redirects toks = Some out"
          using 2(5) nf Some by (auto simp: confined_def split: if_splits)
        then show ?thesis using 2(4) [OF nf Some] nf Some Cons by (simp add: confined_def)
      qed
    qed
  qed
qed simp

lemma strip_env_suffix: "strip_env_assignments toks = Some e \<Longrightarrow> set e \<subseteq> set toks"
  by (induction toks) (auto split: if_splits option.splits list.splits)

definition glue_heads :: "pstr set" where
  "glue_heads = u ` {''done'', ''fi'', ''echo'', ''true'', ''test'', ''exit'', ''['', ''if'', ''for'', ''tail'', ''head''}"

lemma is_glue_head: "is_glue e \<Longrightarrow> e = [] \<or> hd e \<in> glue_heads \<or> (\<exists>a. e = [a] \<and> is_glue_assignment a)"
  by (auto simp: is_glue_def glue_heads_def split: list.splits if_splits)

lemma find_SomeD: "find P xs = Some x \<Longrightarrow> x \<in> set xs \<and> P x"
  by (induction xs) (auto split: if_splits)

text \<open>
  What it means that a segment is covered: nothing is left of it; or its redirections are confined
  and what it runs is glue, or begins with a delegated prefix, or has the very words of an exactly
  delegated command.
\<close>

definition covered :: "pstr list \<Rightarrow> pstr list \<Rightarrow> pstr \<Rightarrow> via \<Rightarrow> bool" where
  "covered delegated exact_commands raw v \<longleftrightarrow>
     (let toks = py_split (strip_control_prefix raw) in
      toks = [] \<and> v = Glue
      \<or> hd toks \<notin> {u ''eval'', u ''source''} \<and> (\<forall>t\<in>set (redirect_targets toks). confined t)
        \<and> (\<exists>e. set e \<subseteq> set toks \<and> (\<forall>t\<in>set e. 62 \<notin> set t)
             \<and> (case v of
                  Glue \<Rightarrow> is_glue e
                | Via p \<Rightarrow> p \<in> set delegated \<and> p \<noteq> [] \<and> prefix p (py_join [32] e)
                          \<or> (\<exists>item\<in>set exact_commands. p = py_join [32] (py_split item) \<and> e = py_split item))))"

lemma match_segment_covered:
  assumes "match_segment (filter (\<lambda>p. p \<noteq> []) delegated)
      (map (\<lambda>item. py_join [32] (py_split item)) (filter (\<lambda>item. py_strip item \<noteq> []) exact_commands)) raw = Some v"
  shows "covered delegated exact_commands raw v"
proof (cases "strip_control_prefix raw = []")
  case True
  then show ?thesis using assms by (simp add: match_segment_def covered_def py_split_def)
next
  case False
  let ?toks = "py_split (strip_control_prefix raw)"
  obtain r e where s: "hd ?toks \<notin> {u ''eval'', u ''source''}" "strip_redirects ?toks = Some r" "strip_env_assignments r = Some e"
    using assms False by (auto simp: match_segment_def Let_def split: if_splits option.splits)
  have sub: "set e \<subseteq> set ?toks" "\<forall>t\<in>set e. 62 \<notin> set t" "\<forall>t\<in>set (redirect_targets ?toks). confined t"
    using strip_env_suffix [OF s(3)] strip_redirects_confined [OF s(2)] by auto
  have words: "py_split (py_join [32] e) = e"
    using sub(1) py_split_word by (intro py_split_join) blast
  have "case v of Glue \<Rightarrow> is_glue e
      | Via p \<Rightarrow> p \<in> set delegated \<and> p \<noteq> [] \<and> prefix p (py_join [32] e)
          \<or> (\<exists>item\<in>set exact_commands. p = py_join [32] (py_split item) \<and> e = py_split item)"
  proof (cases "is_glue e")
    case True
    then show ?thesis using assms False s by (simp add: match_segment_def)
  next
    case ng: False
    show ?thesis
    proof (cases "find (\<lambda>item. py_join [32] e = item)
        (map (\<lambda>item. py_join [32] (py_split item)) (filter (\<lambda>item. py_strip item \<noteq> []) exact_commands))")
      case None
      then obtain p where "v = Via p" "find (\<lambda>p. py_startswith (py_join [32] e) p) (filter (\<lambda>p. p \<noteq> []) delegated) = Some p"
        using assms False s ng by (auto simp: match_segment_def)
      then show ?thesis by (auto dest!: find_SomeD simp: py_startswith_def)
    next
      case (Some item)
      then have "v = Via item" using assms False s ng by (simp add: match_segment_def)
      moreover obtain i where "i \<in> set exact_commands" "item = py_join [32] (py_split i)" "py_join [32] e = item"
        using find_SomeD [OF Some] by auto
      moreover have "e = py_split i" using calculation(3,4) words py_split_join_split by metis
      ultimately show ?thesis by auto
    qed
  qed
  then show ?thesis unfolding covered_def Let_def using s(1) sub by blast
qed

lemma match_segments_covered:
  "match_segments a x segs = Some ms \<Longrightarrow> map fst ms = segs \<and> (\<forall>(s, v)\<in>set ms. match_segment a x s = Some v)"
  by (induction segs arbitrary: ms) (auto split: option.splits)


section \<open>The scanner against simpler ones\<close>

definition separators :: "nat set" where
  "separators = {10, 38, 59, 124}"

fun pieces :: "pstr \<Rightarrow> pstr \<Rightarrow> pstr list" where
  "pieces buf [] = [rev buf]"
| "pieces buf (c # cs) = (if c \<in> separators then rev buf # pieces [] cs else pieces (c # buf) cs)"

definition nonblank :: "pstr list \<Rightarrow> pstr list" where
  "nonblank segments = filter (\<lambda>s. s \<noteq> []) (map py_strip segments)"

lemma py_strip_Nil [simp]: "py_strip [] = []"
  by (simp add: py_strip_def)

lemma nonblank_simps [simp]:
  "nonblank [] = []" "nonblank (s # ss) = (if py_strip s = [] then nonblank ss else py_strip s # nonblank ss)"
  by (simp_all add: nonblank_def)

lemma split_loop_pieces:
  "set cs \<inter> {92, 39, 34, 62} = {} \<Longrightarrow> before \<noteq> Some 62 \<Longrightarrow> split_loop before None buf cs = Some segs \<Longrightarrow>
     nonblank segs = nonblank (pieces buf cs)"
proof (induction cs arbitrary: before buf segs rule: length_induct)
  case (1 cs)
  show ?case
  proof (cases cs)
    case Nil
    then show ?thesis using 1 by simp
  next
    case (Cons c rest)
    have c: "c \<noteq> 92" "c \<noteq> 39" "c \<noteq> 34" "c \<noteq> 62" and rest: "set rest \<inter> {92, 39, 34, 62} = {}"
      using 1(2) Cons by auto
    have IH: "nonblank s = nonblank (pieces b r)"
      if "length r < length cs" "set r \<inter> {92, 39, 34, 62} = {}" "p \<noteq> Some 62" "split_loop p None b r = Some s" for p b r s
      using 1(1) that by blast
    show ?thesis
    proof (cases "c \<in> separators")
      case False
      then have "split_loop (Some c) None (c # buf) rest = Some segs"
        using 1(4) Cons c by (auto simp: separators_def split: if_splits)
      then show ?thesis using IH [of rest "Some c"] False c Cons rest by simp
    next
      case sep: True
      show ?thesis
      proof (cases "(c = 38 \<or> c = 124) \<and> rest \<noteq> [] \<and> hd rest = c")
        case True
        then obtain rest' where r: "rest = c # rest'" by (cases rest) auto
        then obtain s where s: "segs = rev buf # s" "split_loop (Some c) None [] rest' = Some s"
          using 1(4) Cons c True by auto
        then show ?thesis using IH [of rest' "Some c" "[]" s] sep c Cons rest r by simp
      next
        case False
        then obtain s where "segs = rev buf # s" "split_loop (Some c) None [] rest = Some s"
          using 1(3,4) Cons c sep by (auto simp: separators_def)
        then show ?thesis using IH [of rest "Some c" "[]" s] sep c Cons rest by simp
      qed
    qed
  qed
qed

text \<open>
  On a command without quotes, backslashes and redirections the index loop of _split_top_level is
  the obvious one: whenever it accepts, its segments are the non-blank pieces between newlines,
  ampersands, semicolons and bars.
\<close>
theorem plain_split_is_charwise:
  assumes "set command \<inter> {92, 39, 34, 62} = {}" and "split_top_level command = Some segs"
  shows "segs = nonblank (pieces [] command)"
proof -
  obtain raw where "split_loop None None [] command = Some raw" "segs = nonblank raw"
    using assms(2) by (auto simp: split_top_level_def nonblank_def)
  then show ?thesis using split_loop_pieces [OF assms(1)] by auto
qed

theorem plain_split_is_charwise_witness: "[u ''a'', u ''b'', u ''c''] = nonblank (pieces [] (u ''a&& b;c''))"
  by (rule plain_split_is_charwise) (simp_all add: u_def split_top_level_def py_strip_def is_space_def)

text \<open>
  A shell's reading of the same separators: inside single quotes a backslash is an ordinary
  character (inside double quotes and outside it escapes the next one), and an unquoted number sign
  at the start of a word begins a comment.
\<close>

fun shell_segments :: "nat option \<Rightarrow> nat option \<Rightarrow> pstr \<Rightarrow> pstr \<Rightarrow> pstr list" where
  "shell_segments before quote buf [] = [rev buf]"
| "shell_segments before quote buf (ch # cs) =
     (if ch = 92 \<and> quote \<noteq> Some 39 then
        (case cs of [] \<Rightarrow> [rev (ch # buf)] | d # ds \<Rightarrow> shell_segments (Some d) quote (d # ch # buf) ds)
      else if quote \<noteq> None then shell_segments (Some ch) (if quote = Some ch then None else quote) (ch # buf) cs
      else if ch = 39 \<or> ch = 34 then shell_segments (Some ch) (Some ch) (ch # buf) cs
      else if ch = 35 \<and> (case before of None \<Rightarrow> True | Some b \<Rightarrow> is_space b \<or> b \<in> separators)
      then rev buf # (case dropWhile (\<lambda>c. c \<noteq> 10) cs of [] \<Rightarrow> [] | _ # rest \<Rightarrow> (if length rest < length cs then shell_segments (Some 10) None [] rest else []))
      else if ch \<in> separators \<and> \<not> (ch = 38 \<and> before = Some 62) then rev buf # shell_segments (Some ch) None [] cs
      else shell_segments (Some ch) None (ch # buf) cs)"

text \<open>\<^verbatim>\<open>node x; echo '\'; rm -rf / #'\<close>\<close>

definition hidden_command :: pstr where
  "hidden_command = u ''node x; echo '' @ [39, 92, 39] @ u ''; rm -rf / #'' @ [39]"

lemma hidden_split:
  "split_top_level hidden_command = Some [u ''node x'', u ''echo '' @ [39, 92, 39] @ u ''; rm -rf / #'' @ [39]]"
  by (simp add: hidden_command_def u_def split_top_level_def py_strip_def is_space_def)

lemma hidden_shell:
  "u ''rm -rf /'' \<in> set (nonblank (shell_segments None None [] hidden_command))"
  by (simp add: hidden_command_def u_def separators_def py_strip_def is_space_def)

lemma hidden_segments:
  "match_segment [u ''node x''] [] (u ''node x'') = Some (Via (u ''node x''))"
  "match_segment [u ''node x''] [] (u ''echo '' @ [39, 92, 39] @ u ''; rm -rf / #'' @ [39]) = Some Glue"
proof -
  have s: "py_split (u ''node x'') = [u ''node'', u ''x'']"
    "py_split (u ''echo '' @ [39, 92, 39] @ u ''; rm -rf / #'' @ [39])
       = [u ''echo'', [39, 92, 39, 59], u ''rm'', u ''-rf'', u ''/'', [35, 39]]"
    by (simp_all add: u_def py_split_def is_space_def)
  have c: "strip_control_prefix (u ''node x'') = u ''node x''"
    "strip_control_prefix (u ''echo '' @ [39, 92, 39] @ u ''; rm -rf / #'' @ [39]) = u ''echo '' @ [39, 92, 39] @ u ''; rm -rf / #'' @ [39]"
    unfolding strip_control_prefix_def s by (simp_all add: u_def)
  have r: "strip_redirects [u ''node'', u ''x''] = Some [u ''node'', u ''x'']"
    "strip_redirects [u ''echo'', [39, 92, 39, 59], u ''rm'', u ''-rf'', u ''/'', [35, 39]]
       = Some [u ''echo'', [39, 92, 39, 59], u ''rm'', u ''-rf'', u ''/'', [35, 39]]"
    by (simp_all add: u_def redirect_target_def is_nd_def nd_zeros_def)
  have e: "strip_env_assignments [u ''node'', u ''x''] = Some [u ''node'', u ''x'']"
    "strip_env_assignments [u ''echo'', [39, 92, 39, 59], u ''rm'', u ''-rf'', u ''/'', [35, 39]]
       = Some [u ''echo'', [39, 92, 39, 59], u ''rm'', u ''-rf'', u ''/'', [35, 39]]"
    by (simp_all add: u_def is_env_assignment_def split_assignment_def)
  have g: "\<not> is_glue [u ''node'', u ''x'']" "is_glue [u ''echo'', [39, 92, 39, 59], u ''rm'', u ''-rf'', u ''/'', [35, 39]]"
    by (simp_all add: is_glue_def)
  show "match_segment [u ''node x''] [] (u ''node x'') = Some (Via (u ''node x''))"
    unfolding match_segment_def Let_def c(1) s(1)
    by (simp add: r e g py_startswith_def del: strip_redirects.simps strip_env_assignments.simps) (simp add: u_def)
  show "match_segment [u ''node x''] [] (u ''echo '' @ [39, 92, 39] @ u ''; rm -rf / #'' @ [39]) = Some Glue"
    unfolding match_segment_def Let_def c(2) s(2)
    by (simp add: r e g del: strip_redirects.simps strip_env_assignments.simps)
qed



end
