(* ===== verification/Canonical_Json.thy ===== *)
theory Canonical_Json
  imports PyValue "HOL-Library.List_Lexorder"
begin

text \<open>
  The canonical JSON text over which AgentDeck takes its digests: \<^verbatim>\<open>json.dumps\<close> with
  \<^verbatim>\<open>sort_keys\<close>, compact separators, \<^verbatim>\<open>ensure_ascii=False\<close> and \<^verbatim>\<open>allow_nan=False\<close>, and
  \<^verbatim>\<open>execution_digest\<close> of \<^verbatim>\<open>src/agentdeck/conversation/bindings.py\<close>. SHA-256 of a text's UTF-8
  bytes is the argument \<open>sha\<close>.

  Reading the text back gives the value with the keys of every dictionary sorted (\<open>canon\<close>). The text
  does not exist when a string holds a surrogate (it has no UTF-8 encoding) or an integer has more than
  4300 digits (Python refuses to convert it).

  The lemmas show that the text determines the canonical value, so two values have the same text
  exactly when they differ in the order of keys only.
\<close>

section \<open>The text\<close>

fun canon :: "pyval \<Rightarrow> pyval" where
  "canon (PList xs) = PList (map canon xs)"
| "canon (PDict d) = PDict (sort_key fst (map (\<lambda>(k, v). (k, canon v)) d))"
| "canon v = v"

definition json_char :: "nat \<Rightarrow> pstr" where
  "json_char c =
     (if c = 34 then [92, 34] else if c = 92 then [92, 92]
      else if c = 10 then [92, 110] else if c = 13 then [92, 114] else if c = 9 then [92, 116]
      else if c = 8 then [92, 98] else if c = 12 then [92, 102]
      else if c < 32 then [92, 117, 48, 48, hex_digit (c div 16), hex_digit (c mod 16)]
      else [c])"

definition json_string :: "pstr \<Rightarrow> pstr" where
  "json_string s = [34] @ concat (map json_char s) @ [34]"

fun json_text :: "pyval \<Rightarrow> pstr" where
  "json_text PNone = u ''null''"
| "json_text (PBool b) = (if b then u ''true'' else u ''false'')"
| "json_text (PInt i) = show_int i"
| "json_text (PStr s) = json_string s"
| "json_text (PList xs) = [91] @ py_join [44] (map json_text xs) @ [93]"
| "json_text (PDict d) = [123] @ py_join [44] (map (\<lambda>(k, v). json_string k @ [58] @ json_text v) d) @ [125]"

text \<open>Values whose text exists and has a UTF-8 encoding.\<close>

definition encodable :: "pstr \<Rightarrow> bool" where
  "encodable s \<longleftrightarrow> list_all (\<lambda>c. \<not> (55296 \<le> c \<and> c \<le> 57343)) s"

fun json_ok :: "pyval \<Rightarrow> bool" where
  "json_ok (PInt i) = (length (digits (nat \<bar>i\<bar>)) \<le> 4300)"
| "json_ok (PStr s) = encodable s"
| "json_ok (PList xs) = list_all json_ok xs"
| "json_ok (PDict d) = list_all (\<lambda>(k, v). encodable k \<and> json_ok v) d"
| "json_ok v = True"

definition utf8_bytes :: "pstr \<Rightarrow> nat" where
  "utf8_bytes s = sum_list (map (\<lambda>c. if c < 128 then 1 else if c < 2048 then 2 else if c < 65536 then 3 else 4) s)"

definition json_dumps :: "pyval \<Rightarrow> pstr option" where
  "json_dumps v = (if json_ok v then Some (json_text (canon v)) else None)"

text \<open>\<^verbatim>\<open>execution_digest\<close>; every failure is a \<^verbatim>\<open>ValueError\<close>.\<close>

definition execution_digest :: "(pstr \<Rightarrow> pstr) \<Rightarrow> pyval \<Rightarrow> py_exn + pstr" where
  "execution_digest sha facts =
     (if \<not> is_dict facts then Inl (ValueError ''execution facts must be canonical JSON'')
      else case json_dumps facts of
        None \<Rightarrow> Inl (ValueError ''execution facts must be canonical JSON'')
      | Some payload \<Rightarrow> Inr (sha payload))"

section \<open>The text determines the value\<close>

text \<open>What may follow the text of a value inside a larger one.\<close>

definition delimited :: "pstr \<Rightarrow> bool" where
  "delimited r \<longleftrightarrow> r = [] \<or> hd r \<in> {44, 93, 125}"

lemma delimited_simps [simp]: "delimited []" "delimited (44 # r)" "delimited (93 # r)" "delimited (125 # r)"
  by (simp_all add: delimited_def)

definition unhex :: "nat \<Rightarrow> nat" where
  "unhex c = (if c < 58 then c - 48 else c - 87)"

lemma unhex_hex_digit [simp]: "unhex (hex_digit n) = n"
  by (simp add: unhex_def hex_digit_def)

definition first_char :: "pstr \<Rightarrow> nat \<times> pstr" where
  "first_char s =
     (if hd s \<noteq> 92 then (hd s, tl s)
      else let e = s ! 1 in
        if e = 117 then (16 * unhex (s ! 4) + unhex (s ! 5), drop 6 s)
        else (if e = 110 then 10 else if e = 114 then 13 else if e = 116 then 9 else if e = 98 then 8
              else if e = 102 then 12 else e, drop 2 s))"

lemma first_char_hex: "first_char (92 # 117 # 48 # 48 # hex_digit a # hex_digit b # r) = (16 * a + b, r)"
  by (simp add: first_char_def)

lemma first_char_json_char: "first_char (json_char c @ r) = (c, r)"
proof (cases "c = 34 \<or> c = 92 \<or> c = 10 \<or> c = 13 \<or> c = 9 \<or> c = 8 \<or> c = 12")
  case True
  then show ?thesis by (elim disjE) (simp_all add: json_char_def first_char_def)
next
  case False
  show ?thesis
  proof (cases "c < 32")
    case True
    have "json_char c = [92, 117, 48, 48, hex_digit (c div 16), hex_digit (c mod 16)]"
      using True False unfolding json_char_def by (simp only: de_Morgan_disj if_False if_True simp_thms)
    then have "first_char (json_char c @ r) = (16 * (c div 16) + c mod 16, r)"
      by (simp only: append.simps first_char_hex)
    then show ?thesis by (simp only: mult_div_mod_eq)
  next
    case ge: False
    then show ?thesis using False by (simp add: json_char_def first_char_def)
  qed
qed

lemma json_char_inj: "json_char c @ r = json_char d @ s \<Longrightarrow> c = d \<and> r = s"
  using first_char_json_char [of c r] first_char_json_char [of d s] by (metis prod.inject)

lemma json_char_start: "json_char c \<noteq> [] \<and> hd (json_char c) \<noteq> 34"
  by (simp add: json_char_def)

lemma json_chars_inj:
  "concat (map json_char x) @ 34 # r = concat (map json_char y) @ 34 # s \<Longrightarrow> x = y \<and> r = s"
proof (induction x arbitrary: y)
  case Nil
  show ?case
  proof (cases y)
    case (Cons d y')
    then show ?thesis using Nil json_char_start [of d] by (cases "json_char d") auto
  qed (use Nil in simp)
next
  case (Cons c x)
  show ?case
  proof (cases y)
    case Nil
    then show ?thesis using Cons.prems json_char_start [of c] by (cases "json_char c") auto
  next
    case y: (Cons d y')
    have "c = d \<and> concat (map json_char x) @ 34 # r = concat (map json_char y') @ 34 # s"
      using Cons.prems y by (intro json_char_inj) simp
    then show ?thesis using Cons.IH [of y'] y by simp
  qed
qed

lemma json_string_inj: "json_string x @ r = json_string y @ s \<Longrightarrow> x = y \<and> r = s"
  by (auto simp: json_string_def dest: json_chars_inj)

lemma digits_digit: "c \<in> set (digits n) \<Longrightarrow> is_digit c"
proof (induction n rule: digits.induct)
  case (1 n)
  then show ?case using digits.simps [of n] by (auto simp: is_digit_def split: if_splits)
qed

lemma digits_not_Nil [simp]: "digits n \<noteq> []"
  using digits.simps [of n] by simp

lemma digits_value: "foldl (\<lambda>v c. 10 * v + (c - 48)) 0 (digits n) = n"
proof (induction n rule: digits.induct)
  case (1 n)
  then show ?case using digits.simps [of n] by auto
qed

lemma takeWhile_digits: "delimited r \<Longrightarrow> takeWhile is_digit (digits n @ r) = digits n"
  by (cases r) (auto simp: delimited_def is_digit_def takeWhile_append dest: digits_digit)

lemma digits_inj: "digits m @ r = digits n @ s \<Longrightarrow> delimited r \<Longrightarrow> delimited s \<Longrightarrow> m = n \<and> r = s"
proof -
  assume eq: "digits m @ r = digits n @ s" and d: "delimited r" "delimited s"
  have "digits m = digits n" using takeWhile_digits [OF d(1), of m] takeWhile_digits [OF d(2), of n] eq by simp
  moreover have "m = n" using calculation digits_value [of m] digits_value [of n] by metis
  ultimately show ?thesis using eq by simp
qed

lemma hd_digits: "is_digit (hd (digits n))"
  using digits_digit [of "hd (digits n)" n] by simp

lemma show_int_inj: "show_int i @ r = show_int j @ s \<Longrightarrow> delimited r \<Longrightarrow> delimited s \<Longrightarrow> i = j \<and> r = s"
proof -
  assume eq: "show_int i @ r = show_int j @ s" and d: "delimited r" "delimited s"
  have ne: "45 # x \<noteq> digits n @ t" for n x t
    using hd_digits [of n] by (cases "digits n") (auto simp: is_digit_def)
  show ?thesis
  proof (cases "i < 0"; cases "j < 0")
    assume "i < 0" "j < 0"
    then show ?thesis using eq d digits_inj [of "nat (- i)" r "nat (- j)" s] by (auto simp: show_int_def)
  next
    assume "\<not> i < 0" "\<not> j < 0"
    then show ?thesis using eq d digits_inj [of "nat i" r "nat j" s] by (auto simp: show_int_def)
  qed (use eq ne ne [symmetric] in \<open>auto simp: show_int_def\<close>)
qed

lemma json_text_start: "json_text v \<noteq> [] \<and> hd (json_text v) \<notin> {44, 93, 125, 58}"
proof (cases v)
  case (PInt i)
  then show ?thesis using hd_digits [of "nat i"] by (auto simp: show_int_def is_digit_def)
qed (auto simp: u_def json_string_def)

lemma py_join_Cons: "xs \<noteq> [] \<Longrightarrow> py_join sep (x # xs) = x @ sep @ py_join sep xs"
  by (cases xs) auto

lemma join_inj:
  assumes close: "close \<in> {93, 125 :: nat}"
    and start: "\<And>x. f x \<noteq> [] \<and> hd (f x) \<notin> {44, 93, 125}"
  shows "\<lbrakk>\<And>x y r s. x \<in> set xs \<Longrightarrow> f x @ r = f y @ s \<Longrightarrow> delimited r \<Longrightarrow> delimited s \<Longrightarrow> x = y \<and> r = s;
          py_join [44] (map f xs) @ close # r = py_join [44] (map f ys) @ close # s\<rbrakk> \<Longrightarrow> xs = ys \<and> r = s"
proof (induction xs arbitrary: ys)
  case Nil
  show ?case
  proof (cases ys)
    case (Cons y ys')
    then show ?thesis using Nil(2) start [of y] close
      by (cases ys'; cases "f y") auto
  qed (use Nil in simp)
next
  case (Cons x xs)
  show ?case
  proof (cases ys)
    case Nil
    then show ?thesis using Cons.prems(2) start [of x] close by (cases xs; cases "f x") auto
  next
    case y: (Cons y ys')
    have tail: "\<exists>t. py_join [44] (map f (z # zs)) @ close # q = f z @ t \<and> delimited t
      \<and> (zs = [] \<longrightarrow> t = close # q) \<and> (zs \<noteq> [] \<longrightarrow> t = 44 # py_join [44] (map f zs) @ close # q)" for z zs q
      using close by (cases zs) auto
    obtain t t' where t: "py_join [44] (map f (x # xs)) @ close # r = f x @ t" "delimited t"
        "xs = [] \<longrightarrow> t = close # r" "xs \<noteq> [] \<longrightarrow> t = 44 # py_join [44] (map f xs) @ close # r"
      and t': "py_join [44] (map f (y # ys')) @ close # s = f y @ t'" "delimited t'"
        "ys' = [] \<longrightarrow> t' = close # s" "ys' \<noteq> [] \<longrightarrow> t' = 44 # py_join [44] (map f ys') @ close # s"
      using tail [of x xs r] tail [of y ys' s] by blast
    have xy: "x = y" "t = t'" using Cons.prems(1) [of x t y t'] Cons.prems(2) t(1,2) t'(1,2) y by auto
    show ?thesis
    proof (cases "xs = []"; cases "ys' = []")
      assume "xs \<noteq> []" "ys' \<noteq> []"
      then have "py_join [44] (map f xs) @ close # r = py_join [44] (map f ys') @ close # s"
        using t(4) t'(4) xy by simp
      then have "xs = ys' \<and> r = s" by (rule Cons.IH [rotated]) (rule Cons.prems(1), simp_all)
      then show ?thesis using xy y by simp
    qed (use t(3,4) t'(3,4) xy y close in auto)
  qed
qed


text \<open>The first character tells the type of a value.\<close>

fun tag :: "pyval \<Rightarrow> nat" where
  "tag PNone = 0"
| "tag (PBool b) = 1"
| "tag (PInt i) = 2"
| "tag (PStr s) = 3"
| "tag (PList xs) = 4"
| "tag (PDict d) = 5"

definition tag_of_char :: "nat \<Rightarrow> nat" where
  "tag_of_char c = (if c = 110 then 0 else if c \<in> {116, 102} then 1 else if c = 34 then 3 else if c = 91 then 4
     else if c = 123 then 5 else 2)"

lemma tag_of_char_json_text: "tag_of_char (hd (json_text v)) = tag v"
proof (cases v)
  case (PInt i)
  then show ?thesis using hd_digits [of "nat i"] by (auto simp: show_int_def is_digit_def tag_of_char_def)
qed (auto simp: u_def json_string_def tag_of_char_def)

lemma json_text_tag: "json_text v @ r = json_text w @ s \<Longrightarrow> tag v = tag w"
  using tag_of_char_json_text [of v] tag_of_char_json_text [of w] json_text_start [of v] json_text_start [of w]
  by (metis hd_append2)

definition item_text :: "pstr \<times> pyval \<Rightarrow> pstr" where
  "item_text kv = json_string (fst kv) @ [58] @ json_text (snd kv)"

lemma item_text_start: "item_text kv \<noteq> [] \<and> hd (item_text kv) \<notin> {44, 93, 125}"
  by (simp add: item_text_def json_string_def)

lemma json_text_PDict: "json_text (PDict d) = [123] @ py_join [44] (map item_text d) @ [125]"
proof -
  have "item_text = (\<lambda>(k, v). json_string k @ [58] @ json_text v)" by (auto simp: item_text_def)
  then show ?thesis by simp
qed

lemma json_text_inj: "json_text v @ r = json_text w @ s \<Longrightarrow> delimited r \<Longrightarrow> delimited s \<Longrightarrow> v = w \<and> r = s"
proof (induction v arbitrary: w r s)
  case PNone
  then show ?case using json_text_tag [OF PNone(1)] by (cases w) auto
next
  case (PBool b)
  then show ?case using json_text_tag [OF PBool(1)] by (cases w) (auto simp: u_def split: if_splits)
next
  case (PInt i)
  obtain j where "w = PInt j" using json_text_tag [OF PInt(1)] by (cases w) auto
  then show ?case using PInt show_int_inj [of i r j s] by simp
next
  case (PStr x)
  obtain y where "w = PStr y" using json_text_tag [OF PStr(1)] by (cases w) auto
  then show ?case using PStr(1) json_string_inj [of x r y s] by simp
next
  case (PList xs)
  obtain ys where w: "w = PList ys" using json_text_tag [OF PList(2)] by (cases w) auto
  have "xs = ys \<and> r = s"
  proof (rule join_inj [of 93 json_text])
    show "py_join [44] (map json_text xs) @ 93 # r = py_join [44] (map json_text ys) @ 93 # s"
      using PList(2) w by simp
    next
    show "x = y \<and> r' = s'" if "x \<in> set xs" "json_text x @ r' = json_text y @ s'" "delimited r'" "delimited s'" for x y r' s'
      using that by (rule PList(1))
  qed (use json_text_start in simp_all)
  then show ?case using w by simp
next
  case (PDict d)
  obtain e where w: "w = PDict e" using json_text_tag [OF PDict(2)] by (cases w) auto
  have item: "kv = lw \<and> r' = s'"
    if "kv \<in> set d" "item_text kv @ r' = item_text lw @ s'" "delimited r'" "delimited s'" for kv lw r' s'
  proof -
    have "fst kv = fst lw \<and> 58 # json_text (snd kv) @ r' = 58 # json_text (snd lw) @ s'"
      using that(2) by (intro json_string_inj) (simp add: item_text_def)
    moreover have "snd kv = snd lw \<and> r' = s'"
      using calculation that by (intro PDict(1) [of kv "snd kv"]) (auto simp: prod_set_defs)
    ultimately show ?thesis by (auto simp: prod_eq_iff)
  qed
  have "d = e \<and> r = s"
  proof (rule join_inj [of 125 item_text])
    show "py_join [44] (map item_text d) @ 125 # r = py_join [44] (map item_text e) @ 125 # s"
      using PDict(2) w by (simp add: json_text_PDict del: json_text.simps)
  next
    show "kv = lw \<and> r' = s'" if "kv \<in> set d" "item_text kv @ r' = item_text lw @ s'" "delimited r'" "delimited s'" for kv lw r' s'
      using that by (rule item)
  qed (use item_text_start in simp_all)
  then show ?case using w by simp
qed

lemma json_dumps_eq_iff:
  assumes "json_dumps v = Some a" and "json_dumps w = Some b"
  shows "a = b \<longleftrightarrow> canon v = canon w"
  using assms json_text_inj [of "canon v" "[]" "canon w" "[]"] by (auto simp: json_dumps_def split: if_splits)

section \<open>Reading a canonical value\<close>

lemma map_of_filter_key: "map_of d k = map_option snd (find (\<lambda>kv. fst kv = k) d)"
  by (induction d) auto

lemma find_filter: "find P xs = (case filter P xs of [] \<Rightarrow> None | x # _ \<Rightarrow> Some x)"
  by (induction xs) auto

lemma map_of_sort_key [simp]: "map_of (sort_key fst d) = map_of d"
proof
  fix k
  have "filter (\<lambda>kv. fst kv = k) (sort_key fst d) = filter (\<lambda>kv. fst kv = k) d"
    using sort_key_stable [of fst k d] by simp
  then show "map_of (sort_key fst d) k = map_of d k"
    by (simp only: map_of_filter_key find_filter)
qed

lemma map_of_map_value: "map_of (map (\<lambda>(k, v). (k, f v)) d) k = map_option f (map_of d k)"
  by (induction d) auto

lemma is_dict_canon [simp]: "is_dict (canon v) = is_dict v"
  by (cases v) auto

lemma is_list_canon [simp]: "is_list (canon v) = is_list v"
  by (cases v) auto

lemma dget_canon [simp]: "dget (canon d) k = canon (dget d k)"
  by (cases d) (auto simp: dget_or_def map_of_map_value split: option.split)

lemma dkeys_canon [simp]: "dkeys (canon d) = dkeys d"
  by (cases d) (auto simp: dkeys_def image_iff, force+)

lemma list_items_canon [simp]: "list_items (canon v) = map canon (list_items v)"
  by (cases v) auto

lemma canon_eq_PStr [simp]: "canon v = PStr s \<longleftrightarrow> v = PStr s"
  by (cases v) auto

lemma canon_eq_PBool [simp]: "canon v = PBool b \<longleftrightarrow> v = PBool b"
  by (cases v) auto

lemma canon_eq_PInt [simp]: "canon v = PInt b \<longleftrightarrow> v = PInt b"
  by (cases v) auto

lemma canon_eq_PNone [simp]: "canon v = PNone \<longleftrightarrow> v = PNone"
  by (cases v) auto

lemma insort_key_map: "(\<And>x. k (g x) = k x) \<Longrightarrow> insort_key k (g x) (map g xs) = map g (insort_key k x xs)"
  by (induction xs) auto

lemma sort_key_map: "(\<And>x. k (g x) = k x) \<Longrightarrow> sort_key k (map g xs) = map g (sort_key k xs)"
  by (induction xs) (simp_all add: insort_key_map)

lemma sort_key_sorted: "sorted (map k xs) \<Longrightarrow> sort_key k xs = xs"
  by (induction xs) (simp_all add: insort_is_Cons)

lemma canon_canon [simp]: "canon (canon v) = canon v"
proof (induction v)
  case (PDict d)
  let ?g = "\<lambda>(k, v). (k, canon v)"
  have "sort_key fst (map ?g (sort_key fst (map ?g d))) = map ?g (map ?g (sort_key fst d))"
    by (simp add: sort_key_map case_prod_unfold sort_key_sorted)
  also have "\<dots> = map ?g (sort_key fst d)"
    using PDict by (auto simp: prod_set_defs)
  also have "\<dots> = sort_key fst (map ?g d)"
    by (simp add: sort_key_map case_prod_unfold)
  finally show ?case by simp
qed (simp_all add: comp_def)

end
