(* ===== verification/Governance.thy ===== *)
theory Governance
  imports Lease Canonical_Json
begin

text \<open>
  \<^verbatim>\<open>src/agentdeck/daemon/governance.py\<close> and \<^verbatim>\<open>src/agentdeck/conversation/bindings.py\<close>: the gates
  that an effect of a Worker passes, and the previews that a human confirms before a governance action;
  and the two operations of \<^verbatim>\<open>src/agentdeck/state.py\<close> that record and consume such a preview.

  Effects, policies, previews and reroute records are the dictionaries of the code. SHA-256 of a text is
  \<open>sha\<close>; \<open>isof\<close> and \<open>parse\<close> are \<^verbatim>\<open>isoformat\<close> of a UTC instant and \<^verbatim>\<open>fromisoformat\<close> (\<open>None\<close>
  for a string that is not an aware time), instants are microseconds. An argument \<^verbatim>\<open>now\<close> that is not
  an aware \<^verbatim>\<open>datetime\<close> is \<open>None\<close>.

  The lemmas show when an effect is authorised, what a confirmed preview is bound to, and that along
  every run of recordings and consumptions a preview is consumed at most once and only as recorded.
\<close>

datatype gov_error =
    GovernanceError string
  | PreviewBindingError string
  | Gov_ValueError string
  | Gov_OverflowError
  | Gov_TypeError
  | Gov_KeyError

section \<open>Gates\<close>

datatype gate_result = Allow | Block string string

fun allowed :: "gate_result \<Rightarrow> bool" where
  "allowed Allow = True"
| "allowed (Block gate blocker) = False"

definition canonical :: "string \<Rightarrow> pyval \<Rightarrow> string + pyval" where
  "canonical label value =
     (if \<not> is_dict value then Inl (label @ '' are invalid'')
      else case json_dumps value of
        None \<Rightarrow> Inl (label @ '' are invalid'')
      | Some encoded \<Rightarrow>
          if utf8_bytes encoded > 65536 then Inl (label @ '' are invalid'') else Inr (canon value))"

fun nonempty_str :: "pyval \<Rightarrow> pstr option" where
  "nonempty_str (PStr (c # cs)) = Some (c # cs)"
| "nonempty_str v = None"

definition string_list :: "pyval \<Rightarrow> pstr list option" where
  "string_list value =
     (case value of
        PList xs \<Rightarrow>
          if list_all (\<lambda>x. nonempty_str x \<noteq> None) xs \<and> distinct xs
          then Some (List.map_filter nonempty_str xs) else None
      | _ \<Rightarrow> None)"

definition EFFECT_FIELDS :: "pstr set" where
  "EFFECT_FIELDS = u ` {''mission_id'', ''step_id'', ''agent_id'', ''action_class'', ''transport'', ''target''}"

definition frozen_scope_gate :: "pyval \<Rightarrow> pyval \<Rightarrow> gate_result" where
  "frozen_scope_gate effect snapshot =
     (case canonical ''effect'' effect of Inl e \<Rightarrow> Block ''frozen_scope'' e
      | Inr current \<Rightarrow>
     (case canonical ''frozen scope'' snapshot of Inl e \<Rightarrow> Block ''frozen_scope'' e
      | Inr frozen \<Rightarrow>
     if dkeys current \<noteq> EFFECT_FIELDS then Block ''frozen_scope'' ''effect fields are invalid''
     else (case (string_list (dget frozen ''allowed_action_classes''), string_list (dget frozen ''allowed_targets'')) of
        (Some actions, Some targets) \<Rightarrow>
          if \<not> py_eq (dget frozen ''mission_id'') (dget current ''mission_id'') \<or> \<not> is_list (dget frozen ''steps'')
          then Block ''frozen_scope'' ''frozen Mission scope is invalid''
          else if length (filter (\<lambda>item. is_dict item
              \<and> py_eq (dget item ''step_id'') (dget current ''step_id'')
              \<and> py_eq (dget item ''agent_id'') (dget current ''agent_id'')
              \<and> py_eq (dget item ''transport'') (dget current ''transport'')) (list_items (dget frozen ''steps''))) \<noteq> 1
          then Block ''frozen_scope'' ''effect is outside frozen Worker scope''
          else if dget current ''action_class'' \<notin> PStr ` set actions
          then Block ''frozen_scope'' ''effect action class is outside frozen scope''
          else if dget current ''target'' \<notin> PStr ` set targets
          then Block ''frozen_scope'' ''effect target is outside frozen scope''
          else Allow
      | _ \<Rightarrow> Block ''frozen_scope'' ''frozen Mission scope is invalid'')))"

definition permission_policy_gate :: "pyval \<Rightarrow> pyval \<Rightarrow> gate_result" where
  "permission_policy_gate effect policy =
     (case canonical ''effect'' effect of Inl e \<Rightarrow> Block ''permission_policy'' e
      | Inr current \<Rightarrow>
     (case canonical ''permission policy'' policy of Inl e \<Rightarrow> Block ''permission_policy'' e
      | Inr current_policy \<Rightarrow>
     (case string_list (dget current_policy ''allowed_action_classes'') of
        None \<Rightarrow> Block ''permission_policy'' ''permission policy is invalid''
      | Some actions \<Rightarrow>
          if dget current ''action_class'' \<notin> PStr ` set actions
          then Block ''permission_policy'' ''action class is not permitted''
          else if dget current_policy ''permission_state'' \<noteq> PS ''approved''
          then Block ''permission_policy'' ''permission is not approved''
          else Allow)))"

definition runtime_ownership_gate :: "pyval \<Rightarrow> pyval \<Rightarrow> gate_result" where
  "runtime_ownership_gate effect runtime =
     (case canonical ''effect'' effect of Inl e \<Rightarrow> Block ''runtime_ownership'' e
      | Inr current \<Rightarrow>
     (case canonical ''runtime ownership'' runtime of Inl e \<Rightarrow> Block ''runtime_ownership'' e
      | Inr current_runtime \<Rightarrow>
          if dget current_runtime ''owner'' \<noteq> PS ''agentdeck_owned''
          then Block ''runtime_ownership'' ''Worker is not AgentDeck-owned''
          else if dget current_runtime ''ready'' \<noteq> PBool True
          then Block ''runtime_ownership'' ''Worker runtime is not ready''
          else if \<not> py_eq (dget current_runtime ''effective_transport'') (dget current ''transport'')
          then Block ''runtime_ownership'' ''Worker transport ownership drift''
          else Allow))"

fun first_block :: "gate_result list \<Rightarrow> gate_result" where
  "first_block [] = Allow"
| "first_block (decision # decisions) = (if \<not> allowed decision then decision else first_block decisions)"

definition authorize_effect :: "pyval \<Rightarrow> pyval \<Rightarrow> pyval \<Rightarrow> pyval \<Rightarrow> gate_result" where
  "authorize_effect effect snapshot policy runtime =
     first_block [frozen_scope_gate effect snapshot, permission_policy_gate effect policy,
       runtime_ownership_gate effect runtime]"

text \<open>\<^verbatim>\<open>v in {"a", "b"}\<close>: a list or a dictionary cannot be looked up in a set.\<close>

definition in_str_set :: "pyval \<Rightarrow> string list \<Rightarrow> gov_error + bool" where
  "in_str_set v names = (if py_hashable v then Inr (v \<in> set (map PS names)) else Inl Gov_TypeError)"

definition reroute_transports_valid :: "pyval \<Rightarrow> gov_error + bool" where
  "reroute_transports_valid current =
     rbind (in_str_set (dget current ''from_transport'') [''acp'', ''tmux'']) (\<lambda>a.
     if \<not> a then Inr False
     else rbind (in_str_set (dget current ''to_transport'') [''acp'', ''tmux'']) (\<lambda>b.
     if \<not> b then Inr False
     else Inr (\<not> py_eq (dget current ''from_transport'') (dget current ''to_transport''))))"

definition governance_transition_gate :: "pstr \<Rightarrow> pyval \<Rightarrow> gov_error + gate_result" where
  "governance_transition_gate action facts =
     (case canonical ''governance transition facts'' facts of
        Inl e \<Rightarrow> Inr (Block ''runtime_ownership'' e)
      | Inr current \<Rightarrow>
     let ownership = dget current ''ownership'' in
     if action = u ''prompt'' then
       (if ownership \<noteq> PS ''agentdeck_owned'' then Inr (Block ''runtime_ownership'' ''Worker is human-owned'') else Inr Allow)
     else if action = u ''takeover'' then
       (if ownership \<noteq> PS ''agentdeck_owned'' then Inr (Block ''runtime_ownership'' ''Worker is not AgentDeck-owned'')
        else if dget current ''safe_boundary'' \<noteq> PBool True
        then Inr (Block ''runtime_ownership'' ''takeover requires a safe boundary'') else Inr Allow)
     else if action = u ''return_control'' then
       (if ownership \<noteq> PS ''human_owned'' then Inr (Block ''runtime_ownership'' ''Worker is not human-owned'')
        else if dget current ''reconciled'' \<noteq> PBool True
        then Inr (Block ''runtime_ownership'' ''return requires reconciliation'') else Inr Allow)
     else if action = u ''reroute'' then
       (if ownership \<noteq> PS ''agentdeck_owned'' then Inr (Block ''runtime_ownership'' ''Worker is not AgentDeck-owned'')
        else if dget current ''attempt_state'' \<noteq> PS ''none''
        then Inr (Block ''frozen_scope'' ''reroute cannot modify a frozen attempt'')
        else rbind (reroute_transports_valid current) (\<lambda>ok.
          if \<not> ok then Inr (Block ''frozen_scope'' ''reroute transport is invalid'') else Inr Allow))
     else Inr (Block ''frozen_scope'' ''governance transition is unsupported''))"

section \<open>Previews\<close>

definition ACTIONS :: "pstr set" where
  "ACTIONS = u ` {''takeover'', ''return_control'', ''reroute'', ''permission_decision'', ''mission_pause'',
     ''mission_resume'', ''mission_cancel'', ''force_daemon_stop''}"

definition PREVIEW_FIELDS :: "pstr set" where
  "PREVIEW_FIELDS = u ` {''action'', ''generation'', ''execution_digest'', ''previewed_at'', ''expires_at'', ''state''}"

text \<open>
  The life time in microseconds: \<^verbatim>\<open>float()\<close> of an integer beyond the largest float raises
  \<^verbatim>\<open>OverflowError\<close>, which nothing catches.
\<close>

definition preview_ttl :: "pynum \<Rightarrow> gov_error + int" where
  "preview_ttl v =
     (let bad = Inl (GovernanceError ''governance preview TTL is invalid'') in
      case v of
        NInt n \<Rightarrow> if \<bar>n\<bar> \<ge> 2 ^ 1024 - 2 ^ 970 then Inl Gov_OverflowError else if n \<le> 0 then bad else Inr (n * 1000000)
      | NFloat r \<Rightarrow> if r \<le> 0 then bad else Inr (round_half_even (r * 1000000))
      | NNonFinite \<Rightarrow> bad
      | NOther \<Rightarrow> bad)"

definition build_governance_preview ::
    "(pstr \<Rightarrow> pstr) \<Rightarrow> (int \<Rightarrow> pstr) \<Rightarrow> pstr \<Rightarrow> (pstr \<times> pyval) list \<Rightarrow> pyval \<Rightarrow> int option \<Rightarrow> pynum \<Rightarrow> gov_error + pyval" where
  "build_governance_preview sha isof action facts generation now ttl_seconds =
     rfail_if (action \<notin> ACTIONS) (GovernanceError ''governance action is invalid'')
     (rfail_if (case generation of PInt g \<Rightarrow> g < 1 | _ \<Rightarrow> True) (GovernanceError ''governance generation is invalid'')
     (case now of None \<Rightarrow> Inl (GovernanceError ''governance time is invalid'')
      | Some previewed_at \<Rightarrow>
     rbind (preview_ttl ttl_seconds) (\<lambda>ttl.
     (case canonical ''governance facts'' (PDict facts) of
        Inl e \<Rightarrow> Inl (GovernanceError e)
      | Inr current \<Rightarrow>
     (case execution_digest sha current of
        Inl _ \<Rightarrow> Inl (Gov_ValueError ''execution facts must be canonical JSON'')
      | Inr digest \<Rightarrow>
     rfail_if (previewed_at + ttl > max_instant) Gov_OverflowError
     (Inr (pdict
       [(''action'', PStr action), (''generation'', generation), (''execution_digest'', PStr digest),
        (''previewed_at'', PStr (isof previewed_at)), (''expires_at'', PStr (isof (previewed_at + ttl))),
        (''state'', PS ''pending'')])))))))"

subsection \<open>conversation/bindings.py\<close>

definition replace_Z :: "pstr \<Rightarrow> pstr" where
  "replace_Z s = concat (map (\<lambda>c. if c = 90 then u ''+00:00'' else [c]) s)"

definition binding_timestamp :: "(pstr \<Rightarrow> int option) \<Rightarrow> pyval \<Rightarrow> string \<Rightarrow> gov_error + int" where
  "binding_timestamp parse value field =
     (let bad = Inl (PreviewBindingError (''preview '' @ field @ '' invalid'')) in
      case value of
        PStr s \<Rightarrow> if s = [] then bad else (case parse (replace_Z s) of None \<Rightarrow> bad | Some t \<Rightarrow> Inr t)
      | _ \<Rightarrow> bad)"

definition validate_preview_execution ::
    "(pstr \<Rightarrow> pstr) \<Rightarrow> (pstr \<Rightarrow> int option) \<Rightarrow> pyval \<Rightarrow> pyval \<Rightarrow> int option \<Rightarrow> gov_error + pyval" where
  "validate_preview_execution sha parse binding current_facts now =
     rfail_if (\<not> is_dict binding) (PreviewBindingError ''preview binding invalid'')
     (case now of None \<Rightarrow> Inl (Gov_ValueError ''now must be timezone-aware'')
      | Some t \<Rightarrow>
     rfail_if (dget binding ''state'' \<noteq> PS ''pending'') (PreviewBindingError ''preview is not pending'')
     (rbind (binding_timestamp parse (dget binding ''expires_at'') ''expires_at'') (\<lambda>expires.
     rfail_if (expires \<le> t) (PreviewBindingError ''preview expired'')
     (case dget binding ''execution_digest'' of
        PStr expected \<Rightarrow>
          rfail_if (length expected \<noteq> 64) (PreviewBindingError ''preview execution_digest invalid'')
          (case execution_digest sha current_facts of
             Inl _ \<Rightarrow> Inl (PreviewBindingError ''preview execution facts invalid'')
           | Inr actual \<Rightarrow>
               rfail_if (\<not> list_all (\<lambda>c. c < 128) expected) Gov_TypeError
               (rfail_if (expected \<noteq> actual) (PreviewBindingError ''preview state drift'') (Inr binding)))
      | _ \<Rightarrow> Inl (PreviewBindingError ''preview execution_digest invalid'')))))"

definition consume_preview_binding ::
    "(pstr \<Rightarrow> pstr) \<Rightarrow> (int \<Rightarrow> pstr) \<Rightarrow> (pstr \<Rightarrow> int option) \<Rightarrow> pyval \<Rightarrow> pyval \<Rightarrow> int option \<Rightarrow> gov_error + pyval" where
  "consume_preview_binding sha isof parse binding current_facts now =
     rbind (validate_preview_execution sha parse binding current_facts now) (\<lambda>consumed.
     Inr (dputs [(''state'', PS ''consumed''), (''consumed_at'', PStr (isof (the now)))] consumed))"

subsection \<open>Consuming a governance preview\<close>

definition expected_fields :: "pyval \<Rightarrow> pstr set" where
  "expected_fields preview = PREVIEW_FIELDS
     \<union> (if dhas preview ''preview_id'' then {u ''preview_id''} else {})
     \<union> (if dget preview ''state'' = PS ''consumed'' then {u ''consumed_at''} else {})
     \<union> (if dhas preview ''controller_lineage'' then {u ''controller_lineage''} else {})"

definition binding_of :: "pyval \<Rightarrow> pyval" where
  "binding_of preview =
     (let b = pdict (map (\<lambda>k. (k, dget preview k)) [''execution_digest'', ''expires_at'', ''state''])
      in if dhas preview ''consumed_at'' then dput ''consumed_at'' (dget preview ''consumed_at'') b else b)"

definition is_sha256_hex :: "pyval \<Rightarrow> bool" where
  "is_sha256_hex v \<longleftrightarrow> (case v of PStr s \<Rightarrow> SHA256 s | _ \<Rightarrow> False)"

definition consume_governance_preview ::
    "(pstr \<Rightarrow> pstr) \<Rightarrow> (int \<Rightarrow> pstr) \<Rightarrow> (pstr \<Rightarrow> int option) \<Rightarrow> pyval \<Rightarrow> pstr \<Rightarrow> pyval \<Rightarrow> int \<Rightarrow> int option \<Rightarrow> gov_error + pyval" where
  "consume_governance_preview sha isof parse preview action facts generation now =
     rfail_if (dkeys preview \<noteq> expected_fields preview) (PreviewBindingError ''preview fields are invalid'')
     (rfail_if (\<not> is_sha256_hex (dget preview ''execution_digest'')) (PreviewBindingError ''preview execution_digest invalid'')
     (rfail_if (dget preview ''action'' \<noteq> PStr action) (PreviewBindingError ''preview action drift'')
     (rfail_if (\<not> py_eq (dget preview ''generation'') (PInt generation)) (PreviewBindingError ''preview generation drift'')
     (rbind (consume_preview_binding sha isof parse (binding_of preview) facts now) (\<lambda>consumed.
     Inr (dputs [(''state'', dget consumed ''state''), (''consumed_at'', dget consumed ''consumed_at'')] preview))))))"

section \<open>Force stop and reroutes\<close>

definition settled_attempt_states :: "string list" where
  "settled_attempt_states = [''succeeded'', ''completed'', ''failed'', ''cancelled'', ''interrupted'', ''ambiguous'']"

fun classify_loop :: "pstr list \<Rightarrow> (pstr \<times> string) list \<Rightarrow> pyval list \<Rightarrow> gov_error + (pstr \<times> string) list" where
  "classify_loop seen result [] = Inr result"
| "classify_loop seen result (item # items) =
     (if \<not> is_dict item then Inl (GovernanceError ''force-stop attempt facts are invalid'')
      else case dget item ''attempt_id'' of
        PStr attempt_id \<Rightarrow>
          if attempt_id = [] \<or> attempt_id \<in> set seen then Inl (GovernanceError ''force-stop attempt facts are invalid'')
          else rbind (in_str_set (dget item ''state'') settled_attempt_states) (\<lambda>settled.
            if settled then classify_loop (attempt_id # seen) result items
            else if dget item ''state'' = PS ''prepared'' \<and> dget item ''receipt_summary'' = PNone
            then classify_loop (attempt_id # seen) (dict_put attempt_id ''interrupted'' result) items
            else if dget item ''state'' \<in> set (map PS [''admitting'', ''submitted'', ''running''])
            then classify_loop (attempt_id # seen) (dict_put attempt_id ''ambiguous'' result) items
            else Inl (GovernanceError ''force-stop attempt state is invalid''))
      | _ \<Rightarrow> Inl (GovernanceError ''force-stop attempt facts are invalid''))"

definition classify_force_stop_attempts :: "pyval list \<Rightarrow> gov_error + (pstr \<times> string) list" where
  "classify_force_stop_attempts attempts = classify_loop [] [] attempts"

definition REROUTE_RECORD_FIELDS :: "pstr set" where
  "REROUTE_RECORD_FIELDS = u ` {''mission_id'', ''step_id'', ''agent_id'', ''snapshot_hash'', ''mission_status'',
     ''current_step'', ''ownership'', ''attempt_state'', ''from_transport'', ''to_transport'', ''preview_id'',
     ''generation'', ''created_at''}"

text \<open>The disjunction of reasons to refuse a reroute record, in the code's order.\<close>

definition reroute_record_invalid :: "pyval \<Rightarrow> pstr \<Rightarrow> pstr \<Rightarrow> gov_error + bool" where
  "reroute_record_invalid item agent_id frozen_transport =
     (if dkeys item \<noteq> REROUTE_RECORD_FIELDS \<or> dget item ''agent_id'' \<noteq> PStr agent_id
         \<or> dget item ''from_transport'' \<noteq> PStr frozen_transport
      then Inr True
      else rbind (in_str_set (dget item ''to_transport'') [''acp'', ''tmux'']) (\<lambda>known.
        if \<not> known \<or> dget item ''to_transport'' = PStr frozen_transport
          \<or> \<not> (case dget item ''snapshot_hash'' of PStr h \<Rightarrow> take 7 h = u ''sha256:'' \<and> SHA256 (drop 7 h) | _ \<Rightarrow> False)
        then Inr True
        else rbind (in_str_set (dget item ''mission_status'') [''pending_confirmation'', ''preparing'', ''running'', ''stopped'']) (\<lambda>status.
          Inr (\<not> status
            \<or> \<not> (case dget item ''current_step'' of PInt n \<Rightarrow> n \<ge> 0 | _ \<Rightarrow> False)
            \<or> dget item ''ownership'' \<noteq> PS ''agentdeck_owned''
            \<or> dget item ''attempt_state'' \<noteq> PS ''none''
            \<or> nonempty_str (dget item ''preview_id'') = None
            \<or> \<not> (case dget item ''generation'' of PInt n \<Rightarrow> n \<ge> 1 | _ \<Rightarrow> False)
            \<or> \<not> is_str (dget item ''created_at'')))))"

definition effective_transport_for_step ::
    "(pstr \<Rightarrow> int option) \<Rightarrow> pyval \<Rightarrow> pstr \<Rightarrow> pstr \<Rightarrow> pstr \<Rightarrow> pstr \<Rightarrow> gov_error + pstr" where
  "effective_transport_for_step parse state mission_id step_id agent_id frozen_transport =
     (let records = dget_or state ''mission_transport_reroutes'' (PList []);
          matches = filter (\<lambda>item. dget item ''mission_id'' = PStr mission_id \<and> dget item ''step_id'' = PStr step_id)
            (list_items records) in
      rfail_if (frozen_transport \<notin> {u ''acp'', u ''tmux''}) (GovernanceError ''frozen transport is invalid'')
      (rfail_if (\<not> is_list records \<or> \<not> list_all is_dict (list_items records))
        (GovernanceError ''transport reroute state is invalid'')
      (case matches of
         [] \<Rightarrow> Inr frozen_transport
       | [item] \<Rightarrow>
           rbind (reroute_record_invalid item agent_id frozen_transport) (\<lambda>invalid.
           rfail_if invalid (GovernanceError ''transport reroute lineage is invalid'')
           (case parse (py_str (dget item ''created_at'')) of
              None \<Rightarrow> Inl (GovernanceError ''transport reroute lineage is invalid'')
            | Some _ \<Rightarrow> Inr (py_str (dget item ''to_transport''))))
       | _ \<Rightarrow> Inl (GovernanceError ''transport reroute lineage is ambiguous''))))"

section \<open>Recording and consuming in the state store\<close>

text \<open>
  The parts of the state that the two operations of the store read and write (a missing list of
  previews is the empty one), and the audit events they append. That the audit event is refused
  (\<^verbatim>\<open>_append_recovery_audit_locked\<close>: its id is used already, or its payload is not storable) is the
  environment's choice \<open>refused\<close>. The operations run under the store's lock and save once, at the end, so
  a failed one changes nothing.
\<close>

record gov_store =
  gs_previews :: pyval
  gs_lease :: persisted_lease
  gs_runtime :: pyval
  gs_audit :: "(string \<times> pyval) list"

definition previews_ok :: "pyval \<Rightarrow> bool" where
  "previews_ok v \<longleftrightarrow> is_list v \<and> list_all is_dict (list_items v)"

definition append_audit :: "bool \<Rightarrow> string \<Rightarrow> pyval \<Rightarrow> gov_store \<Rightarrow> gov_error + gov_store" where
  "append_audit refused kind payload store =
     (if refused then Inl (Gov_ValueError ''duplicate protocol event identity'')
      else Inr (store\<lparr>gs_audit := gs_audit store @ [(kind, payload)]\<rparr>))"

definition audit_of :: "pstr \<Rightarrow> pstr \<Rightarrow> pyval \<Rightarrow> pyval \<Rightarrow> pyval" where
  "audit_of preview_id action generation digest =
     pdict [(''preview_id'', PStr preview_id), (''action'', PStr action), (''generation'', generation),
       (''execution_digest'', digest)]"

definition authority_lineage ::
    "(pstr \<Rightarrow> pstr) \<Rightarrow> pyval \<Rightarrow> pyval \<Rightarrow> gov_error + pyval" where
  "authority_lineage sha authority generation =
     (case (dget authority ''lease_id'', dget authority ''client_id'', dget authority ''daemon_instance_id'') of
        (PStr lease_id, PStr client_id, PStr daemon_instance_id) \<Rightarrow>
          rfail_if (\<not> py_eq (dget authority ''generation'') generation)
            (Gov_ValueError ''governance controller authority is invalid'')
          (rfail_if (\<not> encodable lease_id) (Gov_ValueError ''surrogates not allowed'')
          (Inr (pdict
            [(''client_id'', PStr client_id), (''daemon_instance_id'', PStr daemon_instance_id),
             (''generation'', generation), (''lease_id_hash'', PStr (sha lease_id))])))
      | _ \<Rightarrow> Inl (Gov_ValueError ''governance controller authority is invalid''))"

text \<open>The authority a client presents is still that of the durable lease and the running daemon.\<close>

definition authority_current :: "pyval \<Rightarrow> pyval \<Rightarrow> int option \<Rightarrow> gov_store \<Rightarrow> bool" where
  "authority_current authority generation now store \<longleftrightarrow>
     (case gs_lease store of
        Lease_fields lease_id client_id _ _ _ gen \<Rightarrow>
          is_dict (gs_runtime store)
          \<and> py_eq lease_id (dget authority ''lease_id'')
          \<and> py_eq client_id (dget authority ''client_id'')
          \<and> py_eq gen generation
          \<and> py_eq (dget (gs_runtime store) ''instance_id'') (dget authority ''daemon_instance_id'')
          \<and> controller_lease_is_active (gs_lease store) now
      | _ \<Rightarrow> False)"

definition store_record_preview ::
    "(pstr \<Rightarrow> pstr) \<Rightarrow> (int \<Rightarrow> pstr) \<Rightarrow> pstr \<Rightarrow> bool \<Rightarrow> pstr \<Rightarrow> (pstr \<times> pyval) list \<Rightarrow> pyval \<Rightarrow> int option \<Rightarrow> pynum
      \<Rightarrow> pyval option \<Rightarrow> gov_store \<Rightarrow> gov_error + gov_store" where
  "store_record_preview sha isof fresh refused action facts generation now ttl authority store =
     rbind (build_governance_preview sha isof action facts generation now ttl) (\<lambda>built.
     let candidate = PDict ((u ''preview_id'', PStr fresh) # dict_items built) in
     rbind (case authority of None \<Rightarrow> Inr candidate
            | Some a \<Rightarrow> rbind (authority_lineage sha a generation) (\<lambda>l. Inr (dput ''controller_lineage'' l candidate))) (\<lambda>candidate.
     rfail_if (case authority of None \<Rightarrow> False | Some a \<Rightarrow> \<not> authority_current a generation now store)
       (Gov_ValueError ''governance controller authority drift'')
     (rfail_if (\<not> previews_ok (gs_previews store)) (Gov_ValueError ''governance preview state is invalid'')
     (rfail_if (list_ex (\<lambda>item. dget item ''preview_id'' = PStr fresh) (list_items (gs_previews store)))
       (Gov_ValueError ''duplicate governance preview identity'')
     (append_audit refused ''governance_preview_recorded''
       (audit_of fresh action generation (dget candidate ''execution_digest''))
       (store\<lparr>gs_previews := PList (list_items (gs_previews store) @ [candidate])\<rparr>))))))"

fun replace_first :: "('a \<Rightarrow> bool) \<Rightarrow> 'a \<Rightarrow> 'a list \<Rightarrow> 'a list" where
  "replace_first P y [] = []"
| "replace_first P y (x # xs) = (if P x then y # xs else x # replace_first P y xs)"

definition store_consume_preview ::
    "(pstr \<Rightarrow> pstr) \<Rightarrow> (int \<Rightarrow> pstr) \<Rightarrow> (pstr \<Rightarrow> int option) \<Rightarrow> bool \<Rightarrow> pstr \<Rightarrow> pstr \<Rightarrow> pyval \<Rightarrow> int \<Rightarrow> int option
      \<Rightarrow> gov_store \<Rightarrow> gov_error + gov_store" where
  "store_consume_preview sha isof parse refused preview_id action facts generation now store =
     (let previews = list_items (gs_previews store);
          is_it = (\<lambda>item. dget item ''preview_id'' = PStr preview_id) in
      rfail_if (\<not> previews_ok (gs_previews store)) (Gov_ValueError ''governance preview state is invalid'')
      (case filter is_it previews of
         [current] \<Rightarrow>
           rbind (consume_governance_preview sha isof parse current action facts generation now) (\<lambda>consumed.
           append_audit refused ''governance_preview_consumed''
             (audit_of preview_id action (PInt generation) (dget consumed ''execution_digest''))
             (store\<lparr>gs_previews := PList (replace_first is_it consumed previews)\<rparr>))
       | _ \<Rightarrow> Inl Gov_KeyError))"

section \<open>When an effect is authorised\<close>

lemma list_all2_zip_map: "length xs = length ys \<Longrightarrow> list_all (\<lambda>(x, y). P x y) (zip (map f xs) (map f ys)) \<longleftrightarrow>
  list_all (\<lambda>(x, y). P (f x) (f y)) (zip xs ys)"
  by (induction xs ys rule: list_induct2) auto

lemma map_of_canon_items: "map_of (dict_items (canon (PDict d))) k = map_option canon (map_of d k)"
  by (simp add: map_of_map_value)

lemma list_all_sort_key: "list_all P (sort_key f xs) = list_all P xs"
  by (simp add: list_all_iff)

lemma num_of_canon [simp]: "num_of (canon v) = num_of v"
  by (cases v) auto

text \<open>Putting two values into canonical form does not change whether they are equal.\<close>

lemma py_eq_canon [simp]: "py_eq (canon a) (canon b) = py_eq a b"
proof (induction a b rule: py_eq.induct)
  case (1 xs b)
  show ?case
  proof (cases b)
    case (PList ys)
    show ?thesis
    proof (cases "length xs = length ys")
      case True
      have "list_all (\<lambda>(x, y). py_eq (canon x) (canon y)) (zip xs ys) = list_all (\<lambda>(x, y). py_eq x y) (zip xs ys)"
        using 1 [OF PList] True by (intro list.pred_cong) auto
      then show ?thesis using PList True list_all2_zip_map [of xs ys py_eq canon] by simp
    qed (use PList in simp)
  qed auto
next
  case (2 d b)
  show ?case
  proof (cases b)
    case (PDict e)
    have "list_all (\<lambda>(k, x). case map_of (dict_items (canon (PDict e))) k of None \<Rightarrow> False | Some y \<Rightarrow> py_eq x y)
        (map (\<lambda>(k, v). (k, canon v)) d)
      = list_all (\<lambda>(k, x). case map_of e k of None \<Rightarrow> False | Some y \<Rightarrow> py_eq x y) d"
      unfolding list.pred_map map_of_canon_items
      by (rule list.pred_cong) (use 2 [OF PDict] in \<open>auto split: option.splits\<close>)
    then show ?thesis using PDict by (simp add: list_all_sort_key)
  qed auto
qed auto

lemma nonempty_str_canon [simp]: "nonempty_str (canon v) = nonempty_str v"
  by (cases v) auto

lemma distinct_nonempty: "list_all (\<lambda>x. nonempty_str x \<noteq> None) xs \<Longrightarrow> map canon xs = xs"
proof (induction xs)
  case (Cons x xs)
  then show ?case by (cases x) auto
qed simp

lemma string_list_canon [simp]: "string_list (canon v) = string_list v"
proof (cases v)
  case (PList xs)
  have "list_all (\<lambda>x. nonempty_str x \<noteq> None) (map canon xs) = list_all (\<lambda>x. nonempty_str x \<noteq> None) xs"
    by (simp add: list.pred_map comp_def)
  then show ?thesis using PList distinct_nonempty [of xs] by (auto simp: string_list_def)
qed (auto simp: string_list_def)

text \<open>A dictionary that can be written as at most 64 KiB of JSON.\<close>

definition storable :: "pyval \<Rightarrow> bool" where
  "storable v \<longleftrightarrow> is_dict v \<and> (case json_dumps v of None \<Rightarrow> False | Some s \<Rightarrow> utf8_bytes s \<le> 65536)"

lemma canonical_eq: "canonical label v = (if storable v then Inr (canon v) else Inl (label @ '' are invalid''))"
  by (auto simp: canonical_def storable_def split: option.splits)

definition same_worker :: "pyval \<Rightarrow> pyval \<Rightarrow> bool" where
  "same_worker effect item \<longleftrightarrow> is_dict item \<and> (\<forall>k\<in>{''step_id'', ''agent_id'', ''transport''}. py_eq (dget item k) (dget effect k))"


lemma first_block_Allow: "first_block ds = Allow \<longleftrightarrow> (\<forall>d\<in>set ds. d = Allow)"
proof (induction ds)
  case (Cons d ds)
  then show ?case by (cases d) auto
qed simp

text \<open>
  C32: An effect is authorised exactly when it has the six effect fields; the frozen Mission scope is of
  the same Mission, has exactly one step with the effect's step, Worker and transport, and lists its
  action class and its target; the permission policy in force also lists the action class and is
  approved; and the Worker's runtime is owned by AgentDeck, ready, and on the effect's transport. No
  other field of any of the four documents matters, and the canonical copies the gates make change
  nothing.
\<close>
theorem effect_needs_three_gates:
  "authorize_effect effect snapshot policy runtime = Allow \<longleftrightarrow>
     (storable effect \<and> storable snapshot \<and> storable policy \<and> storable runtime)
     \<and> dkeys effect = EFFECT_FIELDS
     \<and> (py_eq (dget snapshot ''mission_id'') (dget effect ''mission_id'') \<and> is_list (dget snapshot ''steps'')
        \<and> length (filter (same_worker effect) (list_items (dget snapshot ''steps''))) = 1
        \<and> (\<exists>actions targets. string_list (dget snapshot ''allowed_action_classes'') = Some actions
             \<and> string_list (dget snapshot ''allowed_targets'') = Some targets
             \<and> dget effect ''action_class'' \<in> PStr ` set actions \<and> dget effect ''target'' \<in> PStr ` set targets))
     \<and> ((\<exists>actions. string_list (dget policy ''allowed_action_classes'') = Some actions
             \<and> dget effect ''action_class'' \<in> PStr ` set actions)
        \<and> dget policy ''permission_state'' = PS ''approved'')
     \<and> (dget runtime ''owner'' = PS ''agentdeck_owned'' \<and> dget runtime ''ready'' = PBool True
        \<and> py_eq (dget runtime ''effective_transport'') (dget effect ''transport''))"
proof -
  have str: "canon v \<in> PStr ` S \<longleftrightarrow> v \<in> PStr ` S" for v S
    by (cases v) auto
  have worker: "(\<lambda>x. is_dict x \<and> py_eq (dget x ''step_id'') (canon (dget effect ''step_id''))
      \<and> py_eq (dget x ''agent_id'') (canon (dget effect ''agent_id''))
      \<and> py_eq (dget x ''transport'') (canon (dget effect ''transport''))) \<circ> canon = same_worker effect"
    by (auto simp: same_worker_def fun_eq_iff)
  have scope: "frozen_scope_gate effect snapshot = Allow \<longleftrightarrow>
     storable effect \<and> storable snapshot \<and> dkeys effect = EFFECT_FIELDS
     \<and> py_eq (dget snapshot ''mission_id'') (dget effect ''mission_id'') \<and> is_list (dget snapshot ''steps'')
     \<and> length (filter (same_worker effect) (list_items (dget snapshot ''steps''))) = 1
     \<and> (\<exists>actions targets. string_list (dget snapshot ''allowed_action_classes'') = Some actions
           \<and> string_list (dget snapshot ''allowed_targets'') = Some targets
           \<and> dget effect ''action_class'' \<in> PStr ` set actions \<and> dget effect ''target'' \<in> PStr ` set targets)"
    by (cases "string_list (dget snapshot ''allowed_action_classes'')"; cases "string_list (dget snapshot ''allowed_targets'')";
        cases "storable effect \<and> storable snapshot")
      (auto simp: frozen_scope_gate_def canonical_eq filter_map worker str)
  have policy: "permission_policy_gate effect policy = Allow \<longleftrightarrow>
     storable effect \<and> storable policy
     \<and> (\<exists>actions. string_list (dget policy ''allowed_action_classes'') = Some actions
           \<and> dget effect ''action_class'' \<in> PStr ` set actions)
     \<and> dget policy ''permission_state'' = PS ''approved''"
    by (simp add: permission_policy_gate_def canonical_eq str split: option.split)
  have runtime: "runtime_ownership_gate effect runtime = Allow \<longleftrightarrow>
     storable effect \<and> storable runtime
     \<and> dget runtime ''owner'' = PS ''agentdeck_owned'' \<and> dget runtime ''ready'' = PBool True
     \<and> py_eq (dget runtime ''effective_transport'') (dget effect ''transport'')"
    by (simp add: runtime_ownership_gate_def canonical_eq)
  have "authorize_effect effect snapshot policy runtime = Allow \<longleftrightarrow> frozen_scope_gate effect snapshot = Allow
      \<and> permission_policy_gate effect policy = Allow \<and> runtime_ownership_gate effect runtime = Allow"
    by (auto simp: authorize_effect_def first_block_Allow simp del: first_block.simps)
  then show ?thesis
    unfolding scope policy runtime by (simp only: conj_assoc) (rule iffI; elim conjE; intro conjI; assumption)
qed

section \<open>What a confirmed preview is bound to\<close>


lemma dkeys_dput: "dkeys (dput k v d) = insert (u k) (dkeys d)"
  by (simp add: dkeys_def dput_def keys_dict_put)

lemma consume_binding_Inr:
  assumes "consume_preview_binding sha isof parse binding facts now = Inr c"
  shows "\<exists>t expires. now = Some t \<and> dget binding ''state'' = PS ''pending''
      \<and> binding_timestamp parse (dget binding ''expires_at'') ''expires_at'' = Inr expires \<and> t < expires
      \<and> (\<exists>d. dget binding ''execution_digest'' = PStr d \<and> execution_digest sha facts = Inr d)
      \<and> c = dputs [(''state'', PS ''consumed''), (''consumed_at'', PStr (isof t))] binding"
  using assms
  by (auto simp: consume_preview_binding_def validate_preview_execution_def res_simps not_le
      split: option.splits pyval.splits sum.splits)

lemma dget_binding_of:
  "k \<in> {''execution_digest'', ''expires_at'', ''state''} \<Longrightarrow> dget (binding_of preview) k = dget preview k"
  by (auto simp: binding_of_def Let_def)

lemma consume_Inr:
  assumes "consume_governance_preview sha isof parse preview action facts generation now = Inr c"
  shows "\<exists>t expires d. now = Some t \<and> dget preview ''state'' = PS ''pending''
      \<and> dget preview ''action'' = PStr action \<and> py_eq (dget preview ''generation'') (PInt generation)
      \<and> binding_timestamp parse (dget preview ''expires_at'') ''expires_at'' = Inr expires \<and> t < expires
      \<and> dget preview ''execution_digest'' = PStr d \<and> execution_digest sha facts = Inr d
      \<and> c = dputs [(''state'', PS ''consumed''), (''consumed_at'', PStr (isof t))] preview"
proof -
  obtain b where b: "consume_preview_binding sha isof parse (binding_of preview) facts now = Inr b"
      "c = dputs [(''state'', dget b ''state''), (''consumed_at'', dget b ''consumed_at'')] preview"
    and a: "dget preview ''action'' = PStr action" "py_eq (dget preview ''generation'') (PInt generation)"
    using assms by (auto simp: consume_governance_preview_def res_simps)
  show ?thesis
    using consume_binding_Inr [OF b(1)] a b(2) by (auto simp: dget_binding_of)
qed

lemma consume_InrI:
  assumes "dkeys preview = expected_fields preview" "dget preview ''state'' = PS ''pending''"
    and "dget preview ''action'' = PStr action" "py_eq (dget preview ''generation'') (PInt generation)"
    and "binding_timestamp parse (dget preview ''expires_at'') ''expires_at'' = Inr expires" "t < expires"
    and "dget preview ''execution_digest'' = PStr d" "execution_digest sha facts = Inr d" "SHA256 d"
  shows "\<exists>c. consume_governance_preview sha isof parse preview action facts generation (Some t) = Inr c"
proof -
  have hex: "length d = 64" "list_all (\<lambda>c. c < 128) d"
    using assms(9) by (auto simp: SHA256_def is_hex_def is_digit_def list_all_iff)
  have dict: "is_dict (binding_of preview)"
    by (simp add: binding_of_def Let_def)
  have "\<exists>b. consume_preview_binding sha isof parse (binding_of preview) facts (Some t) = Inr b"
    using assms(2,5-8) hex dict
    by (simp add: consume_preview_binding_def validate_preview_execution_def dget_binding_of)
  then show ?thesis
    using assms(1,3,4,7,9) by (auto simp: consume_governance_preview_def is_sha256_hex_def)
qed

definition preview_expiry :: "int \<Rightarrow> pynum \<Rightarrow> int \<Rightarrow> bool" where
  "preview_expiry t0 ttl expires \<longleftrightarrow> (\<exists>us. preview_ttl ttl = Inr us \<and> expires = t0 + us)"

lemma build_Inr:
  assumes "build_governance_preview sha isof action facts generation now ttl = Inr p"
  shows "\<exists>g t0 us payload. generation = PInt g \<and> 1 \<le> g \<and> now = Some t0 \<and> preview_ttl ttl = Inr us \<and> storable (PDict facts)
    \<and> json_dumps (canon (PDict facts)) = Some payload
    \<and> p = pdict [(''action'', PStr action), (''generation'', PInt g), (''execution_digest'', PStr (sha payload)),
        (''previewed_at'', PStr (isof t0)), (''expires_at'', PStr (isof (t0 + us))), (''state'', PS ''pending'')]"
  using assms
  by (auto simp: build_governance_preview_def canonical_eq execution_digest_def res_simps not_less
      split: option.splits pyval.splits if_splits simp del: canon.simps)

text \<open>
  C33: A governance preview is bound to exactly what was previewed. Of a freshly built preview, a
  consumption succeeds exactly when it names the same action and the same generation, comes before
  the expiry, and its facts are storable as JSON and, in canonical form, those of the preview; given
  that the clock's text is read back, and that SHA-256 gives 64 hexadecimal digits and tells the two
  canonical texts apart if they differ.
\<close>
theorem preview_is_bound:
  assumes "build_governance_preview sha isof action facts (PInt g) (Some t0) ttl = Inr p"
    and "\<And>t. parse (replace_Z (isof t)) = Some t" and "\<And>t. isof t \<noteq> []"
    and "\<And>x. SHA256 (sha x)"
    and "\<And>a b. json_dumps (canon (PDict facts)) = Some a \<Longrightarrow> json_dumps (PDict facts') = Some b \<Longrightarrow> sha a = sha b \<Longrightarrow> a = b"
  shows "(\<exists>c. consume_governance_preview sha isof parse p action' (PDict facts') g' (Some t) = Inr c)
     \<longleftrightarrow> action' = action \<and> g' = g \<and> (\<exists>expires. preview_expiry t0 ttl expires \<and> t < expires)
       \<and> json_dumps (PDict facts') \<noteq> None \<and> canon (PDict facts') = canon (PDict facts)"
proof -
  obtain us payload where p: "preview_ttl ttl = Inr us" "json_dumps (canon (PDict facts)) = Some payload"
    "p = pdict [(''action'', PStr action), (''generation'', PInt g), (''execution_digest'', PStr (sha payload)),
        (''previewed_at'', PStr (isof t0)), (''expires_at'', PStr (isof (t0 + us))), (''state'', PS ''pending'')]"
    using build_Inr [OF assms(1)] by auto
  have time: "binding_timestamp parse (dget p ''expires_at'') ''expires_at'' = Inr (t0 + us)"
    using assms(2,3) p(3) by (simp add: binding_timestamp_def)
  have digest: "execution_digest sha (PDict facts') = Inr (sha payload) \<longleftrightarrow>
      json_dumps (PDict facts') \<noteq> None \<and> canon (PDict facts') = canon (PDict facts)"
  proof (cases "json_dumps (PDict facts')")
    case (Some b)
    have "sha b = sha payload \<longleftrightarrow> b = payload" using assms(5) [OF p(2) Some] by auto
    then show ?thesis
      using json_dumps_eq_iff [OF Some p(2)] Some by (simp add: execution_digest_def del: canon.simps)
  qed (simp add: execution_digest_def)
  have fields: "dkeys p = expected_fields p"
    using p(3) by (auto simp: expected_fields_def PREVIEW_FIELDS_def)
  show ?thesis
  proof
    assume "\<exists>c. consume_governance_preview sha isof parse p action' (PDict facts') g' (Some t) = Inr c"
    then show "action' = action \<and> g' = g \<and> (\<exists>expires. preview_expiry t0 ttl expires \<and> t < expires)
       \<and> json_dumps (PDict facts') \<noteq> None \<and> canon (PDict facts') = canon (PDict facts)"
      using p(1,3) time digest by (auto dest!: consume_Inr simp: preview_expiry_def simp del: canon.simps)
  next
    assume r: "action' = action \<and> g' = g \<and> (\<exists>expires. preview_expiry t0 ttl expires \<and> t < expires)
       \<and> json_dumps (PDict facts') \<noteq> None \<and> canon (PDict facts') = canon (PDict facts)"
    then have "t < t0 + us" "execution_digest sha (PDict facts') = Inr (sha payload)"
      using p(1) digest by (auto simp: preview_expiry_def)
    then show "\<exists>c. consume_governance_preview sha isof parse p action' (PDict facts') g' (Some t) = Inr c"
      using r p(3) time assms(4) fields by (intro consume_InrI) auto
  qed
qed

text \<open>A clock format and a digest to try the operations with.\<close>

definition tally :: "int \<Rightarrow> pstr" where
  "tally t = (if t < 0 then 45 else 43) # replicate (nat \<bar>t\<bar>) 49"

definition read_tally :: "pstr \<Rightarrow> int option" where
  "read_tally s = Some (if hd s = 45 then - int (length s - 1) else int (length s - 1))"

definition length_digest :: "pstr \<Rightarrow> pstr" where
  "length_digest s = replicate 64 (48 + length s mod 10)"

lemma replace_Z_id: "90 \<notin> set s \<Longrightarrow> replace_Z s = s"
  by (induction s) (auto simp: replace_Z_def)

lemma read_tally: "read_tally (replace_Z (tally t)) = Some t" "tally t \<noteq> []"
proof -
  have "replace_Z (tally t) = tally t" by (rule replace_Z_id) (auto simp: tally_def)
  then show "read_tally (replace_Z (tally t)) = Some t" by (simp add: read_tally_def tally_def)
qed (simp add: tally_def)

lemma SHA256_length_digest: "SHA256 (length_digest s)"
  by (auto simp: SHA256_def length_digest_def is_hex_def is_digit_def list_all_iff)

definition sample_facts :: "(pstr \<times> pyval) list" where
  "sample_facts = [(u ''b'', PInt 1), (u ''a'', PNone)]"

lemma sample_canonical: "canonical ''governance facts'' (PDict sample_facts) = Inr (canon (PDict sample_facts))"
  by (simp add: canonical_def sample_facts_def json_dumps_def encodable_def u_def digits.simps json_string_def
      json_char_def show_int_def utf8_bytes_def)

theorem preview_is_bound_witness:
  "\<exists>p. build_governance_preview length_digest tally (u ''reroute'') sample_facts (PInt 2) (Some 100) (NInt 3) = Inr p
     \<and> (\<exists>c. consume_governance_preview length_digest tally read_tally p (u ''reroute'') (PDict (rev sample_facts)) 2 (Some 200) = Inr c)"
proof -
  obtain p where p: "build_governance_preview length_digest tally (u ''reroute'') sample_facts (PInt 2) (Some 100) (NInt 3) = Inr p"
    using sample_canonical
    by (simp add: build_governance_preview_def ACTIONS_def preview_ttl_def execution_digest_def sample_facts_def
        json_dumps_def encodable_def u_def digits.simps max_instant_def)
  have same: "canon (PDict (rev sample_facts)) = canon (PDict sample_facts)" "json_dumps (PDict (rev sample_facts)) \<noteq> None"
    by (simp_all add: sample_facts_def u_def json_dumps_def encodable_def digits.simps)
  then have "(\<exists>c. consume_governance_preview length_digest tally read_tally p (u ''reroute'') (PDict (rev sample_facts)) 2 (Some 200) = Inr c)
      \<longleftrightarrow> u ''reroute'' = u ''reroute'' \<and> 2 = (2::int) \<and> (\<exists>expires. preview_expiry 100 (NInt 3) expires \<and> 200 < expires)
       \<and> json_dumps (PDict (rev sample_facts)) \<noteq> None \<and> canon (PDict (rev sample_facts)) = canon (PDict sample_facts)"
    by (intro preview_is_bound [OF p])
      (auto simp: read_tally SHA256_length_digest json_dumps_def simp del: canon.simps json_text.simps split: if_splits)
  then show ?thesis
    using p same by (auto simp: preview_expiry_def preview_ttl_def)
qed

section \<open>Runs of the store\<close>

text \<open>
  A run is a sequence of recordings and consumptions, each with the environment's choices, between
  which the durable lease and the daemon record may change. A failed operation changes nothing.
\<close>

datatype gov_op =
    Record_preview pstr bool pstr "(pstr \<times> pyval) list" pyval "int option" pynum "pyval option"
  | Consume_preview bool pstr pstr pyval int "int option"
  | Set_authority persisted_lease pyval

fun gov_apply :: "(pstr \<Rightarrow> pstr) \<Rightarrow> (int \<Rightarrow> pstr) \<Rightarrow> (pstr \<Rightarrow> int option) \<Rightarrow> gov_op \<Rightarrow> gov_store \<Rightarrow> gov_store" where
  "gov_apply sha isof parse (Record_preview fresh refused action facts generation now ttl authority) s =
     (case store_record_preview sha isof fresh refused action facts generation now ttl authority s of Inl _ \<Rightarrow> s | Inr s' \<Rightarrow> s')"
| "gov_apply sha isof parse (Consume_preview refused preview_id action facts generation now) s =
     (case store_consume_preview sha isof parse refused preview_id action facts generation now s of Inl _ \<Rightarrow> s | Inr s' \<Rightarrow> s')"
| "gov_apply sha isof parse (Set_authority lease runtime) s = s\<lparr>gs_lease := lease, gs_runtime := runtime\<rparr>"

definition gov_run ::
    "(pstr \<Rightarrow> pstr) \<Rightarrow> (int \<Rightarrow> pstr) \<Rightarrow> (pstr \<Rightarrow> int option) \<Rightarrow> gov_op list \<Rightarrow> gov_store" where
  "gov_run sha isof parse ops =
     fold (gov_apply sha isof parse) ops
       \<lparr>gs_previews = PList [], gs_lease = No_lease, gs_runtime = PNone, gs_audit = []\<rparr>"

abbreviation recorded :: "pyval \<Rightarrow> string \<times> pyval" where
  "recorded p \<equiv> (''governance_preview_recorded'', p)"

abbreviation consumed :: "pyval \<Rightarrow> string \<times> pyval" where
  "consumed p \<equiv> (''governance_preview_consumed'', p)"

text \<open>
  A good log: each consumption follows the recording of the very same identity, action, generation
  and digest, and no earlier consumption names that identity.
\<close>

definition log_ok :: "(string \<times> pyval) list \<Rightarrow> bool" where
  "log_ok events \<longleftrightarrow> (\<forall>xs p ys. events = xs @ consumed p # ys \<longrightarrow>
     recorded p \<in> set xs \<and> (\<forall>q. consumed q \<in> set xs \<longrightarrow> dget q ''preview_id'' \<noteq> dget p ''preview_id''))"

lemma log_ok_snoc:
  "log_ok (events @ [e]) \<longleftrightarrow> log_ok events \<and> (\<forall>p. e = consumed p \<longrightarrow>
     recorded p \<in> set events \<and> (\<forall>q. consumed q \<in> set events \<longrightarrow> dget q ''preview_id'' \<noteq> dget p ''preview_id''))"
proof -
  have split: "events @ [e] = xs @ consumed p # ys \<longleftrightarrow>
      (ys = [] \<and> xs = events \<and> e = consumed p) \<or> (\<exists>zs. ys = zs @ [e] \<and> events = xs @ consumed p # zs)" for xs p ys
    by (cases ys rule: rev_cases) auto
  show ?thesis
  proof
    assume ok: "log_ok (events @ [e])"
    have "log_ok events"
      unfolding log_ok_def
    proof (intro allI impI)
      fix xs p ys assume "events = xs @ consumed p # ys"
      then have "events @ [e] = xs @ consumed p # (ys @ [e])" by simp
      then show "recorded p \<in> set xs \<and> (\<forall>q. consumed q \<in> set xs \<longrightarrow> dget q ''preview_id'' \<noteq> dget p ''preview_id'')"
        using ok unfolding log_ok_def by blast
    qed
    moreover have "recorded p \<in> set events \<and> (\<forall>q. consumed q \<in> set events \<longrightarrow> dget q ''preview_id'' \<noteq> dget p ''preview_id'')"
      if "e = consumed p" for p
      using ok that unfolding log_ok_def by blast
    ultimately show "log_ok events \<and> (\<forall>p. e = consumed p \<longrightarrow>
      recorded p \<in> set events \<and> (\<forall>q. consumed q \<in> set events \<longrightarrow> dget q ''preview_id'' \<noteq> dget p ''preview_id''))"
      by blast
  next
    assume r: "log_ok events \<and> (\<forall>p. e = consumed p \<longrightarrow>
      recorded p \<in> set events \<and> (\<forall>q. consumed q \<in> set events \<longrightarrow> dget q ''preview_id'' \<noteq> dget p ''preview_id''))"
    show "log_ok (events @ [e])"
      unfolding log_ok_def
    proof (intro allI impI)
      fix xs p ys assume "events @ [e] = xs @ consumed p # ys"
      then consider "xs = events" "e = consumed p" | zs where "events = xs @ consumed p # zs"
        using split by blast
      then show "recorded p \<in> set xs \<and> (\<forall>q. consumed q \<in> set xs \<longrightarrow> dget q ''preview_id'' \<noteq> dget p ''preview_id'')"
        using r unfolding log_ok_def by cases blast+
    qed
  qed
qed

text \<open>What the store's list of previews has to do with its log.\<close>

definition item_ok :: "(string \<times> pyval) list \<Rightarrow> pyval \<Rightarrow> bool" where
  "item_ok events item \<longleftrightarrow> is_dict item \<and> (\<exists>i act g. dget item ''preview_id'' = PStr i \<and> dget item ''action'' = PStr act
      \<and> dget item ''generation'' = PInt g \<and> recorded (audit_of i act (PInt g) (dget item ''execution_digest'')) \<in> set events
      \<and> (dget item ''state'' = PS ''pending'' \<longrightarrow> (\<forall>q. consumed q \<in> set events \<longrightarrow> dget q ''preview_id'' \<noteq> PStr i)))"

definition gov_inv :: "gov_store \<Rightarrow> bool" where
  "gov_inv s \<longleftrightarrow> is_list (gs_previews s) \<and> log_ok (gs_audit s) \<and> (\<forall>item\<in>set (list_items (gs_previews s)). item_ok (gs_audit s) item)
     \<and> (\<forall>q. consumed q \<in> set (gs_audit s) \<longrightarrow> (\<exists>item\<in>set (list_items (gs_previews s)). dget item ''preview_id'' = dget q ''preview_id''))"

lemma build_fields:
  assumes "build_governance_preview sha isof action facts generation now ttl = Inr p"
  shows "\<exists>g. generation = PInt g \<and> dget p ''action'' = PStr action \<and> dget p ''generation'' = PInt g \<and> \<not> dhas p ''preview_id''"
  using build_Inr [OF assms] by auto

lemma item_ok_mono:
  "item_ok events item \<Longrightarrow> (\<And>q. e = consumed q \<Longrightarrow> dget q ''preview_id'' \<noteq> dget item ''preview_id'') \<Longrightarrow> item_ok (events @ [e]) item"
  by (auto simp: item_ok_def)

lemma dget_put_front: "dget (PDict ((u k, v) # d)) k' = (if k' = k then v else dget (PDict d) k')"
  by (simp add: dget_or_def)

lemma record_step:
  assumes "gov_inv s" and "store_record_preview sha isof fresh refused action facts generation now ttl authority s = Inr s'"
  shows "gov_inv s'"
proof -
  obtain p c where b: "build_governance_preview sha isof action facts generation now ttl = Inr p"
    and c: "c = PDict ((u ''preview_id'', PStr fresh) # dict_items p)
        \<or> (\<exists>l. c = dput ''controller_lineage'' l (PDict ((u ''preview_id'', PStr fresh) # dict_items p)))"
    and new: "\<not> list_ex (\<lambda>item. dget item ''preview_id'' = PStr fresh) (list_items (gs_previews s))"
    and s': "s' = s\<lparr>gs_previews := PList (list_items (gs_previews s) @ [c]),
       gs_audit := gs_audit s @ [recorded (audit_of fresh action generation (dget c ''execution_digest''))]\<rparr>"
    using assms(2)
    by (auto simp: store_record_preview_def Let_def res_simps append_audit_def split: option.splits if_splits)
  obtain g where g: "generation = PInt g" "dget p ''action'' = PStr action" "dget p ''generation'' = PInt g"
    using build_fields [OF b] by auto
  have items: "dget (PDict (dict_items p)) k = dget p k" for k by (simp add: dget_or_def)
  have c': "is_dict c" "dget c ''preview_id'' = PStr fresh" "dget c ''action'' = PStr action" "dget c ''generation'' = PInt g"
    using c g items by (auto simp: dget_put_front)
  let ?e = "recorded (audit_of fresh action generation (dget c ''execution_digest''))"
  have fresh: "dget q ''preview_id'' \<noteq> PStr fresh" if "consumed q \<in> set (gs_audit s)" for q
    using assms(1) that new by (auto simp: gov_inv_def list_ex_iff)
  have "item_ok (gs_audit s @ [?e]) c"
    using c' g(1) fresh by (auto simp: item_ok_def)
  then show ?thesis
    using assms(1) s' by (auto simp: gov_inv_def log_ok_snoc intro!: item_ok_mono)
qed

lemma set_replace_first: "set (replace_first P y xs) \<subseteq> insert y (set xs)"
  by (induction xs) auto

lemma replace_first_unique:
  "filter P xs = [x] \<Longrightarrow> z \<in> set (replace_first P y xs) \<Longrightarrow> z = y \<or> (z \<in> set xs \<and> \<not> P z)"
  by (induction xs) (auto split: if_splits simp: filter_empty_conv)

lemma replace_first_keeps: "z \<in> set xs \<Longrightarrow> \<not> P z \<Longrightarrow> z \<in> set (replace_first P y xs)"
  by (induction xs) auto

lemma replace_first_in: "filter P xs = [x] \<Longrightarrow> y \<in> set (replace_first P y xs)"
  by (induction xs) (auto split: if_splits)

lemma consume_step:
  assumes "gov_inv s" and "store_consume_preview sha isof parse refused i action facts generation now s = Inr s'"
  shows "gov_inv s'"
proof -
  let ?P = "\<lambda>item. dget item ''preview_id'' = PStr i"
  let ?xs = "list_items (gs_previews s)"
  obtain cur c where f: "filter ?P ?xs = [cur]"
    and c: "consume_governance_preview sha isof parse cur action facts generation now = Inr c"
    and s': "s' = s\<lparr>gs_previews := PList (replace_first ?P c ?xs),
        gs_audit := gs_audit s @ [consumed (audit_of i action (PInt generation) (dget c ''execution_digest''))]\<rparr>"
    using assms(2)
    by (auto simp: store_consume_preview_def Let_def res_simps append_audit_def split: list.splits if_splits)
  have mem: "cur \<in> set ?xs" "?P cur" proof -
    have "cur \<in> set (filter ?P ?xs)" using f by simp
    then show "cur \<in> set ?xs" "?P cur" by simp_all
  qed
  then have ok: "item_ok (gs_audit s) cur" using assms(1) by (auto simp: gov_inv_def)
  obtain t where p: "dget cur ''state'' = PS ''pending''" "dget cur ''action'' = PStr action"
      "py_eq (dget cur ''generation'') (PInt generation)"
      "c = dputs [(''state'', PS ''consumed''), (''consumed_at'', PStr (isof t))] cur"
    using consume_Inr [OF c] by auto
  let ?a = "audit_of i action (PInt generation) (dget c ''execution_digest'')"
  have rec: "recorded ?a \<in> set (gs_audit s)" "\<forall>q. consumed q \<in> set (gs_audit s) \<longrightarrow> dget q ''preview_id'' \<noteq> PStr i"
    "dget cur ''generation'' = PInt generation"
    using ok p mem(2) by (auto simp: item_ok_def py_eq_PInt)
  have id: "dget ?a ''preview_id'' = PStr i" by (simp add: audit_of_def)
  have "item_ok (gs_audit s @ [consumed ?a]) c"
    using p rec mem(2) by (auto simp: item_ok_def)
  moreover have "item_ok (gs_audit s @ [consumed ?a]) z" if "z \<in> set ?xs" "\<not> ?P z" for z
    using that assms(1) id by (intro item_ok_mono) (auto simp: gov_inv_def)
  ultimately have items: "\<forall>z\<in>set (replace_first ?P c ?xs). item_ok (gs_audit s @ [consumed ?a]) z"
    using replace_first_unique [OF f] by blast
  have c_in: "c \<in> set (replace_first ?P c ?xs)" "?P c" using replace_first_in [OF f] p(4) mem(2) by auto
  have "\<exists>item\<in>set (replace_first ?P c ?xs). dget item ''preview_id'' = dget q ''preview_id''"
    if logged: "consumed q \<in> set (gs_audit s @ [consumed ?a])" for q
  proof (cases "q = ?a")
    case True
    then show ?thesis using c_in id by auto
  next
    case False
    then obtain z where "z \<in> set ?xs" "dget z ''preview_id'' = dget q ''preview_id''"
      using logged assms(1) by (auto simp: gov_inv_def)
    then show ?thesis using replace_first_keeps [of z ?xs ?P c] c_in by (cases "?P z") auto
  qed
  moreover have "log_ok (gs_audit s @ [consumed ?a])"
    using assms(1) rec id by (auto simp: gov_inv_def log_ok_snoc)
  ultimately show ?thesis using items s' by (simp add: gov_inv_def)
qed

lemma gov_run_inv: "gov_inv (gov_run sha isof parse ops)"
proof -
  have "gov_inv s \<Longrightarrow> gov_inv (gov_apply sha isof parse op s)" for op s
  proof (cases op)
    case (Set_authority lease runtime)
    then show "gov_inv s \<Longrightarrow> ?thesis" by (simp add: gov_inv_def)
  qed (auto split: sum.split intro: record_step consume_step)
  then have "gov_inv s \<Longrightarrow> gov_inv (fold (gov_apply sha isof parse) ops s)" for s
    by (induction ops arbitrary: s) auto
  moreover have "gov_inv \<lparr>gs_previews = PList [], gs_lease = No_lease, gs_runtime = PNone, gs_audit = []\<rparr>"
    by (simp add: gov_inv_def log_ok_def)
  ultimately show ?thesis by (simp add: gov_run_def)
qed

text \<open>
  C34: A human's confirmation is used at most once and only as given. Along every run of recordings and
  consumptions (failures and changes of the controller in between included), each consumption in the
  audit log is preceded by the recording of the same identity, action, generation and digest of the
  facts, and by no other consumption of that identity.
\<close>
theorem preview_used_once_as_recorded:
  assumes "gs_audit (gov_run sha isof parse ops) = xs @ consumed p # ys"
  shows "recorded p \<in> set xs \<and> (consumed q \<notin> set xs \<or> dget q ''preview_id'' \<noteq> dget p ''preview_id'')"
  using gov_run_inv [of sha isof parse ops] assms by (auto simp: gov_inv_def log_ok_def)

text \<open>A run in which one preview is recorded, consumed, and consumed again in vain.\<close>

definition sample_run :: "gov_op list" where
  "sample_run =
     [Record_preview (u ''gov_1'') False (u ''reroute'') [] (PInt 2) (Some 100) (NInt 3) None,
      Consume_preview False (u ''gov_1'') (u ''reroute'') (PDict []) 2 (Some 200),
      Consume_preview False (u ''gov_1'') (u ''reroute'') (PDict []) 2 (Some 300)]"

definition sample_audit :: pyval where
  "sample_audit = audit_of (u ''gov_1'') (u ''reroute'') (PInt 2) (PStr (length_digest [123, 125]))"

definition sample_preview :: pyval where
  "sample_preview = pdict [(''preview_id'', PS ''gov_1''), (''action'', PS ''reroute''), (''generation'', PInt 2),
     (''execution_digest'', PStr (length_digest [123, 125])), (''previewed_at'', PStr (tally 100)),
     (''expires_at'', PStr (tally 3000100)), (''state'', PS ''pending'')]"

lemma sample_recorded:
  "gov_apply length_digest tally read_tally (hd sample_run)
      \<lparr>gs_previews = PList [], gs_lease = No_lease, gs_runtime = PNone, gs_audit = []\<rparr>
   = \<lparr>gs_previews = PList [sample_preview], gs_lease = No_lease, gs_runtime = PNone, gs_audit = [recorded sample_audit]\<rparr>"
  by (simp add: sample_run_def store_record_preview_def build_governance_preview_def ACTIONS_def preview_ttl_def
      canonical_def json_dumps_def execution_digest_def utf8_bytes_def max_instant_def Let_def previews_ok_def
      append_audit_def sample_audit_def sample_preview_def audit_of_def dget_or_def pdict_def)

lemma sample_consumes:
  "\<exists>c. consume_governance_preview length_digest tally read_tally sample_preview (u ''reroute'') (PDict []) 2 (Some 200) = Inr c"
proof (rule consume_InrI)
  show "dkeys sample_preview = expected_fields sample_preview"
    by (auto simp: sample_preview_def expected_fields_def PREVIEW_FIELDS_def)
  show "binding_timestamp read_tally (dget sample_preview ''expires_at'') ''expires_at'' = Inr 3000100"
    using read_tally by (simp add: sample_preview_def binding_timestamp_def)
  show "execution_digest length_digest (PDict []) = Inr (length_digest [123, 125])"
    by (simp add: execution_digest_def json_dumps_def)
qed (simp_all add: sample_preview_def SHA256_length_digest)

theorem preview_used_once_as_recorded_witness:
  "\<exists>ys. gs_audit (gov_run length_digest tally read_tally sample_run) = [recorded sample_audit] @ consumed sample_audit # ys
     \<and> recorded sample_audit \<in> set [recorded sample_audit]"
proof -
  let ?run = "gov_apply length_digest tally read_tally"
  let ?s1 = "\<lparr>gs_previews = PList [sample_preview], gs_lease = No_lease, gs_runtime = PNone, gs_audit = [recorded sample_audit]\<rparr>"
  obtain c where c: "consume_governance_preview length_digest tally read_tally sample_preview (u ''reroute'') (PDict []) 2 (Some 200) = Inr c"
    using sample_consumes by blast
  then have d: "dget c ''execution_digest'' = PStr (length_digest [123, 125])" "dget c ''state'' = PS ''consumed''"
      "dget c ''preview_id'' = PS ''gov_1''"
    by (auto dest!: consume_Inr simp: sample_preview_def)
  have id: "dget sample_preview ''preview_id'' = PS ''gov_1''" "is_dict sample_preview" by (simp_all add: sample_preview_def)
  have two: "?run (Consume_preview False (u ''gov_1'') (u ''reroute'') (PDict []) 2 (Some 200)) ?s1
    = ?s1\<lparr>gs_previews := PList [c], gs_audit := [recorded sample_audit, consumed sample_audit]\<rparr>"
    using c d id by (simp add: store_consume_preview_def previews_ok_def append_audit_def sample_audit_def)
  have three: "?run (Consume_preview False (u ''gov_1'') (u ''reroute'') (PDict []) 2 (Some 300)) (?s1\<lparr>gs_previews := PList [c], gs_audit := a\<rparr>)
    = ?s1\<lparr>gs_previews := PList [c], gs_audit := a\<rparr>" for a
  proof -
    have "consume_governance_preview length_digest tally read_tally c (u ''reroute'') (PDict []) 2 (Some 300) \<noteq> Inr c'" for c'
      using d(2) by (auto dest!: consume_Inr)
    then show ?thesis
      using d(3) by (auto simp: store_consume_preview_def Let_def rbind_def rfail_if_def split: sum.split)
  qed
  have log: "gs_audit (gov_run length_digest tally read_tally sample_run) = [recorded sample_audit] @ consumed sample_audit # []"
    using sample_recorded two three by (simp add: gov_run_def sample_run_def del: gov_apply.simps)
  show ?thesis
    using log preview_used_once_as_recorded [OF log] by blast
qed

end
