(* ===== verification/Conversation.thy ===== *)
theory Conversation
  imports PyValue
begin

text \<open>
  \<^verbatim>\<open>src/agentdeck/conversation/models.py\<close> and \<^verbatim>\<open>conversation/lifecycle.py\<close>: the life cycles of
  conversations, turns, previews and Worker ownership, and the projection of an append-only list of
  transitions to current states, which refuses every history that no life cycle allows.

  The base records and the transitions are ledger values. \<open>TypeError\<close> is what a set or dictionary
  look-up of a list or dictionary raises. The exact texts of the errors that quote an identifier
  are cut off before it.

  The lemmas show that the projection accepts exactly the histories in which every entity walks
  along its life cycle within one conversation, with at most one active turn and one pending preview
  per conversation, and what the projected states are.
\<close>

section \<open>Life cycles\<close>

datatype entity = Conversation | Turn | Preview | Ownership

fun entity_name :: "entity \<Rightarrow> string" where
  "entity_name Conversation = ''conversation''"
| "entity_name Turn = ''turn''"
| "entity_name Preview = ''preview''"
| "entity_name Ownership = ''ownership''"

definition CONVERSATION_EDGES :: "(string \<times> string list) list" where
  "CONVERSATION_EDGES =
     [(''created'', [''ready'']), (''ready'', [''busy'', ''waiting_confirmation'', ''closing'']),
      (''busy'', [''ready'', ''waiting_confirmation'', ''closing'']),
      (''waiting_confirmation'', [''ready'', ''busy'', ''closing'']), (''closing'', [''closed'']), (''closed'', [])]"

definition TURN_EDGES :: "(string \<times> string list) list" where
  "TURN_EDGES =
     [(''created'', [''routing'']),
      (''routing'', [''waiting_leader'', ''presenting_preview'', ''executing'', ''completed'', ''blocked'', ''failed'', ''cancelled'']),
      (''waiting_leader'', [''presenting_preview'', ''completed'', ''blocked'', ''failed'', ''cancelled'', ''ambiguous'']),
      (''presenting_preview'', [''completed'', ''failed'', ''cancelled'']),
      (''executing'', [''completed'', ''blocked'', ''failed'', ''cancelled'', ''ambiguous'']),
      (''completed'', []), (''blocked'', []), (''failed'', []), (''cancelled'', []), (''ambiguous'', [])]"

definition PREVIEW_EDGES :: "(string \<times> string list) list" where
  "PREVIEW_EDGES = [(''pending'', [''consumed'', ''expired'', ''invalidated'']), (''consumed'', []), (''expired'', []), (''invalidated'', [])]"

definition OWNERSHIP_EDGES :: "(string \<times> string list) list" where
  "OWNERSHIP_EDGES =
     [(''agentdeck_owned'', [''takeover_pending'']), (''takeover_pending'', [''human_owned'', ''agentdeck_owned'']),
      (''human_owned'', [''return_pending'']), (''return_pending'', [''agentdeck_owned'', ''human_owned''])]"

fun ENTITY_EDGES :: "entity \<Rightarrow> (string \<times> string list) list" where
  "ENTITY_EDGES Conversation = CONVERSATION_EDGES"
| "ENTITY_EDGES Turn = TURN_EDGES"
| "ENTITY_EDGES Preview = PREVIEW_EDGES"
| "ENTITY_EDGES Ownership = OWNERSHIP_EDGES"

fun INITIAL_STATES :: "entity \<Rightarrow> string" where
  "INITIAL_STATES Conversation = ''created''"
| "INITIAL_STATES Turn = ''created''"
| "INITIAL_STATES Preview = ''pending''"
| "INITIAL_STATES Ownership = ''agentdeck_owned''"

fun TERMINAL_STATES :: "entity \<Rightarrow> string list" where
  "TERMINAL_STATES Conversation = [''closed'']"
| "TERMINAL_STATES Turn = [''completed'', ''blocked'', ''failed'', ''cancelled'', ''ambiguous'']"
| "TERMINAL_STATES Preview = [''consumed'', ''expired'', ''invalidated'']"
| "TERMINAL_STATES Ownership = []"

text \<open>\<^verbatim>\<open>ENTITY_EDGES[entity_type]\<close>, with the states as strings of the ledger.\<close>

definition successors :: "entity \<Rightarrow> pstr \<Rightarrow> pstr list" where
  "successors e s = (case map_of (map (\<lambda>(k, vs). (u k, map u vs)) (ENTITY_EDGES e)) s of None \<Rightarrow> [] | Some vs \<Rightarrow> vs)"

definition is_terminal :: "entity \<Rightarrow> pstr \<Rightarrow> bool" where
  "is_terminal e s \<longleftrightarrow> s \<in> u ` set (TERMINAL_STATES e)"

section \<open>Base records\<close>

fun record_spec :: "entity \<Rightarrow> string \<times> string" where
  "record_spec Conversation = (''conversation_sessions'', ''conversation_id'')"
| "record_spec Turn = (''conversation_turns'', ''turn_id'')"
| "record_spec Preview = (''conversation_preview_bindings'', ''preview_id'')"
| "record_spec Ownership = ('''', '''')"

definition records_of :: "pyval \<Rightarrow> string \<Rightarrow> py_exn + pyval list" where
  "records_of base key =
     (let value = dget_or base key (PList []) in
      rfail_if (\<not> is_list value) (ValueError ''must be a list'')
      (rfail_if (\<not> list_all is_dict (list_items value)) (ValueError ''items must be records'')
      (Inr (list_items value))))"

text \<open>The identities of one collection: non-empty strings, none twice.\<close>

fun collect_ids :: "string \<Rightarrow> pstr list \<Rightarrow> pyval list \<Rightarrow> py_exn + pstr list" where
  "collect_ids field seen [] = Inr seen"
| "collect_ids field seen (record # records) =
     (case dget record field of
        PStr identity \<Rightarrow>
          rfail_if (identity = []) (ValueError ''invalid identity'')
          (rfail_if (identity \<in> set seen) (ValueError ''duplicate identity'')
          (collect_ids field (identity # seen) records))
      | _ \<Rightarrow> Inl (ValueError ''invalid identity''))"

text \<open>\<^verbatim>\<open>v in ids\<close> for a set of strings.\<close>

definition in_ids :: "pyval \<Rightarrow> pstr list \<Rightarrow> py_exn + bool" where
  "in_ids v ids = (if py_hashable v then Inr (v \<in> PStr ` set ids) else Inl TypeError)"

fun check_references :: "bool \<Rightarrow> pstr list \<Rightarrow> pstr list \<Rightarrow> pyval list \<Rightarrow> py_exn + unit" where
  "check_references previews conversations turns [] = Inr ()"
| "check_references previews conversations turns (record # records) =
     rbind (in_ids (dget record ''conversation_id'') conversations) (\<lambda>known.
     rfail_if (\<not> known) (ValueError ''unknown conversation'')
     (rbind (if previews \<and> dget record ''turn_id'' \<noteq> PNone then in_ids (dget record ''turn_id'') turns else Inr True) (\<lambda>known.
     rfail_if (\<not> known) (ValueError ''unknown turn'')
     (check_references previews conversations turns records))))"

record identity_sets =
  id_conversations :: "pstr list"
  id_turns :: "pstr list"
  id_previews :: "pstr list"

definition identity_sets_of :: "pyval \<Rightarrow> py_exn + identity_sets" where
  "identity_sets_of base =
     rbind (rbind (records_of base ''conversation_sessions'') (collect_ids ''conversation_id'' [])) (\<lambda>conversations.
     rbind (rbind (records_of base ''conversation_turns'') (collect_ids ''turn_id'' [])) (\<lambda>turns.
     rbind (rbind (records_of base ''conversation_preview_bindings'') (collect_ids ''preview_id'' [])) (\<lambda>previews.
     rbind (rbind (records_of base ''conversation_turns'') (check_references False conversations turns)) (\<lambda>_.
     rbind (rbind (records_of base ''conversation_preview_bindings'') (check_references True conversations turns)) (\<lambda>_.
     Inr \<lparr>id_conversations = conversations, id_turns = turns, id_previews = previews\<rparr>)))))"

definition transition_records :: "pyval \<Rightarrow> py_exn + pyval list" where
  "transition_records transitions =
     (let records = list_items transitions; ids = map (\<lambda>t. dget t ''transition_id'') records in
      rfail_if (\<not> is_list transitions) (ValueError ''conversation transitions must be a list'')
      (rfail_if (\<not> list_all is_dict records) (ValueError ''conversation transition items must be records'')
      (rfail_if (\<not> list_all (\<lambda>i. is_str i \<and> i \<noteq> PS '''') ids) (ValueError ''invalid transition_id'')
      (rfail_if (\<not> distinct ids) (ValueError ''duplicate transition_id'') (Inr records)))))"

section \<open>The projection\<close>

record projection =
  pr_states :: "entity \<Rightarrow> (pstr \<times> pstr) list"
  pr_conversations :: "((entity \<times> pstr) \<times> pstr) list"

definition entity_of :: "pyval \<Rightarrow> py_exn + entity" where
  "entity_of v =
     (if \<not> py_hashable v then Inl TypeError
      else case find (\<lambda>e. v = PS (entity_name e)) [Conversation, Turn, Preview, Ownership] of
        None \<Rightarrow> Inl (ValueError ''invalid conversation transition entity_type'') | Some e \<Rightarrow> Inr e)"

definition known_entity :: "identity_sets \<Rightarrow> entity \<Rightarrow> pstr \<Rightarrow> bool" where
  "known_entity ids e i \<longleftrightarrow>
     (case e of Conversation \<Rightarrow> i \<in> set (id_conversations ids) | Turn \<Rightarrow> i \<in> set (id_turns ids)
      | Preview \<Rightarrow> i \<in> set (id_previews ids) | Ownership \<Rightarrow> True)"

text \<open>\<^verbatim>\<open>record_conversations[(entity_type, entity_id)]\<close>.\<close>

definition record_conversation :: "pyval \<Rightarrow> entity \<Rightarrow> pstr \<Rightarrow> pstr option" where
  "record_conversation base e i =
     map_option (\<lambda>r. py_str (dget r ''conversation_id''))
       (find (\<lambda>r. dget r (snd (record_spec e)) = PStr i) (list_items (dget_or base (fst (record_spec e)) (PList []))))"

definition successor_state :: "entity \<Rightarrow> pstr option \<Rightarrow> pyval \<Rightarrow> pyval \<Rightarrow> py_exn + pstr" where
  "successor_state e current from_state to_state =
     (case current of
        None \<Rightarrow>
          rfail_if (from_state \<noteq> PNone) (ValueError ''transition from_state does not match current state'')
          (rfail_if (to_state \<noteq> PS (INITIAL_STATES e)) (ValueError ''illegal initial transition'')
          (Inr (py_str to_state)))
      | Some s \<Rightarrow>
          rfail_if (is_terminal e s) (ValueError ''terminal entity cannot transition'')
          (rfail_if (from_state \<noteq> PStr s) (ValueError ''transition from_state does not match current state'')
          (rbind (in_ids to_state (successors e s)) (\<lambda>legal.
          rfail_if (\<not> legal) (ValueError ''illegal transition'')
          (Inr (py_str to_state))))))"

definition project_transition :: "pyval \<Rightarrow> identity_sets \<Rightarrow> pyval \<Rightarrow> projection \<Rightarrow> py_exn + projection" where
  "project_transition base ids transition p =
     rbind (entity_of (dget transition ''entity_type'')) (\<lambda>e.
     (case dget transition ''entity_id'' of
        PStr i \<Rightarrow>
     rfail_if (i = []) (ValueError ''invalid conversation transition entity_id'')
     (rbind (in_ids (dget transition ''conversation_id'') (id_conversations ids)) (\<lambda>known.
     rfail_if (\<not> known) (ValueError ''unknown conversation'')
     (rfail_if (\<not> known_entity ids e i) (ValueError ''unknown entity'')
     (rfail_if (e \<in> {Turn, Preview} \<and> map_option PStr (record_conversation base e i) \<noteq> Some (dget transition ''conversation_id''))
       (ValueError ''entity belongs to another conversation'')
     (let prior = (case map_of (pr_conversations p) (e, i) of None \<Rightarrow> py_str (dget transition ''conversation_id'') | Some c \<Rightarrow> c);
          convs = (case map_of (pr_conversations p) (e, i) of None \<Rightarrow> pr_conversations p @ [((e, i), prior)] | Some c \<Rightarrow> pr_conversations p) in
     rfail_if (PStr prior \<noteq> dget transition ''conversation_id'') (ValueError ''conversation transition identity changed conversation'')
     (rbind (successor_state e (map_of (pr_states p e) i) (dget transition ''from_state'') (dget transition ''to_state'')) (\<lambda>s.
     Inr \<lparr>pr_states = (pr_states p)(e := dict_put i s (pr_states p e)), pr_conversations = convs\<rparr>)))))))
      | _ \<Rightarrow> Inl (ValueError ''invalid conversation transition entity_id'')))"

fun project_loop :: "pyval \<Rightarrow> identity_sets \<Rightarrow> pyval list \<Rightarrow> projection \<Rightarrow> py_exn + projection" where
  "project_loop base ids [] p = Inr p"
| "project_loop base ids (t # ts) p = rbind (project_transition base ids t p) (project_loop base ids ts)"

text \<open>At most one record of a conversation in a state of interest (an active turn, a pending preview).\<close>

fun unique_by_conversation ::
    "string \<Rightarrow> (pstr option \<Rightarrow> bool) \<Rightarrow> (pstr \<times> pstr) list \<Rightarrow> string \<Rightarrow> (pstr \<times> pstr) list \<Rightarrow> pyval list \<Rightarrow> py_exn + (pstr \<times> pstr) list" where
  "unique_by_conversation field counts states message found [] = Inr found"
| "unique_by_conversation field counts states message found (record # records) =
     (let i = py_str (dget record field); c = py_str (dget record ''conversation_id'') in
      if counts (map_of states i)
      then rfail_if (c \<in> fst ` set found) (ValueError message)
        (unique_by_conversation field counts states message (found @ [(c, i)]) records)
      else unique_by_conversation field counts states message found records)"

definition is_active_turn :: "pstr option \<Rightarrow> bool" where
  "is_active_turn state \<longleftrightarrow> (case state of None \<Rightarrow> False | Some s \<Rightarrow> \<not> is_terminal Turn s)"

definition is_pending_preview :: "pstr option \<Rightarrow> bool" where
  "is_pending_preview state \<longleftrightarrow> state = Some (u ''pending'')"

record conversation_history =
  ch_states :: "entity \<Rightarrow> (pstr \<times> pstr) list"
  ch_active_turn :: "(pstr \<times> pstr) list"
  ch_pending_preview :: "(pstr \<times> pstr) list"

definition project_conversation_history :: "pyval \<Rightarrow> pyval \<Rightarrow> py_exn + conversation_history" where
  "project_conversation_history base transitions =
     rbind (identity_sets_of base) (\<lambda>ids.
     rbind (transition_records transitions) (\<lambda>records.
     rbind (project_loop base ids records \<lparr>pr_states = (\<lambda>_. []), pr_conversations = []\<rparr>) (\<lambda>p.
     rbind (rbind (records_of base ''conversation_turns'')
       (unique_by_conversation ''turn_id'' is_active_turn (pr_states p Turn) ''conversation may have only one active turn'' [])) (\<lambda>active.
     rbind (rbind (records_of base ''conversation_preview_bindings'')
       (unique_by_conversation ''preview_id'' is_pending_preview (pr_states p Preview) ''conversation may have only one pending preview'' [])) (\<lambda>pending.
     Inr \<lparr>ch_states = pr_states p, ch_active_turn = active, ch_pending_preview = pending\<rparr>)))))"

definition validate_conversation_history :: "pyval \<Rightarrow> pyval \<Rightarrow> py_exn + conversation_history" where
  "validate_conversation_history base transitions = project_conversation_history base transitions"

definition append_validated_transition :: "pyval \<Rightarrow> pyval list \<Rightarrow> pyval \<Rightarrow> py_exn + pyval list" where
  "append_validated_transition base transitions candidate =
     (let proposed = transitions @ [candidate] in
      rbind (validate_conversation_history base (PList proposed)) (\<lambda>_. Inr proposed))"

section \<open>Histories as walks\<close>

definition of_entity :: "entity \<Rightarrow> pstr \<Rightarrow> pyval \<Rightarrow> bool" where
  "of_entity e i t \<longleftrightarrow> dget t ''entity_type'' = PS (entity_name e) \<and> dget t ''entity_id'' = PStr i"

text \<open>
  An entity's transitions walk along its life cycle, from its current state and conversation: the first
  enters the initial state, each later one leaves the state the one before entered, along an edge.
\<close>

fun walks :: "entity \<Rightarrow> (pstr \<times> pstr) option \<Rightarrow> pyval list \<Rightarrow> bool" where
  "walks e cur [] = True"
| "walks e None (t # ts) \<longleftrightarrow> dget t ''from_state'' = PNone \<and> dget t ''to_state'' = PS (INITIAL_STATES e)
     \<and> (case dget t ''conversation_id'' of PStr c \<Rightarrow> walks e (Some (u (INITIAL_STATES e), c)) ts | _ \<Rightarrow> False)"
| "walks e (Some (s, c)) (t # ts) \<longleftrightarrow> dget t ''from_state'' = PStr s \<and> dget t ''conversation_id'' = PStr c
     \<and> (case dget t ''to_state'' of PStr s' \<Rightarrow> s' \<in> set (successors e s) \<and> walks e (Some (s', c)) ts | _ \<Rightarrow> False)"

text \<open>A transition names an entity that exists, in the conversation the entity's record names.\<close>

definition placed :: "pyval \<Rightarrow> identity_sets \<Rightarrow> pyval \<Rightarrow> entity \<Rightarrow> pstr \<Rightarrow> bool" where
  "placed base ids t e i \<longleftrightarrow> of_entity e i t \<and> i \<noteq> [] \<and> dget t ''conversation_id'' \<in> PStr ` set (id_conversations ids)
     \<and> known_entity ids e i
     \<and> (e \<notin> {Turn, Preview} \<or> map_option PStr (record_conversation base e i) = Some (dget t ''conversation_id''))"

definition end_state :: "entity \<Rightarrow> pstr \<Rightarrow> pyval list \<Rightarrow> pstr option" where
  "end_state e i ts = (case rev (filter (of_entity e i) ts) of [] \<Rightarrow> None | t # _ \<Rightarrow> Some (py_str (dget t ''to_state'')))"

lemma entity_name_inj [simp]: "entity_name e = entity_name f \<longleftrightarrow> e = f"
  by (cases e; cases f) auto

lemma of_entity_unique: "of_entity e i t \<Longrightarrow> of_entity f j t \<longleftrightarrow> f = e \<and> j = i"
  by (auto simp: of_entity_def)

lemma entity_of_eq: "entity_of v = Inr e \<longleftrightarrow> v = PS (entity_name e)"
proof
  assume "entity_of v = Inr e"
  then show "v = PS (entity_name e)"
    by (auto simp: entity_of_def split: if_splits option.splits)
next
  assume "v = PS (entity_name e)"
  then show "entity_of v = Inr e"
    by (cases e) (simp_all add: entity_of_def)
qed

lemma terminal_no_successors: "is_terminal e s \<Longrightarrow> successors e s = []"
  by (cases e) (auto simp: is_terminal_def successors_def CONVERSATION_EDGES_def TURN_EDGES_def PREVIEW_EDGES_def)

lemma in_ids_True: "in_ids v ids = Inr True \<longleftrightarrow> v \<in> PStr ` set ids"
  by (auto simp: in_ids_def)

lemma in_ids_guard: "rbind (in_ids v ids) (\<lambda>k. rfail_if (\<not> k) e (f k)) = Inr y \<longleftrightarrow> v \<in> PStr ` set ids \<and> f True = Inr y"
  by (auto simp: in_ids_def rfail_if_def)

lemma successor_state_eq:
  "successor_state e cur from_state to_state = Inr s \<longleftrightarrow>
     (case cur of None \<Rightarrow> from_state = PNone \<and> to_state = PS (INITIAL_STATES e) \<and> s = u (INITIAL_STATES e)
      | Some s0 \<Rightarrow> from_state = PStr s0 \<and> to_state = PStr s \<and> s \<in> set (successors e s0))"
  by (cases cur) (auto simp: successor_state_def rfail_if_eq_Inr in_ids_guard terminal_no_successors)

definition current :: "projection \<Rightarrow> entity \<Rightarrow> pstr \<Rightarrow> (pstr \<times> pstr) option" where
  "current p e i = (case (map_of (pr_states p e) i, map_of (pr_conversations p) (e, i)) of
     (Some s, Some c) \<Rightarrow> Some (s, c) | _ \<Rightarrow> None)"

definition paired :: "projection \<Rightarrow> bool" where
  "paired p \<longleftrightarrow> (\<forall>e i. (map_of (pr_states p e) i = None) = (map_of (pr_conversations p) (e, i) = None))"

lemma pairedD: "paired p \<Longrightarrow> map_of (pr_states p e) i = Some s \<Longrightarrow> \<exists>c. map_of (pr_conversations p) (e, i) = Some c"
  unfolding paired_def by (metis not_None_eq)

lemma project_transition_Inr:
  assumes "paired p" and "project_transition base ids t p = Inr p'"
  shows "\<exists>e i s c. placed base ids t e i \<and> walks e (current p e i) [t] \<and> paired p' \<and> dget t ''to_state'' = PStr s
     \<and> current p' e i = Some (s, c) \<and> dget t ''conversation_id'' = PStr c
     \<and> (\<forall>f j. (f, j) \<noteq> (e, i) \<longrightarrow> current p' f j = current p f j)
     \<and> (\<forall>f j. map_of (pr_states p' f) j = (if f = e \<and> j = i then Some s else map_of (pr_states p f) j))"
proof -
  obtain e where e1: "dget t ''entity_type'' = PS (entity_name e)"
    using assms(2) by (auto simp: project_transition_def rbind_eq_Inr entity_of_eq)
  obtain i where e2: "dget t ''entity_id'' = PStr i"
    using assms(2) by (cases "dget t ''entity_id''") (auto simp: project_transition_def rbind_eq_Inr)
  note e = e1 e2
  have ty: "entity_of (PS (entity_name e)) = Inr e" by (simp add: entity_of_eq)
  let ?c = "dget t ''conversation_id''"
  obtain s where r: "i \<noteq> []" "?c \<in> PStr ` set (id_conversations ids)" "known_entity ids e i"
      "\<not> (e \<in> {Turn, Preview} \<and> map_option PStr (record_conversation base e i) \<noteq> Some ?c)"
      "PStr (case map_of (pr_conversations p) (e, i) of None \<Rightarrow> py_str ?c | Some c \<Rightarrow> c) = ?c"
      "successor_state e (map_of (pr_states p e) i) (dget t ''from_state'') (dget t ''to_state'') = Inr s"
      "p' = \<lparr>pr_states = (pr_states p)(e := dict_put i s (pr_states p e)),
        pr_conversations = (case map_of (pr_conversations p) (e, i) of
          None \<Rightarrow> pr_conversations p @ [((e, i), (case map_of (pr_conversations p) (e, i) of None \<Rightarrow> py_str ?c | Some c \<Rightarrow> c))]
        | Some c \<Rightarrow> pr_conversations p)\<rparr>"
    using assms(2) unfolding project_transition_def e Let_def ty
    by (simp only: rbind_Inr pyval.case rfail_if_eq_Inr in_ids_guard) (auto simp: rbind_eq_Inr)
  obtain c where c: "?c = PStr c" using r(2) by auto
  have conv: "map_of (pr_conversations p') (f, j) = (if f = e \<and> j = i then Some c else map_of (pr_conversations p) (f, j))" for f j
    using r(5,7) c by (auto simp: map_add_def split: option.splits)
  have st: "map_of (pr_states p' f) j = (if f = e \<and> j = i then Some s else map_of (pr_states p f) j)" for f j
    using r(7) by simp
  have p': "paired p'" using assms(1) unfolding paired_def conv st by auto
  have to: "dget t ''to_state'' = PStr s"
    using r(6) by (auto simp: successor_state_eq split: option.splits)
  have "walks e (current p e i) [t]"
  proof (cases "map_of (pr_states p e) i")
    case None
    then show ?thesis using r(6) c by (simp add: current_def successor_state_eq)
  next
    case (Some s0)
    then obtain c0 where "map_of (pr_conversations p) (e, i) = Some c0"
      using pairedD [OF assms(1)] by blast
    then show ?thesis using Some r(5,6) c by (simp add: current_def successor_state_eq)
  qed
  moreover have "placed base ids t e i" using r(1-4) e by (auto simp: placed_def of_entity_def)
  moreover have "current p' e i = Some (s, c)" "\<forall>f j. (f, j) \<noteq> (e, i) \<longrightarrow> current p' f j = current p f j"
    unfolding current_def conv st by auto
  ultimately show ?thesis using p' to c st by blast
qed

lemma project_transition_InrI:
  assumes "paired p" and "placed base ids t e i" and "walks e (current p e i) [t]"
  shows "\<exists>p'. project_transition base ids t p = Inr p'"
proof -
  have e: "dget t ''entity_type'' = PS (entity_name e)" "dget t ''entity_id'' = PStr i"
    and ty: "entity_of (PS (entity_name e)) = Inr e"
    using assms(2) by (auto simp: placed_def of_entity_def entity_of_eq)
  obtain c where c: "dget t ''conversation_id'' = PStr c" "c \<in> set (id_conversations ids)"
    using assms(2) by (auto simp: placed_def)
  have prior: "(case map_of (pr_conversations p) (e, i) of None \<Rightarrow> py_str (dget t ''conversation_id'') | Some c \<Rightarrow> c) = c"
    "\<exists>s. successor_state e (map_of (pr_states p e) i) (dget t ''from_state'') (dget t ''to_state'') = Inr s"
  proof -
    show "(case map_of (pr_conversations p) (e, i) of None \<Rightarrow> py_str (dget t ''conversation_id'') | Some c \<Rightarrow> c) = c"
      using assms(1,3) c by (auto simp: current_def paired_def split: option.splits)
    show "\<exists>s. successor_state e (map_of (pr_states p e) i) (dget t ''from_state'') (dget t ''to_state'') = Inr s"
    proof (cases "map_of (pr_states p e) i")
      case None
      then show ?thesis using assms(3) by (simp add: current_def successor_state_eq)
    next
      case (Some s0)
      then obtain c0 where "map_of (pr_conversations p) (e, i) = Some c0"
        using pairedD [OF assms(1)] by blast
      then show ?thesis using Some assms(3)
        by (auto simp: current_def successor_state_eq split: pyval.splits)
    qed
  qed
  then obtain s where s: "successor_state e (map_of (pr_states p e) i) (dget t ''from_state'') (dget t ''to_state'') = Inr s"
    by blast
  have known: "in_ids (PStr c) (id_conversations ids) = Inr True" using c(2) by (simp add: in_ids_True)
  have "\<not> (e \<in> {Turn, Preview} \<and> map_option PStr (record_conversation base e i) \<noteq> Some (PStr c))" "i \<noteq> []" "known_entity ids e i"
    using assms(2) c by (auto simp: placed_def)
  then show ?thesis
    unfolding project_transition_def e Let_def ty prior(1)
    by (simp add: c(1) known rfail_if_def s prior(1))
qed

lemma walks_Cons: "walks e cur (t # ts) \<longleftrightarrow> walks e cur [t] \<and>
   (\<forall>s c. dget t ''to_state'' = PStr s \<longrightarrow> dget t ''conversation_id'' = PStr c \<longrightarrow> walks e (Some (s, c)) ts)"
  by (cases cur) (auto split: pyval.splits)

lemma end_state_Cons:
  "end_state e i (t # ts) = (if of_entity e i t \<and> end_state e i ts = None then Some (py_str (dget t ''to_state'')) else end_state e i ts)"
  by (auto simp: end_state_def split: list.splits)

lemma project_loop_iff:
  assumes "paired p"
  shows "(\<exists>p'. project_loop base ids ts p = Inr p') \<longleftrightarrow>
    (\<forall>t\<in>set ts. \<exists>e i. placed base ids t e i) \<and> (\<forall>e i. walks e (current p e i) (filter (of_entity e i) ts))"
  using assms
proof (induction ts arbitrary: p)
  case (Cons t ts)
  show ?case (is "?L \<longleftrightarrow> ?R")
  proof
    assume ?L
    then obtain p1 where p1: "project_transition base ids t p = Inr p1" "\<exists>p'. project_loop base ids ts p1 = Inr p'"
      by (auto simp: rbind_eq_Inr)
    obtain e i s c where s: "placed base ids t e i" "walks e (current p e i) [t]" "paired p1" "dget t ''to_state'' = PStr s"
      "current p1 e i = Some (s, c)" "dget t ''conversation_id'' = PStr c" "\<forall>f j. (f, j) \<noteq> (e, i) \<longrightarrow> current p1 f j = current p f j"
      using project_transition_Inr [OF Cons.prems p1(1)] by blast
    have IH: "\<forall>t\<in>set ts. \<exists>e i. placed base ids t e i" "\<And>f j. walks f (current p1 f j) (filter (of_entity f j) ts)"
      using Cons.IH [OF s(3)] p1(2) by auto
    have oe: "of_entity f j t \<longleftrightarrow> f = e \<and> j = i" for f j
      using s(1) of_entity_unique by (auto simp: placed_def)
    have "walks f (current p f j) (filter (of_entity f j) (t # ts))" for f j
    proof (cases "(f, j) = (e, i)")
      case True
      then have "f = e" "j = i" by auto
      then show ?thesis using IH(2) [of e i] s(2,4-6) oe by (simp add: walks_Cons [of e _ t "filter _ _"] del: walks.simps)
    next
      case False
      then show ?thesis using IH(2) [of f j] s(7) oe by auto
    qed
    then show ?R using IH(1) s(1) by auto
  next
    assume R: ?R
    then obtain e i where pl: "placed base ids t e i" by auto
    have oe: "of_entity f j t \<longleftrightarrow> f = e \<and> j = i" for f j
      using pl of_entity_unique by (auto simp: placed_def)
    have w: "walks e (current p e i) (t # filter (of_entity e i) ts)"
      using R oe by (metis filter.simps(2))
    then have "walks e (current p e i) [t]" by (metis walks_Cons)
    then obtain p1 where p1: "project_transition base ids t p = Inr p1"
      using project_transition_InrI [OF Cons.prems pl] by blast
    obtain e' i' s c where s: "placed base ids t e' i'" "paired p1" "dget t ''to_state'' = PStr s"
      "current p1 e' i' = Some (s, c)" "dget t ''conversation_id'' = PStr c" "\<forall>f j. (f, j) \<noteq> (e', i') \<longrightarrow> current p1 f j = current p f j"
      using project_transition_Inr [OF Cons.prems p1] by blast
    have same: "e' = e" "i' = i" using s(1) oe by (auto simp: placed_def)
    have "walks f (current p1 f j) (filter (of_entity f j) ts)" for f j
    proof (cases "(f, j) = (e, i)")
      case True
      then show ?thesis using w s(3-5) same by (auto simp: walks_Cons [of e _ t "filter _ _"] simp del: walks.simps)
    next
      case False
      then have "\<not> of_entity f j t" using oe by auto
      then show ?thesis using R s(6) False same by (metis filter.simps(2))
    qed
    then have "\<exists>p'. project_loop base ids ts p1 = Inr p'"
      using Cons.IH [OF s(2)] R by auto
    then show ?L using p1 by auto
  qed
qed simp

lemma project_loop_states:
  "project_loop base ids ts p = Inr p' \<Longrightarrow> paired p \<Longrightarrow>
     map_of (pr_states p' e) i = (case end_state e i ts of None \<Rightarrow> map_of (pr_states p e) i | Some s \<Rightarrow> Some s)"
proof (induction ts arbitrary: p)
  case Nil
  then show ?case by (simp add: end_state_def)
next
  case (Cons t ts)
  then obtain p1 where p1: "project_transition base ids t p = Inr p1" "project_loop base ids ts p1 = Inr p'"
    by (auto simp: rbind_eq_Inr)
  obtain e' i' s where s: "placed base ids t e' i'" "paired p1" "dget t ''to_state'' = PStr s"
    "\<forall>f j. map_of (pr_states p1 f) j = (if f = e' \<and> j = i' then Some s else map_of (pr_states p f) j)"
    using project_transition_Inr [OF Cons.prems(2) p1(1)] by blast
  have "of_entity e i t \<longleftrightarrow> e = e' \<and> i = i'"
    using s(1) of_entity_unique by (auto simp: placed_def)
  then show ?case
    using Cons.IH [OF p1(2) s(2)] s(3,4) by (auto simp: end_state_Cons split: option.splits)
qed

lemma unique_by_conversation_eq:
  "unique_by_conversation field counts states message found rs = Inr out \<longleftrightarrow>
     (let sel = filter (\<lambda>r. counts (map_of states (py_str (dget r field)))) rs; cs = map (\<lambda>r. py_str (dget r ''conversation_id'')) sel in
      distinct cs \<and> set cs \<inter> fst ` set found = {} \<and> out = found @ map (\<lambda>r. (py_str (dget r ''conversation_id''), py_str (dget r field))) sel)"
proof (induction rs arbitrary: found)
  case (Cons r rs)
  then show ?case by (auto simp: Let_def rfail_if_eq_Inr)
qed auto

section \<open>Which histories are accepted\<close>

definition conversations_with :: "string \<Rightarrow> entity \<Rightarrow> (pstr option \<Rightarrow> bool) \<Rightarrow> pyval \<Rightarrow> pyval list \<Rightarrow> pstr list" where
  "conversations_with key e counts base ts =
     map (\<lambda>r. py_str (dget r ''conversation_id''))
       (filter (\<lambda>r. counts (end_state e (py_str (dget r (snd (record_spec e)))) ts)) (list_items (dget_or base key (PList []))))"

lemma identity_records:
  assumes "identity_sets_of base = Inr ids"
  shows "records_of base ''conversation_turns'' = Inr (list_items (dget_or base ''conversation_turns'' (PList [])))"
    and "records_of base ''conversation_preview_bindings'' = Inr (list_items (dget_or base ''conversation_preview_bindings'' (PList [])))"
  using assms by (auto simp: identity_sets_of_def rbind_eq_Inr records_of_def rfail_if_eq_Inr Let_def)

lemma empty_projection:
  "paired \<lparr>pr_states = (\<lambda>_. []), pr_conversations = []\<rparr>"
  "current \<lparr>pr_states = (\<lambda>_. []), pr_conversations = []\<rparr> e i = None"
  by (simp_all add: paired_def current_def)

lemma history_states:
  assumes "project_loop base ids ts \<lparr>pr_states = (\<lambda>_. []), pr_conversations = []\<rparr> = Inr p"
  shows "map_of (pr_states p e) i = end_state e i ts"
  using project_loop_states [OF assms empty_projection(1)] by (simp split: option.splits)

text \<open>
  C35: The one-pass projection accepts a history of transitions exactly when every transition names a
  known entity in its own conversation; the transitions of each single entity, taken out of the
  interleaving, walk along that entity's life cycle, from its initial state and within one
  conversation; and no conversation is left with two active turns or two pending previews.
\<close>
theorem history_accepted_iff:
  assumes "identity_sets_of base = Inr ids" and "transition_records transitions = Inr ts"
  shows "(\<exists>h. project_conversation_history base transitions = Inr h) \<longleftrightarrow>
    (\<forall>t\<in>set ts. \<exists>e i. placed base ids t e i)
    \<and> (\<forall>e i. walks e None (filter (of_entity e i) ts))
    \<and> distinct (conversations_with ''conversation_turns'' Turn is_active_turn base ts)
    \<and> distinct (conversations_with ''conversation_preview_bindings'' Preview is_pending_preview base ts)"
proof -
  let ?p0 = "\<lparr>pr_states = (\<lambda>_. []), pr_conversations = []\<rparr> :: projection"
  have loop: "(\<exists>p. project_loop base ids ts ?p0 = Inr p) \<longleftrightarrow>
      (\<forall>t\<in>set ts. \<exists>e i. placed base ids t e i) \<and> (\<forall>e i. walks e None (filter (of_entity e i) ts))"
    using project_loop_iff [OF empty_projection(1)] by (simp add: empty_projection(2))
  have rest: "(\<exists>h. project_conversation_history base transitions = Inr h) \<longleftrightarrow>
      distinct (conversations_with ''conversation_turns'' Turn is_active_turn base ts)
      \<and> distinct (conversations_with ''conversation_preview_bindings'' Preview is_pending_preview base ts)"
    if "project_loop base ids ts ?p0 = Inr p" for p
    using that assms
    by (simp add: project_conversation_history_def identity_records [OF assms(1)] rbind_eq_Inr
        unique_by_conversation_eq Let_def history_states [OF that] conversations_with_def)
  show ?thesis
  proof (cases "\<exists>p. project_loop base ids ts ?p0 = Inr p")
    case True
    then show ?thesis using loop rest by blast
  next
    case False
    then have "\<not> (\<exists>h. project_conversation_history base transitions = Inr h)"
      using assms by (auto simp: project_conversation_history_def rbind_eq_Inr)
    then show ?thesis using False loop by blast
  qed
qed

lemma walks_snoc:
  "walks e cur (xs @ [t]) \<Longrightarrow> (case rev xs of [] \<Rightarrow> cur = Some (s, c) | x # _ \<Rightarrow> dget x ''to_state'' = PStr s) \<Longrightarrow>
     \<exists>s'. dget t ''to_state'' = PStr s' \<and> s' \<in> set (successors e s)"
proof (induction xs arbitrary: cur)
  case Nil
  then show ?case by (auto split: pyval.splits)
next
  case (Cons x xs)
  obtain s1 c1 where x: "dget x ''to_state'' = PStr s1" "dget x ''conversation_id'' = PStr c1" "walks e (Some (s1, c1)) (xs @ [t])"
    using Cons.prems(1) by (cases cur) (auto split: pyval.splits)
  show ?case
  proof (cases "rev xs")
    case Nil
    then show ?thesis using x Cons.prems(2) by (auto split: pyval.splits)
  next
    case (Cons y ys)
    then show ?thesis using Cons.IH [OF x(3)] Cons.prems(2) by simp
  qed
qed

lemma walks_to_str: "walks e cur ts \<Longrightarrow> x \<in> set ts \<Longrightarrow> is_str (dget x ''to_state'')"
  by (induction e cur ts rule: walks.induct) (auto split: pyval.splits)

lemma is_str_eq: "is_str v \<Longrightarrow> v = PStr (py_str v)"
  by (cases v) auto

lemma accepted_walks:
  assumes "project_conversation_history base (PList ts) = Inr h"
  shows "walks e None (filter (of_entity e i) ts)"
proof -
  obtain ids records p where "transition_records (PList ts) = Inr records"
      "project_loop base ids records \<lparr>pr_states = (\<lambda>_. []), pr_conversations = []\<rparr> = Inr p"
    using assms by (auto simp: project_conversation_history_def rbind_eq_Inr)
  moreover have "records = ts" using calculation(1) by (simp add: transition_records_def rfail_if_eq_Inr Let_def)
  ultimately show ?thesis
    using project_loop_iff [OF empty_projection(1), of base ids ts] by (auto simp: empty_projection(2))
qed

lemma end_state_snoc:
  "end_state e i (ts @ [t]) = (if of_entity e i t then Some (py_str (dget t ''to_state'')) else end_state e i ts)"
  by (simp add: end_state_def)

text \<open>
  C36: A settled entity stays settled. A transition that append_validated_transition accepts is appended
  at the end and is not one of an entity that has reached a terminal state: a consumed, expired or
  invalidated preview is never used again, a completed turn never reopens, a closed conversation
  stays closed, and their state in the extended history is the same.
\<close>
theorem settled_entity_is_final:
  assumes "append_validated_transition base ts t = Inr ts'"
    and "end_state e i ts = Some s" and "is_terminal e s"
  shows "ts' = ts @ [t] \<and> \<not> of_entity e i t \<and> end_state e i ts' = Some s"
proof -
  have ts': "ts' = ts @ [t]" and w: "walks e None (filter (of_entity e i) (ts @ [t]))"
    using assms(1) accepted_walks [of base "ts @ [t]"]
    by (auto simp: append_validated_transition_def validate_conversation_history_def rbind_eq_Inr Let_def)
  have "\<not> of_entity e i t"
  proof
    assume t: "of_entity e i t"
    obtain x xs where x: "rev (filter (of_entity e i) ts) = x # xs" "s = py_str (dget x ''to_state'')"
      using assms(2) by (auto simp: end_state_def split: list.splits)
    have "x \<in> set (filter (of_entity e i) (ts @ [t]))"
      using x(1) by (metis Un_iff filter_append list.set_intros(1) set_append set_rev)
    then have "dget x ''to_state'' = PStr s" using is_str_eq [OF walks_to_str [OF w]] x(2) by metis
    then have "\<exists>s'. dget t ''to_state'' = PStr s' \<and> s' \<in> set (successors e s)"
      using walks_snoc [of e None "filter (of_entity e i) ts" t s] w t x(1) by simp
    then show False using terminal_no_successors [OF assms(3)] by simp
  qed
  then show ?thesis using ts' assms(2) by (simp add: end_state_snoc)
qed

section \<open>Sample histories\<close>

definition sample_transition :: "string \<Rightarrow> entity \<Rightarrow> string \<Rightarrow> pyval \<Rightarrow> string \<Rightarrow> pyval" where
  "sample_transition tid e i from_state to_state =
     pdict [(''transition_id'', PS tid), (''conversation_id'', PS ''c1''), (''entity_type'', PS (entity_name e)),
       (''entity_id'', PS i), (''from_state'', from_state), (''to_state'', PS to_state)]"

definition sample_base :: pyval where
  "sample_base = pdict
     [(''conversation_sessions'', PList [pdict [(''conversation_id'', PS ''c1'')]]),
      (''conversation_preview_bindings'', PList [pdict [(''preview_id'', PS ''p1''), (''conversation_id'', PS ''c1'')]])]"

lemma sample_identities:
  "identity_sets_of sample_base = Inr \<lparr>id_conversations = [u ''c1''], id_turns = [], id_previews = [u ''p1'']\<rparr>"
  by (simp add: identity_sets_of_def sample_base_def records_of_def in_ids_def)

theorem history_accepted_iff_witness:
  "\<exists>h. project_conversation_history sample_base
     (PList [sample_transition ''t1'' Conversation ''c1'' PNone ''created'']) = Inr h"
proof -
  let ?t = "sample_transition ''t1'' Conversation ''c1'' PNone ''created''"
  let ?ids = "\<lparr>id_conversations = [u ''c1''], id_turns = [], id_previews = [u ''p1'']\<rparr>"
  have "transition_records (PList [?t]) = Inr [?t]"
    by (simp add: transition_records_def sample_transition_def)
  note iff = history_accepted_iff [OF sample_identities this]
  have of: "of_entity e i ?t \<longleftrightarrow> e = Conversation \<and> i = u ''c1''" for e i
    by (cases e) (auto simp: of_entity_def sample_transition_def)
  have "placed sample_base ?ids ?t Conversation (u ''c1'')"
    using of by (simp add: placed_def known_entity_def) (simp add: sample_transition_def)
  moreover have "walks e None (filter (of_entity e i) [?t])" for e i
    by (simp add: of) (simp add: sample_transition_def)
  moreover have "distinct (conversations_with ''conversation_turns'' Turn is_active_turn sample_base [?t])"
    "distinct (conversations_with ''conversation_preview_bindings'' Preview is_pending_preview sample_base [?t])"
    by (simp_all add: conversations_with_def sample_base_def)
  ultimately show ?thesis using iff by auto
qed

definition sample_history :: "pyval list" where
  "sample_history =
     [sample_transition ''t1'' Preview ''p1'' PNone ''pending'', sample_transition ''t2'' Preview ''p1'' (PS ''pending'') ''consumed'']"

lemma sample_append:
  "append_validated_transition sample_base sample_history (sample_transition ''t3'' Conversation ''c1'' PNone ''created'')
     = Inr (sample_history @ [sample_transition ''t3'' Conversation ''c1'' PNone ''created''])"
proof -
  have e: "entity_of (PS ''preview'') = Inr Preview" "entity_of (PS ''conversation'') = Inr Conversation"
    using entity_of_eq [of _ Preview] entity_of_eq [of _ Conversation] by simp_all
  have s: "in_ids (PS ''consumed'') (successors Preview (u ''pending'')) = Inr True"
    by (simp add: in_ids_def successors_def PREVIEW_EDGES_def)
  have r: "records_of sample_base ''conversation_turns'' = Inr []"
    "records_of sample_base ''conversation_preview_bindings'' = Inr [pdict [(''preview_id'', PS ''p1''), (''conversation_id'', PS ''c1'')]]"
    by (simp_all add: sample_base_def records_of_def)
  have c: "record_conversation sample_base Preview (u ''p1'') = Some (u ''c1'')"
    by (simp add: record_conversation_def sample_base_def)
  let ?ids = "\<lparr>id_conversations = [u ''c1''], id_turns = [], id_previews = [u ''p1'']\<rparr>"
  let ?c1 = "((Preview, u ''p1''), u ''c1'')"
  have t1: "project_transition sample_base ?ids (sample_transition ''t1'' Preview ''p1'' PNone ''pending'')
      \<lparr>pr_states = (\<lambda>_. []), pr_conversations = []\<rparr>
    = Inr \<lparr>pr_states = (\<lambda>_. [])(Preview := [(u ''p1'', u ''pending'')]), pr_conversations = [?c1]\<rparr>"
    by (simp add: project_transition_def sample_transition_def e c in_ids_def known_entity_def successor_state_def)
  have t2: "project_transition sample_base ?ids (sample_transition ''t2'' Preview ''p1'' (PS ''pending'') ''consumed'')
      \<lparr>pr_states = (\<lambda>_. [])(Preview := [(u ''p1'', u ''pending'')]), pr_conversations = [?c1]\<rparr>
    = Inr \<lparr>pr_states = (\<lambda>_. [])(Preview := [(u ''p1'', u ''consumed'')]), pr_conversations = [?c1]\<rparr>"
    using s by (simp add: project_transition_def sample_transition_def e c in_ids_def known_entity_def successor_state_def
        is_terminal_def)
  have t3: "project_transition sample_base ?ids (sample_transition ''t3'' Conversation ''c1'' PNone ''created'')
      \<lparr>pr_states = (\<lambda>_. [])(Preview := [(u ''p1'', u ''consumed'')]), pr_conversations = [?c1]\<rparr>
    = Inr \<lparr>pr_states = (\<lambda>_. [])(Preview := [(u ''p1'', u ''consumed'')], Conversation := [(u ''c1'', u ''created'')]),
        pr_conversations = [?c1, ((Conversation, u ''c1''), u ''c1'')]\<rparr>"
    by (simp add: project_transition_def sample_transition_def e in_ids_def known_entity_def successor_state_def Let_def)
  have recs: "transition_records (PList (sample_history @ [sample_transition ''t3'' Conversation ''c1'' PNone ''created'']))
    = Inr (sample_history @ [sample_transition ''t3'' Conversation ''c1'' PNone ''created''])"
    by (simp add: transition_records_def sample_history_def sample_transition_def)
  show ?thesis
    unfolding append_validated_transition_def validate_conversation_history_def project_conversation_history_def Let_def recs
      sample_identities r
    by (simp add: sample_history_def t1 t2 t3 is_pending_preview_def)
qed

theorem settled_entity_is_final_witness:
  "\<not> of_entity Preview (u ''p1'') (sample_transition ''t3'' Conversation ''c1'' PNone ''created'')
   \<and> end_state Preview (u ''p1'') (sample_history @ [sample_transition ''t3'' Conversation ''c1'' PNone ''created'']) = Some (u ''consumed'')"
proof -
  have "end_state Preview (u ''p1'') sample_history = Some (u ''consumed'')"
    by (simp add: end_state_def of_entity_def sample_history_def sample_transition_def)
  moreover have "is_terminal Preview (u ''consumed'')" by (simp add: is_terminal_def)
  ultimately show ?thesis using settled_entity_is_final [OF sample_append] by blast
qed

end
