(* ===== verification/Run_Loop.thy ===== *)
theory Run_Loop
  imports Review_Iteration "HOL-Library.Multiset"
begin

text \<open>
  The run loop: one wave over a plan (\<^verbatim>\<open>_run_loop_single_wave\<close> of \<^verbatim>\<open>src/agentdeck/cli.py\<close>)
  with the decisions of \<^verbatim>\<open>autonomy.py\<close>, the check of \<^verbatim>\<open>dispatch_receptive.py\<close> that a pane can take a
  task, and the operations of \<^verbatim>\<open>state.py\<close> it calls (\<^verbatim>\<open>decide_approval\<close>, \<^verbatim>\<open>plan_status\<close>,
  \<^verbatim>\<open>leader_review\<close>, \<^verbatim>\<open>create_dispatch_records\<close>, \<^verbatim>\<open>mark_approval_dispatched\<close>).

  The ledger is a dictionary. A wave also has the panes it types into: the log \<open>wo_sent\<close> lists the
  (agent, approval) pairs whose prompt was sent. What the outside does in a wave is the record
  \<open>dispatch_env\<close>: the configured agents, what each pane shows, fresh identifiers, the prompts, and at which
  point of a dispatch an exception is raised (a failing write of the ledger, a missing pane). Events
  appended to the journal are left out.

  The lemmas show what a wave may dispatch, that it holds everything else, that without exceptions
  no pane gets two tasks, and that with one after the send it can.
\<close>

section \<open>Deciding (autonomy.py)\<close>

text \<open>\<^verbatim>\<open>v in s\<close> for a set of ledger values, given by their keys.\<close>

definition in_value_set :: "pyval \<Rightarrow> pyval list \<Rightarrow> py_exn + bool" where
  "in_value_set v keys = (if py_hashable v then Inr (py_key v \<in> set keys) else Inl TypeError)"

fun select_loop ::
    "pstr list \<Rightarrow> int \<Rightarrow> pyval list \<Rightarrow> pyval list \<Rightarrow> pyval list \<Rightarrow> py_exn + pyval list \<times> pyval list" where
  "select_loop allowed max_approvals selected skipped [] = Inr (selected, skipped)"
| "select_loop allowed max_approvals selected skipped (approval # pending) =
     (if \<not> is_dict approval then select_loop allowed max_approvals selected skipped pending
      else rbind (in_value_set (dget approval ''agent_id'') (map PStr allowed)) (\<lambda>known.
        if \<not> known
        then select_loop allowed max_approvals selected (skipped @ [dput ''reason'' (PS ''agent not in allowlist'') approval]) pending
        else if int (length selected) \<ge> max_approvals
        then select_loop allowed max_approvals selected (skipped @ [dput ''reason'' (PS ''budget exhausted'') approval]) pending
        else select_loop allowed max_approvals (selected @ [approval]) skipped pending))"

definition select_auto_approvals :: "pyval list \<Rightarrow> pstr list \<Rightarrow> int \<Rightarrow> py_exn + pyval list \<times> pyval list" where
  "select_auto_approvals pending allowed_agents max_approvals = select_loop allowed_agents max_approvals [] [] pending"

definition run_loop_gate :: "pyval \<Rightarrow> bool \<Rightarrow> pstr \<Rightarrow> string \<times> pstr" where
  "run_loop_gate review has_error plan_id =
     (let next_action = dget review ''next_action''; agent = py_str (dget review ''agent_id'') in
      if has_error then (''error'', u ''agentdeck plan status --plan-id '' @ plan_id)
      else if next_action = PS ''dispatch_approved'' then (''blocked'', u ''agentdeck agent spawn --agent '' @ agent)
      else if next_action = PS ''wait_for_approval'' then (''needs_human_approval'', u ''agentdeck approval list'')
      else if next_action = PS ''wait_for_reply'' then
        (''waiting_for_reply'', u ''agentdeck capture-reply --agent '' @ agent @ u '' --message-id '' @ py_str (dget review ''message_id''))
      else if next_action = PS ''summarize'' then (''complete'', u ''agentdeck leader summary --plan-id '' @ plan_id)
      else (''idle'', u ''agentdeck run --plan-id '' @ plan_id))"

section \<open>Can a pane take a task (dispatch_receptive.py)\<close>

datatype receptive = Receptive | Blocked string | Unverifiable

text \<open>The regular expression of the live selector: one of two glyphs, white space, \<^verbatim>\<open>1.\<close>.\<close>

fun active_selector :: "pstr \<Rightarrow> bool" where
  "active_selector [] = False"
| "active_selector (c # cs) = ((c = 8250 \<or> c = 10095) \<and> prefix [49, 46] (dropWhile is_space cs) \<or> active_selector cs)"

definition trust_markers :: "pstr list" where
  "trust_markers = [u ''Do you trust the contents of this directory'', u ''Is this a project you created or one you trust'']"

definition classify_pane_receptive :: "pstr option \<Rightarrow> receptive" where
  "classify_pane_receptive pane_text =
     (case pane_text of
        None \<Rightarrow> Unverifiable
      | Some pane \<Rightarrow>
          let lines = splitlines pane; tail = drop (length lines - 20) lines in
          if \<not> list_ex active_selector tail then Receptive
          else let folded = py_join [32] (py_split (py_join [32] tail)) in
            if list_ex (\<lambda>marker. py_in marker folded) trust_markers then Blocked ''directory_trust''
            else Blocked ''pending_box'')"

definition receptive_blocker_message :: "receptive \<Rightarrow> pstr \<Rightarrow> pstr \<Rightarrow> pstr option" where
  "receptive_blocker_message verdict agent_id pane_id =
     (case verdict of
        Blocked reason \<Rightarrow>
          if reason = ''directory_trust''
          then Some (u ''agent pane is waiting on a directory trust prompt: '' @ agent_id @ u '' (pane='' @ pane_id
            @ u ''); run `agentdeck agent trust --confirm`, then respawn it'')
          else Some (u ''agent pane is waiting on an authorization box: '' @ agent_id @ u '' (pane='' @ pane_id
            @ u ''); answer it or grant a delegation before dispatching'')
      | _ \<Rightarrow> None)"

definition transport_dispatch_blocker :: "pstr \<Rightarrow> pstr \<Rightarrow> pstr option" where
  "transport_dispatch_blocker agent_id transport =
     (if transport = u ''tmux'' then None
      else Some (u ''agent is configured for the '' @ transport @ u '' transport, which this dispatch path cannot drive: ''
        @ agent_id @ u ''; AgentDeck will not silently fall back to typing into its pane''))"

section \<open>The ledger\<close>

text \<open>\<^verbatim>\<open>[x for x in xs if x.get(k) == v]\<close>: an element that is no dictionary raises.\<close>

definition having :: "string \<Rightarrow> pyval \<Rightarrow> pyval list \<Rightarrow> py_exn + pyval list" where
  "having k v xs = (if list_all is_dict xs then Inr (filter (\<lambda>x. py_eq (dget x k) v) xs) else Inl AttributeError)"

text \<open>\<^verbatim>\<open>next((x for x in xs if x.get(k) == v), None)\<close>.\<close>

fun first_having :: "string \<Rightarrow> pyval \<Rightarrow> pyval list \<Rightarrow> py_exn + pyval option" where
  "first_having k v [] = Inr None"
| "first_having k v (x # xs) =
     (if \<not> is_dict x then Inl AttributeError else if py_eq (dget x k) v then Inr (Some x) else first_having k v xs)"

text \<open>Updating in place the first element with a given value.\<close>

fun update_first :: "string \<Rightarrow> pyval \<Rightarrow> (pyval \<Rightarrow> pyval) \<Rightarrow> pyval list \<Rightarrow> pyval list" where
  "update_first k v f [] = []"
| "update_first k v f (x # xs) = (if is_dict x \<and> py_eq (dget x k) v then f x # xs else x # update_first k v f xs)"

definition update_approval :: "pstr \<Rightarrow> (string \<times> pyval) list \<Rightarrow> pyval \<Rightarrow> py_exn + pyval" where
  "update_approval approval_id changes state =
     rbind (ledger_items state ''approvals'') (\<lambda>approvals.
     rbind (first_having ''approval_id'' (PStr approval_id) approvals) (\<lambda>found.
     case found of
       None \<Rightarrow> Inl KeyError
     | Some _ \<Rightarrow> Inr (dput ''approvals'' (PList (update_first ''approval_id'' (PStr approval_id) (dputs changes) approvals)) state)))"

definition decide_approval :: "pstr \<Rightarrow> pstr \<Rightarrow> string \<Rightarrow> string \<Rightarrow> pyval \<Rightarrow> py_exn + pyval" where
  "decide_approval now approval_id status reason state =
     update_approval approval_id
       ([(''status'', PS status), (''decided_at'', PStr now)] @ (if reason = '''' then [] else [(''reason'', PS reason)])) state"

definition mark_approval_dispatched :: "pstr \<Rightarrow> pstr \<Rightarrow> pstr \<Rightarrow> pstr \<Rightarrow> pstr \<Rightarrow> pyval \<Rightarrow> py_exn + pyval" where
  "mark_approval_dispatched now approval_id message_id attempt_id job_id state =
     update_approval approval_id
       [(''status'', PS ''dispatched''), (''message_id'', PStr message_id), (''attempt_id'', PStr attempt_id),
        (''job_id'', PStr job_id), (''dispatched_at'', PStr now)] state"

definition agent_binding :: "pyval \<Rightarrow> pstr \<Rightarrow> py_exn + pyval" where
  "agent_binding state agent_id =
     (case dget_or state ''agents'' (PDict []) of
        PDict agents \<Rightarrow> Inr (case map_of agents agent_id of None \<Rightarrow> PNone | Some b \<Rightarrow> b)
      | _ \<Rightarrow> Inl AttributeError)"

subsection \<open>plan_status\<close>

text \<open>The row of one step, joined with its approval; the counts and plan-level fields are left out.\<close>

definition status_item :: "(int \<times> int list) list \<Rightarrow> (pyval \<times> pyval) list \<Rightarrow> (pstr \<times> pyval) list \<Rightarrow> pyval \<Rightarrow> py_exn + pyval" where
  "status_item dependencies approvals_by_step messages_by_id step =
     (if \<not> py_hashable (dget step ''step'') then Inl TypeError
      else
        let approval = (case map_of approvals_by_step (py_key (dget step ''step'')) of Some a \<Rightarrow> (if truthy a then a else PNone) | None \<Rightarrow> PNone);
            of_approval = (\<lambda>k. (k, dget approval k));
            of_step = (\<lambda>k. (k, dget step k));
            approval_status = (if approval = PNone then PS ''not_created'' else dget approval ''status'') in
        rbind (py_int_or_0 (dget step ''step'')) (\<lambda>number.
        if \<not> py_hashable approval_status then Inl TypeError
        else Inr (pdict
          (map of_step [''step'', ''agent_id'', ''role'', ''task''] @ [of_approval ''approval_id'', (''approval_status'', approval_status)]
           @ map of_approval [''message_id'', ''attempt_id'', ''job_id'']
           @ map of_step [''origin'', ''round'', ''triggered_by_reply'', ''review_group'', ''review_group_member'']
           @ [(''depends_on'', PList (map PInt (dependencies_for dependencies number))),
              (''worktree_base_commit'', (case map_of messages_by_id (py_str (dget approval ''message_id'')) of
                 None \<Rightarrow> PNone | Some m \<Rightarrow> dget m ''worktree_base_commit''))]
           @ (if truthy (dget approval ''reason'') then [of_approval ''reason''] else [])))))"

definition plan_status_steps :: "pyval \<Rightarrow> pstr \<Rightarrow> py_exn + pyval list" where
  "plan_status_steps state plan_id =
     rbind (ledger_items state ''plans'') (\<lambda>plans.
     rbind (first_having ''plan_id'' (PStr plan_id) plans) (\<lambda>plan.
     case plan of
       None \<Rightarrow> Inl KeyError
     | Some record \<Rightarrow>
         let body = dget_or record ''plan'' (PDict []);
             steps = (if is_dict body then dget_or body ''steps'' (PList []) else PList []) in
         rbind (ledger_items state ''approvals'') (\<lambda>items.
         rbind (having ''plan_id'' (PStr plan_id) items) (\<lambda>approvals.
         rbind (index_by ''step'' approvals) (\<lambda>approvals_by_step.
         rbind (ledger_items state ''messages'') (\<lambda>messages.
         rmap (status_item (derive_step_dependencies (list_items steps)) approvals_by_step
             (dict_of (map (\<lambda>m. (py_str (dget m ''message_id''), m)) (filter is_dict messages))))
           (filter is_dict (list_items steps))))))))"

subsection \<open>leader_review\<close>

definition review_of :: "string \<Rightarrow> (string \<times> pyval) list \<Rightarrow> pyval" where
  "review_of next_action entries = pdict ((''next_action'', PS next_action) # entries)"

text \<open>The entries the run loop reads: the next action, and the step's agent and message.\<close>

definition leader_review_core :: "pyval \<Rightarrow> pstr \<Rightarrow> py_exn + pyval" where
  "leader_review_core state plan_id =
     rbind (plan_status_steps state plan_id) (\<lambda>steps.
     rbind (ledger_items state ''replies'') (\<lambda>replies.
     if \<not> list_all is_dict replies then Inl AttributeError
     else rbind (index_by ''message_id'' replies) (\<lambda>replies_by_message.
     case find (\<lambda>step. py_eq (dget step ''approval_status'') (PS ''approved'')) steps of
       Some step \<Rightarrow> Inr (review_of ''dispatch_approved''
         [(''approval_id'', dget step ''approval_id''), (''agent_id'', dget step ''agent_id'')])
     | None \<Rightarrow>
         let sent = filter (\<lambda>step. py_eq (dget step ''approval_status'') (PS ''dispatched'') \<and> truthy (dget step ''message_id'')) steps;
             replied = (\<lambda>step. map_of replies_by_message (py_key (dget step ''message_id'')) \<noteq> None) in
         if \<not> list_all (\<lambda>step. py_hashable (dget step ''message_id'')) sent then Inl TypeError
         else (case filter (\<lambda>step. \<not> replied step) sent of
             step # _ \<Rightarrow> Inr (review_of ''wait_for_reply''
               [(''agent_id'', dget step ''agent_id''), (''message_id'', dget step ''message_id'')])
           | [] \<Rightarrow>
               let pending = filter (\<lambda>step. dget step ''approval_status'' = PNone \<or> py_eq (dget step ''approval_status'') (PS ''pending'')) steps in
               if sent \<noteq> [] \<and> pending \<noteq> [] then Inr (review_of ''wait_for_approval'' [])
               else if sent \<noteq> [] then Inr (review_of ''summarize'' [])
               else Inr (review_of ''wait_for_approval'' [])))))"

section \<open>Dispatching one approval\<close>

datatype fault = No_fault | Before_records | After_records | After_send | After_mark

record dispatch_env =
  de_now :: pstr
  de_agents :: "(pstr \<times> pstr) list"
  de_pane :: "pstr \<Rightarrow> pstr option"
  de_message_id :: "pstr \<Rightarrow> pstr"
  de_attempt_id :: "pstr \<Rightarrow> pstr"
  de_job_id :: "pstr \<Rightarrow> pstr"
  de_inbox_id :: "pstr \<Rightarrow> pstr"
  de_prompt :: "pstr \<Rightarrow> pstr"
  de_worktree :: "pstr \<Rightarrow> pyval"
  de_skills :: "pstr \<Rightarrow> pyval"
  de_fault :: "pstr \<Rightarrow> fault"

record world =
  wo_state :: pyval
  wo_sent :: "(pstr \<times> pstr) list"

text \<open>\<^verbatim>\<open>state.setdefault(k, []).append(v)\<close>.\<close>

definition append_record :: "string \<Rightarrow> pyval \<Rightarrow> pyval \<Rightarrow> py_exn + pyval" where
  "append_record k v state =
     (case dget_or state k (PList []) of
        PList xs \<Rightarrow> Inr (dput k (PList (xs @ [v])) state)
      | _ \<Rightarrow> Inl AttributeError)"

definition append_inbox :: "pstr \<Rightarrow> pyval \<Rightarrow> pyval \<Rightarrow> py_exn + pyval" where
  "append_inbox to_agent item state =
     (case dget_or state ''inbox'' (PDict []) of
        PDict inbox \<Rightarrow>
          (case (case map_of inbox to_agent of None \<Rightarrow> PList [] | Some v \<Rightarrow> v) of
             PList items \<Rightarrow> Inr (dput ''inbox'' (PDict (dict_put to_agent (PList (items @ [item])) inbox)) state)
           | _ \<Rightarrow> Inl AttributeError)
      | _ \<Rightarrow> Inl AttributeError)"

definition create_dispatch_records ::
    "dispatch_env \<Rightarrow> pstr \<Rightarrow> pstr \<Rightarrow> pstr \<Rightarrow> pstr \<Rightarrow> pyval \<Rightarrow> py_exn + pyval" where
  "create_dispatch_records E approval_id to_agent task pane_id state =
     (let message_id = PStr (de_message_id E approval_id); attempt_id = PStr (de_attempt_id E approval_id);
          job_id = PStr (de_job_id E approval_id); now = PStr (de_now E); w = de_worktree E approval_id;
          skills = de_skills E approval_id;
          message = pdict
            ([(''message_id'', message_id), (''from_actor'', PS ''leader''), (''to_agent'', PStr to_agent), (''task'', PStr task),
              (''prompt'', PStr (de_prompt E approval_id)), (''status'', PS ''dispatched''), (''created_at'', now),
              (''worktree_path'', dget w ''path''), (''worktree_branch'', dget w ''branch''),
              (''worktree_base_branch'', dget w ''base_branch''), (''worktree_base_commit'', dget w ''base_commit'')]
             @ (if skills = PNone then [] else [(''prompt_skill_context'', skills)]));
          attempt = pdict
            [(''attempt_id'', attempt_id), (''message_id'', message_id), (''agent_id'', PStr to_agent),
             (''status'', PS ''dispatched''), (''created_at'', now)];
          job = pdict
            [(''job_id'', job_id), (''message_id'', message_id), (''attempt_id'', attempt_id), (''agent_id'', PStr to_agent),
             (''pane_id'', PStr pane_id), (''status'', PS ''dispatched''), (''created_at'', now)];
          inbox_item = pdict
            [(''inbox_id'', PStr (de_inbox_id E approval_id)), (''event_type'', PS ''task_request''), (''message_id'', message_id),
             (''attempt_id'', attempt_id), (''job_id'', job_id), (''from_actor'', PS ''leader''), (''to_agent'', PStr to_agent),
             (''task'', PStr task), (''status'', PS ''pending''), (''created_at'', now)] in
      rbind (append_record ''messages'' message state) (\<lambda>state.
      rbind (append_record ''attempts'' attempt state) (\<lambda>state.
      rbind (append_record ''jobs'' job state) (append_inbox to_agent inbox_item))))"

text \<open>
  \<^verbatim>\<open>_dispatch_approved_approval\<close>: what it leaves behind, and whether it returns. Its guards come before
  its first write, and the ledger is written twice, with the send in between.
\<close>

definition dispatch_guards :: "dispatch_env \<Rightarrow> pyval \<Rightarrow> pyval \<Rightarrow> (pstr \<times> pstr) option" where
  "dispatch_guards E approval state =
     (let agent_id = py_str (dget_or approval ''agent_id'' (PS '''')) in
      case (map_of (de_agents E) agent_id, agent_binding state agent_id) of
        (Some transport, Inr binding) \<Rightarrow>
          if \<not> is_dict binding \<or> \<not> truthy (dget binding ''pane_id'') then None
          else let pane_id = py_str (dget binding ''pane_id'') in
            if receptive_blocker_message (classify_pane_receptive (de_pane E pane_id)) agent_id pane_id \<noteq> None
              \<or> transport_dispatch_blocker agent_id transport \<noteq> None
            then None else Some (agent_id, pane_id)
      | _ \<Rightarrow> None)"

definition dispatch_approved_approval ::
    "dispatch_env \<Rightarrow> pyval \<Rightarrow> pstr \<Rightarrow> world \<Rightarrow> world \<times> pstr option" where
  "dispatch_approved_approval E approval approval_id w =
     (case dispatch_guards E approval (wo_state w) of
        None \<Rightarrow> (w, None)
      | Some (agent_id, pane_id) \<Rightarrow>
          if de_fault E approval_id = Before_records then (w, None)
          else (case create_dispatch_records E approval_id agent_id (py_str (dget_or approval ''task'' (PS ''''))) pane_id (wo_state w) of
            Inl _ \<Rightarrow> (w, None)
          | Inr state1 \<Rightarrow>
              if de_fault E approval_id = After_records then (w\<lparr>wo_state := state1\<rparr>, None)
              else let w1 = \<lparr>wo_state = state1, wo_sent = wo_sent w @ [(agent_id, approval_id)]\<rparr> in
                if de_fault E approval_id = After_send then (w1, None)
                else (case mark_approval_dispatched (de_now E) approval_id (de_message_id E approval_id)
                    (de_attempt_id E approval_id) (de_job_id E approval_id) state1 of
                  Inl _ \<Rightarrow> (w1, None)
                | Inr state2 \<Rightarrow>
                    let w2 = w1\<lparr>wo_state := state2\<rparr> in
                    if de_fault E approval_id = After_mark then (w2, None)
                    else (w2, Some (de_message_id E approval_id)))))"

section \<open>The dispatch pass of a wave\<close>

definition preview_blocker :: "dispatch_env \<Rightarrow> pyval \<Rightarrow> pyval \<Rightarrow> py_exn + pstr option" where
  "preview_blocker E approval state =
     (let agent_id = py_str (dget_or approval ''agent_id'' (PS '''')) in
      rbind (agent_binding state agent_id) (\<lambda>found.
      let binding = (if truthy found then found else PDict []) in
      if \<not> is_dict binding then Inl AttributeError
      else let runtime_status = py_str (dget_or binding ''status'' (PS ''configured'')) in
        Inr (if map_of (de_agents E) agent_id = None then Some (u ''unknown agent: '' @ agent_id)
             else if \<not> truthy (dget binding ''pane_id'') then Some (u ''agent is not spawned: '' @ agent_id)
             else if runtime_status \<noteq> u ''running''
             then Some (u ''agent runtime is '' @ runtime_status @ u '': '' @ agent_id) else None)))"

text \<open>The agents of any plan with a dispatched step that has no reply yet, by their keys.\<close>

fun busy_of_plan :: "pyval list \<Rightarrow> pyval list \<Rightarrow> pyval list \<Rightarrow> py_exn + pyval list" where
  "busy_of_plan replied busy [] = Inr busy"
| "busy_of_plan replied busy (step # steps) =
     (if py_eq (dget step ''approval_status'') (PS ''dispatched'') \<and> truthy (dget step ''message_id'')
      then rbind (in_value_set (dget step ''message_id'') replied) (\<lambda>answered.
        if answered then busy_of_plan replied busy steps
        else if \<not> py_hashable (dget step ''agent_id'') then Inl TypeError
        else busy_of_plan replied (py_key (dget step ''agent_id'') # busy) steps)
      else busy_of_plan replied busy steps)"

fun busy_of_plans :: "pyval \<Rightarrow> pyval list \<Rightarrow> pyval list \<Rightarrow> pyval list \<Rightarrow> py_exn + pyval list" where
  "busy_of_plans state replied busy [] = Inr busy"
| "busy_of_plans state replied busy (plan # plans) =
     (if \<not> is_dict plan then busy_of_plans state replied busy plans
      else case plan_status_steps state (py_str (dget_or plan ''plan_id'' (PS ''''))) of
        Inl KeyError \<Rightarrow> busy_of_plans state replied busy plans
      | Inl e \<Rightarrow> Inl e
      | Inr steps \<Rightarrow> rbind (busy_of_plan replied busy steps) (\<lambda>busy. busy_of_plans state replied busy plans))"

definition busy_agents :: "pyval \<Rightarrow> py_exn + pyval list" where
  "busy_agents state =
     rbind (ledger_items state ''replies'') (\<lambda>replies.
     let ids = map (\<lambda>r. dget r ''message_id'') (filter is_dict replies) in
     if \<not> list_all py_hashable ids then Inl TypeError
     else rbind (ledger_items state ''plans'') (busy_of_plans state (map py_key ids) []))"

definition plan_body_steps :: "pyval \<Rightarrow> pstr \<Rightarrow> py_exn + pyval list" where
  "plan_body_steps state plan_id =
     (case plan_status_steps state plan_id of
        Inl KeyError \<Rightarrow> Inr []
      | Inl e \<Rightarrow> Inl e
      | Inr steps \<Rightarrow> Inr (filter is_dict steps))"

text \<open>\<^verbatim>\<open>_step_is_incomplete\<close>.\<close>

definition step_is_incomplete :: "pstr list \<Rightarrow> pyval \<Rightarrow> bool" where
  "step_is_incomplete replied item \<longleftrightarrow>
     \<not> py_eq (dget item ''status'') (PS ''rejected'')
     \<and> \<not> (py_eq (dget item ''status'') (PS ''dispatched'') \<and> py_str (dget item ''message_id'') \<in> set replied)"

record wave =
  wv_world :: world
  wv_busy :: "pyval list"
  wv_dispatched :: "(pstr \<times> pstr) list"
  wv_blocked :: "(pstr \<times> pstr) list"
  wv_sequence_held :: "pstr list"
  wv_contention_held :: "pstr list"
  wv_failed :: "pstr list"

definition wave_step :: "dispatch_env \<Rightarrow> (int \<times> int list) list \<Rightarrow> int list \<Rightarrow> pyval \<Rightarrow> wave \<Rightarrow> py_exn + wave" where
  "wave_step E ancestors incomplete approval wv =
     (let approval_id = py_str (dget_or approval ''approval_id'' (PS '''')) in
      rbind (py_int_or_0 (dget approval ''step'')) (\<lambda>step_number.
      if list_ex (\<lambda>ancestor. ancestor \<in> set incomplete) (ancestors_for ancestors step_number)
      then Inr (wv\<lparr>wv_sequence_held := wv_sequence_held wv @ [approval_id]\<rparr>)
      else rbind (in_value_set (dget approval ''agent_id'') (wv_busy wv)) (\<lambda>busy.
        if busy then Inr (wv\<lparr>wv_contention_held := wv_contention_held wv @ [approval_id]\<rparr>)
        else rbind (preview_blocker E approval (wo_state (wv_world wv))) (\<lambda>blocker.
          case blocker of
            Some reason \<Rightarrow> Inr (wv\<lparr>wv_blocked := wv_blocked wv @ [(approval_id, reason)]\<rparr>)
          | None \<Rightarrow>
              Inr (case dispatch_approved_approval E approval approval_id (wv_world wv) of
                 (w, Some message_id) \<Rightarrow>
                   wv\<lparr>wv_world := w, wv_dispatched := wv_dispatched wv @ [(approval_id, message_id)],
                      wv_busy := py_key (dget approval ''agent_id'') # wv_busy wv\<rparr>
               | (w, None) \<Rightarrow> wv\<lparr>wv_world := w, wv_failed := wv_failed wv @ [approval_id]\<rparr>)))))"

fun wave_loop :: "dispatch_env \<Rightarrow> (int \<times> int list) list \<Rightarrow> int list \<Rightarrow> pyval list \<Rightarrow> wave \<Rightarrow> py_exn + wave" where
  "wave_loop E ancestors incomplete [] wv = Inr wv"
| "wave_loop E ancestors incomplete (approval # approvals) wv =
     rbind (wave_step E ancestors incomplete approval wv) (wave_loop E ancestors incomplete approvals)"

definition replied_messages :: "pyval list \<Rightarrow> pstr list" where
  "replied_messages replies = map (\<lambda>r. py_str (dget r ''message_id'')) (filter is_dict replies)"

definition dispatch_pass :: "dispatch_env \<Rightarrow> pstr \<Rightarrow> world \<Rightarrow> py_exn + wave" where
  "dispatch_pass E plan_id w =
     (let state = wo_state w in
      rbind (ledger_items state ''replies'') (\<lambda>replies.
      rbind (ledger_items state ''approvals'') (\<lambda>items.
      let seq_approvals = plan_approvals items plan_id;
          incomplete = filter (step_is_incomplete (replied_messages replies)) seq_approvals in
      rbind (rmap (\<lambda>item. py_int_or_0 (dget item ''step'')) incomplete) (\<lambda>incomplete_steps.
      rbind (plan_body_steps state plan_id) (\<lambda>steps.
      rbind (busy_agents state) (\<lambda>busy.
      wave_loop E (derive_step_ancestors steps) incomplete_steps
        (filter (\<lambda>a. py_eq (dget a ''status'') (PS ''approved'')) seq_approvals)
        \<lparr>wv_world = w, wv_busy = busy, wv_dispatched = [], wv_blocked = [], wv_sequence_held = [],
          wv_contention_held = [], wv_failed = []\<rparr>))))))"

section \<open>One wave\<close>

record run_policy =
  rp_allowed_agents :: "pstr list"
  rp_max_approvals :: int
  rp_max_review_rounds :: int

fun auto_approve :: "pstr \<Rightarrow> pyval list \<Rightarrow> pyval \<Rightarrow> py_exn + pyval" where
  "auto_approve now [] state = Inr state"
| "auto_approve now (approval # selected) state =
     rbind (decide_approval now (py_str (dget_or approval ''approval_id'' (PS ''''))) ''approved'' ''autonomous'' state)
       (auto_approve now selected)"

record wave_result =
  wr_wave :: wave
  wr_auto_approved :: nat
  wr_stopped_reason :: string
  wr_next_command :: pstr

text \<open>The plan's dispatched approvals without a reply, by step.\<close>

definition awaiting_after :: "pyval \<Rightarrow> pstr \<Rightarrow> py_exn + (pstr \<times> pstr \<times> int) list" where
  "awaiting_after state plan_id =
     rbind (ledger_items state ''replies'') (\<lambda>replies.
     rbind (ledger_items state ''approvals'') (\<lambda>items.
     rbind (rmap (\<lambda>a. rbind (py_int_or_0 (dget a ''step'')) (\<lambda>n. Inr (py_str (dget a ''message_id''), py_str (dget a ''agent_id''), n)))
       (filter (\<lambda>a. py_eq (dget a ''status'') (PS ''dispatched'') \<and> truthy (dget a ''message_id'')
          \<and> py_str (dget a ''message_id'') \<notin> set (replied_messages replies)) (plan_approvals items plan_id))) (\<lambda>awaiting.
     Inr (sort_key (\<lambda>(m, a, n). n) awaiting))))"

text \<open>
  \<open>ingest\<close> is what \<^verbatim>\<open>_ingest_plan_reply_files\<close> makes of the ledger: it records the replies that
  workers have written to their files.
\<close>

definition run_loop_single_wave ::
    "dispatch_env \<Rightarrow> run_policy \<Rightarrow> (nat \<Rightarrow> pstr) \<Rightarrow> pyval \<Rightarrow> (pyval \<Rightarrow> pyval) \<Rightarrow> pstr \<Rightarrow> world \<Rightarrow> py_exn + wave_result" where
  "run_loop_single_wave E policy fresh review_binding ingest plan_id w =
     rbind (ledger_items (wo_state w) ''approvals'') (\<lambda>items.
     let pending = filter (\<lambda>a. py_eq (dget a ''status'') (PS ''pending'')) (plan_approvals items plan_id) in
     rbind (select_auto_approvals pending (rp_allowed_agents policy) (rp_max_approvals policy)) (\<lambda>(selected, skipped).
     rbind (auto_approve (de_now E) selected (wo_state w)) (\<lambda>approved.
     let ingested = ingest approved in
     rbind (if rp_max_review_rounds policy > 0
            then rbind (append_review_iteration fresh (de_now E) ingested plan_id (rp_max_review_rounds policy) review_binding None)
              (\<lambda>(state, _). Inr state)
            else Inr ingested) (\<lambda>state.
     rbind (dispatch_pass E plan_id (w\<lparr>wo_state := state\<rparr>)) (\<lambda>wv.
     rbind (leader_review_core (wo_state (wv_world wv)) plan_id) (\<lambda>review.
     let (stopped_reason, next_command) = run_loop_gate review (wv_failed wv \<noteq> []) plan_id;
         result = \<lparr>wr_wave = wv, wr_auto_approved = length selected, wr_stopped_reason = stopped_reason,
           wr_next_command = next_command\<rparr> in
     if (wv_sequence_held wv \<noteq> [] \<or> wv_contention_held wv \<noteq> []) \<and> wv_blocked wv = [] \<and> stopped_reason = ''blocked''
     then rbind (awaiting_after (wo_state (wv_world wv)) plan_id) (\<lambda>awaiting.
       case awaiting of
         [] \<Rightarrow> Inr result
       | (message_id, agent_id, step) # _ \<Rightarrow>
           Inr (result\<lparr>wr_stopped_reason := ''waiting_for_reply'',
             wr_next_command := u ''agentdeck capture-reply --agent '' @ agent_id @ u '' --message-id '' @ message_id\<rparr>))
     else Inr result))))))"

section \<open>What a wave dispatches\<close>

abbreviation approval_id :: "pyval \<Rightarrow> pstr" where
  "approval_id a \<equiv> py_str (dget_or a ''approval_id'' (PS ''''))"

abbreviation approval_agent :: "pyval \<Rightarrow> pstr" where
  "approval_agent a \<equiv> py_str (dget_or a ''agent_id'' (PS ''''))"

text \<open>Nothing the step depends on is incomplete.\<close>

definition inputs_ready :: "(int \<times> int list) list \<Rightarrow> int list \<Rightarrow> pyval \<Rightarrow> bool" where
  "inputs_ready ancestors incomplete a \<longleftrightarrow>
     (\<exists>n. py_int_or_0 (dget a ''step'') = Inr n \<and> set (ancestors_for ancestors n) \<inter> set incomplete = {})"

text \<open>The agent is known, on the tmux transport, and its pane shows no live dialog.\<close>

definition pane_ready :: "dispatch_env \<Rightarrow> pstr \<Rightarrow> bool" where
  "pane_ready E agent \<longleftrightarrow> map_of (de_agents E) agent = Some (u ''tmux'')
     \<and> (\<exists>pane. \<forall>reason. classify_pane_receptive (de_pane E pane) \<noteq> Blocked reason)"

lemma dispatch_guards_ready:
  assumes "dispatch_guards E a state = Some (agent, pane)"
  shows "agent = approval_agent a \<and> pane_ready E agent"
proof -
  obtain transport where t: "map_of (de_agents E) (approval_agent a) = Some transport" "agent = approval_agent a"
      "receptive_blocker_message (classify_pane_receptive (de_pane E pane)) agent pane = None"
      "transport_dispatch_blocker agent transport = None"
    using assms by (auto simp: dispatch_guards_def Let_def split: option.splits sum.splits if_splits)
  then have "transport = u ''tmux''" by (simp add: transport_dispatch_blocker_def split: if_splits)
  moreover have "classify_pane_receptive (de_pane E pane) \<noteq> Blocked reason" for reason
    using t(3) by (auto simp: receptive_blocker_message_def split: if_splits)
  ultimately show ?thesis using t(1,2) by (auto simp: pane_ready_def)
qed

lemma dispatch_sends:
  assumes "dispatch_approved_approval E a i w = (w', r)"
  shows "(wo_sent w' = wo_sent w \<and> r = None) \<or> (wo_sent w' = wo_sent w @ [(approval_agent a, i)] \<and> pane_ready E (approval_agent a))"
proof (cases "dispatch_guards E a (wo_state w)")
  case None
  then show ?thesis using assms by (auto simp: dispatch_approved_approval_def)
next
  case (Some ap)
  then obtain agent pane where ap: "dispatch_guards E a (wo_state w) = Some (agent, pane)" by (cases ap) auto
  have "agent = approval_agent a" "pane_ready E agent" using dispatch_guards_ready [OF ap] by auto
  then show ?thesis
    using assms ap by (auto simp: dispatch_approved_approval_def Let_def split: sum.splits if_splits)
qed

lemma wave_step_cases:
  assumes "wave_step E anc inc a wv = Inr wv'"
  obtains (held) "wv' = wv\<lparr>wv_sequence_held := wv_sequence_held wv @ [approval_id a]\<rparr>"
  | (busy) "wv' = wv\<lparr>wv_contention_held := wv_contention_held wv @ [approval_id a]\<rparr>"
  | (blocked) reason where "wv' = wv\<lparr>wv_blocked := wv_blocked wv @ [(approval_id a, reason)]\<rparr>"
  | (sent) w m where "wv' = wv\<lparr>wv_world := w, wv_dispatched := wv_dispatched wv @ [(approval_id a, m)],
        wv_busy := py_key (dget a ''agent_id'') # wv_busy wv\<rparr>"
      "dispatch_approved_approval E a (approval_id a) (wv_world wv) = (w, Some m)"
      "inputs_ready anc inc a" "py_key (dget a ''agent_id'') \<notin> set (wv_busy wv)"
  | (failed) w where "wv' = wv\<lparr>wv_world := w, wv_failed := wv_failed wv @ [approval_id a]\<rparr>"
      "dispatch_approved_approval E a (approval_id a) (wv_world wv) = (w, None)"
      "inputs_ready anc inc a" "py_key (dget a ''agent_id'') \<notin> set (wv_busy wv)"
proof -
  obtain n where n: "py_int_or_0 (dget a ''step'') = Inr n"
    using assms by (auto simp: wave_step_def Let_def rbind_eq_Inr)
  show ?thesis
  proof (cases "list_ex (\<lambda>x. x \<in> set inc) (ancestors_for anc n)")
    case True
    then show ?thesis using assms n held by (simp add: wave_step_def Let_def)
  next
    case False
    then have ready: "inputs_ready anc inc a" using n by (auto simp: inputs_ready_def list_ex_iff)
    obtain b where b: "in_value_set (dget a ''agent_id'') (wv_busy wv) = Inr b"
      using assms n False by (auto simp: wave_step_def Let_def rbind_eq_Inr)
    show ?thesis
    proof (cases b)
      case True
      then show ?thesis using assms n False b busy by (simp add: wave_step_def Let_def)
    next
      case nb: False
      then have free: "py_key (dget a ''agent_id'') \<notin> set (wv_busy wv)"
        using b by (auto simp: in_value_set_def split: if_splits)
      obtain bl where bl: "preview_blocker E a (wo_state (wv_world wv)) = Inr bl"
        using assms n False b nb by (auto simp: wave_step_def Let_def rbind_eq_Inr)
      show ?thesis
      proof (cases bl)
        case (Some reason)
        then show ?thesis using assms n False b nb bl by (intro blocked [where reason = reason]) (simp add: wave_step_def Let_def)
      next
        case None
        obtain w r where d: "dispatch_approved_approval E a (approval_id a) (wv_world wv) = (w, r)" by fastforce
        show ?thesis
        proof (cases r)
          case None': None
          show ?thesis
            by (rule failed [where w = w]) (use assms n False b nb bl None None' d ready free in \<open>simp_all add: wave_step_def Let_def\<close>)
        next
          case (Some m)
          show ?thesis
            by (rule sent [where w = w and m = m]) (use assms n False b nb bl None Some d ready free in \<open>simp_all add: wave_step_def Let_def\<close>)
        qed
      qed
    qed
  qed
qed

text \<open>Everything the loop has put away so far.\<close>

definition accounted :: "wave \<Rightarrow> pstr multiset" where
  "accounted wv = mset (map fst (wv_dispatched wv)) + mset (map fst (wv_blocked wv)) + mset (wv_sequence_held wv)
     + mset (wv_contention_held wv) + mset (wv_failed wv)"

lemma wave_loop_sends:
  "wave_loop E anc inc as wv = Inr wv' \<Longrightarrow>
     \<exists>new. wo_sent (wv_world wv') = wo_sent (wv_world wv) @ new \<and> set (wv_busy wv) \<subseteq> set (wv_busy wv')
       \<and> (\<forall>(agent, i)\<in>set new. \<exists>a\<in>set as. i = approval_id a \<and> agent = approval_agent a \<and> inputs_ready anc inc a
            \<and> py_key (dget a ''agent_id'') \<notin> set (wv_busy wv) \<and> pane_ready E agent)
       \<and> accounted wv' = accounted wv + mset (map approval_id as)"
proof (induction as arbitrary: wv)
  case (Cons a as)
  then obtain wv1 where s: "wave_step E anc inc a wv = Inr wv1" "wave_loop E anc inc as wv1 = Inr wv'"
    by (auto simp: rbind_eq_Inr)
  obtain new where IH: "wo_sent (wv_world wv') = wo_sent (wv_world wv1) @ new" "set (wv_busy wv1) \<subseteq> set (wv_busy wv')"
      "\<forall>(agent, i)\<in>set new. \<exists>a\<in>set as. i = approval_id a \<and> agent = approval_agent a \<and> inputs_ready anc inc a
            \<and> py_key (dget a ''agent_id'') \<notin> set (wv_busy wv1) \<and> pane_ready E agent"
      "accounted wv' = accounted wv1 + mset (map approval_id as)"
    using Cons.IH [OF s(2)] by blast
  have step: "\<exists>h. wo_sent (wv_world wv1) = wo_sent (wv_world wv) @ h \<and> set (wv_busy wv) \<subseteq> set (wv_busy wv1)
     \<and> (\<forall>(agent, i)\<in>set h. i = approval_id a \<and> agent = approval_agent a \<and> inputs_ready anc inc a
            \<and> py_key (dget a ''agent_id'') \<notin> set (wv_busy wv) \<and> pane_ready E agent)
     \<and> accounted wv1 = add_mset (approval_id a) (accounted wv)"
    using s(1)
  proof (cases rule: wave_step_cases)
    case (sent w m)
    then show ?thesis using dispatch_sends [OF sent(2)] by (auto simp: accounted_def)
  next
    case (failed w)
    then show ?thesis using dispatch_sends [OF failed(2)] by (auto simp: accounted_def)
  qed (auto simp: accounted_def)
  then obtain h where h: "wo_sent (wv_world wv1) = wo_sent (wv_world wv) @ h" "set (wv_busy wv) \<subseteq> set (wv_busy wv1)"
     "\<forall>(agent, i)\<in>set h. i = approval_id a \<and> agent = approval_agent a \<and> inputs_ready anc inc a
            \<and> py_key (dget a ''agent_id'') \<notin> set (wv_busy wv) \<and> pane_ready E agent"
     "accounted wv1 = add_mset (approval_id a) (accounted wv)"
    by blast
  have "\<forall>(agent, i)\<in>set (h @ new). \<exists>b\<in>set (a # as). i = approval_id b \<and> agent = approval_agent b \<and> inputs_ready anc inc b
            \<and> py_key (dget b ''agent_id'') \<notin> set (wv_busy wv) \<and> pane_ready E agent"
    using h(2,3) IH(3) by fastforce
  moreover have "accounted wv' = accounted wv + mset (map approval_id (a # as))"
    using h(4) IH(4) by simp
  ultimately show ?case
    using h(1,2) IH(1,2) by (intro exI [of _ "h @ new"]) auto
qed (simp add: accounted_def)

lemma wave_loop_distinct:
  "wave_loop E anc inc as wv = Inr wv' \<Longrightarrow> wv_failed wv' = [] \<Longrightarrow> \<forall>a\<in>set as. is_str (dget a ''agent_id'') \<Longrightarrow>
     \<exists>new. wo_sent (wv_world wv') = wo_sent (wv_world wv) @ new \<and> wv_failed wv = []
       \<and> distinct (map fst new) \<and> PStr ` fst ` set new \<inter> set (wv_busy wv) = {}
       \<and> (\<exists>d. wv_dispatched wv' = wv_dispatched wv @ d \<and> map fst d = map snd new)"
proof (induction as arbitrary: wv)
  case (Cons a as)
  then obtain wv1 where s: "wave_step E anc inc a wv = Inr wv1" "wave_loop E anc inc as wv1 = Inr wv'"
    by (auto simp: rbind_eq_Inr)
  obtain new d where IH: "wo_sent (wv_world wv') = wo_sent (wv_world wv1) @ new" "wv_failed wv1 = []"
      "distinct (map fst new)" "PStr ` fst ` set new \<inter> set (wv_busy wv1) = {}"
      "wv_dispatched wv' = wv_dispatched wv1 @ d" "map fst d = map snd new"
    using Cons.IH [OF s(2)] Cons.prems by auto
  show ?case
    using s(1)
  proof (cases rule: wave_step_cases)
    case (sent w m)
    obtain g where g: "dget a ''agent_id'' = PStr g" using Cons.prems(3) by (cases "dget a ''agent_id''") auto
    then have ag: "approval_agent a = g" by (auto simp: dget_or_def split: option.splits)
    have "wo_sent (wv_world wv') = wo_sent (wv_world wv) @ (g, approval_id a) # new"
      using dispatch_sends [OF sent(2)] IH(1) sent(1) ag by auto
    moreover have "g \<notin> set (map fst new)" using IH(4) sent(1) g by auto
    ultimately show ?thesis
      using IH sent g
      by (intro exI [of _ "(g, approval_id a) # new"] conjI exI [of _ "(approval_id a, m) # d"]) auto
  next
    case (failed w)
    then show ?thesis using IH(2) by simp
  qed (use IH in auto)
qed auto

text \<open>
  What must hold of an approval whose prompt a wave sends: it is an approved one of the plan; no
  approval of the plan that is incomplete has a step among the ancestors of its step; its agent has no
  dispatched step without a reply in any plan; the agent is configured, and the pane shows no dialog.
\<close>

definition dispatchable :: "dispatch_env \<Rightarrow> pstr \<Rightarrow> pyval \<Rightarrow> pyval \<Rightarrow> bool" where
  "dispatchable E plan_id state a \<longleftrightarrow>
     (\<exists>replies items steps busy n.
        ledger_items state ''replies'' = Inr replies \<and> ledger_items state ''approvals'' = Inr items
        \<and> plan_body_steps state plan_id = Inr steps \<and> busy_agents state = Inr busy
        \<and> a \<in> set (plan_approvals items plan_id) \<and> py_eq (dget a ''status'') (PS ''approved'')
        \<and> py_int_or_0 (dget a ''step'') = Inr n
        \<and> (\<forall>b\<in>set (plan_approvals items plan_id). step_is_incomplete (replied_messages replies) b \<longrightarrow>
             (\<exists>k. py_int_or_0 (dget b ''step'') = Inr k \<and> k \<notin> set (ancestors_for (derive_step_ancestors steps) n)))
        \<and> py_key (dget a ''agent_id'') \<notin> set busy
        \<and> pane_ready E (approval_agent a))"

definition approved_ids :: "pyval \<Rightarrow> pstr \<Rightarrow> pstr multiset" where
  "approved_ids state plan_id =
     mset (map approval_id (filter (\<lambda>a. py_eq (dget a ''status'') (PS ''approved''))
       (plan_approvals (list_items (dget_or state ''approvals'' (PList []))) plan_id)))"

lemma dispatch_pass_Inr:
  assumes "dispatch_pass E plan_id w = Inr wv"
  obtains replies items incomplete steps busy wv0 where
    "ledger_items (wo_state w) ''replies'' = Inr replies" "ledger_items (wo_state w) ''approvals'' = Inr items"
    "rmap (\<lambda>item. py_int_or_0 (dget item ''step''))
       (filter (step_is_incomplete (replied_messages replies)) (plan_approvals items plan_id)) = Inr incomplete"
    "plan_body_steps (wo_state w) plan_id = Inr steps" "busy_agents (wo_state w) = Inr busy"
    "wave_loop E (derive_step_ancestors steps) incomplete
       (filter (\<lambda>a. py_eq (dget a ''status'') (PS ''approved'')) (plan_approvals items plan_id)) wv0 = Inr wv"
    "wv_world wv0 = w" "wv_busy wv0 = busy" "wv_dispatched wv0 = []" "accounted wv0 = {#}"
  using assms unfolding dispatch_pass_def Let_def rbind_eq_Inr
  by (elim exE conjE) (rule that, assumption+, simp_all add: accounted_def)

lemma incomplete_has_step:
  assumes "rmap (\<lambda>item. py_int_or_0 (dget item ''step'')) (filter P xs) = Inr ns" and "b \<in> set xs" and "P b"
  shows "\<exists>k\<in>set ns. py_int_or_0 (dget b ''step'') = Inr k"
proof -
  obtain i where "i < length (filter P xs)" "filter P xs ! i = b"
    using assms(2,3) in_set_conv_nth [of b "filter P xs"] by auto
  then show ?thesis using rmap_eq_Inr [OF assms(1)] by (metis nth_mem)
qed

lemma ledger_list: "ledger_items state k = Inr xs \<Longrightarrow> is_list (dget_or state k (PList [])) \<Longrightarrow> xs = list_items (dget_or state k (PList []))"
  by (cases "dget_or state k (PList [])") (auto simp: ledger_items_def py_iter_def)


text \<open>
  C38: One pane, one task. In a wave in which no dispatch fails, the prompts sent are those reported as
  dispatched, in order; their agents are pairwise different; and none of them had a dispatched step
  without a reply when the wave began. (Agents are named by strings in the ledger.)
\<close>
theorem wave_one_task_per_agent:
  assumes "dispatch_pass E plan_id w = Inr wv" and "wv_failed wv = []"
    and "\<And>items a. ledger_items (wo_state w) ''approvals'' = Inr items \<Longrightarrow> a \<in> set items \<Longrightarrow> is_str (dget a ''agent_id'')"
  shows "\<exists>new busy. wo_sent (wv_world wv) = wo_sent w @ new \<and> map snd new = map fst (wv_dispatched wv)
     \<and> distinct (map fst new) \<and> busy_agents (wo_state w) = Inr busy \<and> PStr ` fst ` set new \<inter> set busy = {}"
proof -
  obtain items incomplete steps busy wv0 where d:
    "ledger_items (wo_state w) ''approvals'' = Inr items" "busy_agents (wo_state w) = Inr busy"
    "wave_loop E (derive_step_ancestors steps) incomplete
       (filter (\<lambda>a. py_eq (dget a ''status'') (PS ''approved'')) (plan_approvals items plan_id)) wv0 = Inr wv"
    "wv_world wv0 = w" "wv_busy wv0 = busy" "wv_dispatched wv0 = []"
    using dispatch_pass_Inr [OF assms(1)] by metis
  have "\<forall>a\<in>set (filter (\<lambda>a. py_eq (dget a ''status'') (PS ''approved'')) (plan_approvals items plan_id)). is_str (dget a ''agent_id'')"
    using assms(3) [OF d(1)] by (auto simp: plan_approvals_def)
  from wave_loop_distinct [OF d(3) assms(2) this] show ?thesis using d(2,4-6) by auto
qed

section \<open>An exception after the send\<close>

lemma ledger_dput [simp]: "k' \<noteq> k \<Longrightarrow> dget_or (dput k v d) k' dflt = dget_or d k' dflt"
  by simp

lemma append_record_Inr:
  "append_record k v state = Inr state' \<longleftrightarrow>
     (\<exists>xs. dget_or state k (PList []) = PList xs \<and> state' = dput k (PList (xs @ [v])) state)"
  by (auto simp: append_record_def split: pyval.splits)

lemma append_inbox_Inr:
  assumes "append_inbox to_agent item state = Inr state'"
  shows "\<exists>inbox' items. state' = dput ''inbox'' (PDict inbox') state \<and> map_of inbox' to_agent = Some (PList items)"
  using assms by (auto simp: append_inbox_def split: pyval.splits option.splits)

lemma create_dispatch_records_Inr:
  assumes "create_dispatch_records E i g task pane state = Inr state'"
  shows "dget_or state' ''approvals'' dflt = dget_or state ''approvals'' dflt"
    and "dget_or state' ''agents'' dflt = dget_or state ''agents'' dflt"
    and "\<exists>state''. create_dispatch_records E' i g task pane state' = Inr state''"
proof -
  obtain m a j xm xa xj inbox items where s:
    "state' = dput ''inbox'' (PDict inbox) (dput ''jobs'' (PList (xj @ [j])) (dput ''attempts'' (PList (xa @ [a])) (dput ''messages'' (PList (xm @ [m])) state)))"
    "map_of inbox g = Some (PList items)"
    using assms unfolding create_dispatch_records_def Let_def rbind_eq_Inr append_record_Inr
    by (auto dest!: append_inbox_Inr)
  show "dget_or state' ''approvals'' dflt = dget_or state ''approvals'' dflt"
    "dget_or state' ''agents'' dflt = dget_or state ''agents'' dflt"
    by (simp_all add: s(1))
  show "\<exists>state''. create_dispatch_records E' i g task pane state' = Inr state''"
    by (simp add: s create_dispatch_records_def append_record_def append_inbox_def Let_def)
qed

lemma dispatch_guards_cong:
  assumes "dget_or state' ''agents'' (PDict []) = dget_or state ''agents'' (PDict [])"
    and "de_agents E' = de_agents E" and "de_pane E' = de_pane E"
  shows "dispatch_guards E' a state' = dispatch_guards E a state"
  unfolding dispatch_guards_def agent_binding_def assms ..

text \<open>
  C39: A dispatch that is cut off between the send and mark_approval_dispatched (say, the ledger cannot
  be written) is reported as failed although its prompt was sent. The approval is still "approved"
  and its agent is not marked busy, so the next dispatch of it passes every guard and sends the same
  prompt to the same pane again.
\<close>
theorem interrupted_send_repeats:
  assumes "dispatch_guards E a (wo_state w) = Some (g, pane)"
    and "create_dispatch_records E i g (py_str (dget_or a ''task'' (PS ''''))) pane (wo_state w) = Inr state1"
    and "de_fault E i = After_send"
  shows "\<exists>w1. dispatch_approved_approval E a i w = (w1, None)
     \<and> ledger_items (wo_state w1) ''approvals'' = ledger_items (wo_state w) ''approvals''
     \<and> wo_sent (fst (dispatch_approved_approval (E\<lparr>de_fault := \<lambda>_. No_fault\<rparr>) a i w1)) = wo_sent w @ [(g, i), (g, i)]"
proof -
  let ?w1 = "\<lparr>wo_state = state1, wo_sent = wo_sent w @ [(g, i)]\<rparr>"
  let ?E = "E\<lparr>de_fault := \<lambda>_. No_fault\<rparr>"
  have 1: "dispatch_approved_approval E a i w = (?w1, None)"
    using assms by (simp add: dispatch_approved_approval_def Let_def)
  note keep = create_dispatch_records_Inr [OF assms(2)]
  have guards: "dispatch_guards ?E a state1 = Some (g, pane)"
    using dispatch_guards_cong [of state1 "wo_state w" ?E E a] keep(2) assms(1) by simp
  obtain state2 where "create_dispatch_records ?E i g (py_str (dget_or a ''task'' (PS ''''))) pane state1 = Inr state2"
    using keep(3) by blast
  then have "wo_sent (fst (dispatch_approved_approval ?E a i ?w1)) = wo_sent w @ [(g, i), (g, i)]"
    using guards by (auto simp: dispatch_approved_approval_def Let_def split: sum.split)
  then show ?thesis using 1 keep(1) by (intro exI [of _ ?w1]) (simp add: ledger_items_def)
qed

section \<open>A sample wave\<close>

definition sample_approval :: pyval where
  "sample_approval = pdict
     [(''approval_id'', PS ''x''), (''plan_id'', PS ''p''), (''step'', PInt 1), (''agent_id'', PS ''a''), (''status'', PS ''approved'')]"

definition sample_ledger :: pyval where
  "sample_ledger = pdict
     [(''plans'', PList [pdict [(''plan_id'', PS ''p''), (''plan'', pdict [(''steps'', PList [])])]]),
      (''approvals'', PList [sample_approval]),
      (''agents'', PDict [(u ''a'', pdict [(''pane_id'', PS ''1''), (''status'', PS ''running'')])])]"

definition sample_env :: dispatch_env where
  "sample_env = \<lparr>de_now = u ''now'', de_agents = [(u ''a'', u ''tmux'')], de_pane = (\<lambda>_. None), de_message_id = (\<lambda>i. u ''m'' @ i),
     de_attempt_id = (\<lambda>i. u ''t'' @ i), de_job_id = (\<lambda>i. u ''j'' @ i), de_inbox_id = (\<lambda>i. u ''b'' @ i), de_prompt = (\<lambda>_. []),
     de_worktree = (\<lambda>_. PNone), de_skills = (\<lambda>_. PNone), de_fault = (\<lambda>_. No_fault)\<rparr>"

definition sample_world :: world where
  "sample_world = \<lparr>wo_state = sample_ledger, wo_sent = []\<rparr>"

lemma sample_items:
  "ledger_items sample_ledger ''replies'' = Inr []"
  "ledger_items sample_ledger ''approvals'' = Inr [sample_approval]"
  "ledger_items sample_ledger ''messages'' = Inr []"
  "ledger_items sample_ledger ''plans'' = Inr [pdict [(''plan_id'', PS ''p''), (''plan'', pdict [(''steps'', PList [])])]]"
  by (simp_all add: ledger_items_def py_iter_def sample_ledger_def)

lemma sample_binding: "agent_binding sample_ledger (u ''a'') = Inr (pdict [(''pane_id'', PS ''1''), (''status'', PS ''running'')])"
  by (simp add: agent_binding_def sample_ledger_def)

lemma sample_status: "plan_status_steps sample_ledger (u ''p'') = Inr []"
  by (simp add: plan_status_steps_def sample_items Let_def having_def sample_approval_def index_by_def)

lemma sample_busy: "busy_agents sample_ledger = Inr []"
  by (simp add: busy_agents_def sample_items sample_status)

lemma sample_guards: "dispatch_guards sample_env sample_approval sample_ledger = Some (u ''a'', u ''1'')"
  by (simp add: dispatch_guards_def sample_env_def sample_approval_def sample_binding classify_pane_receptive_def
      receptive_blocker_message_def transport_dispatch_blocker_def)

lemma sample_records:
  "\<exists>state1. create_dispatch_records E (u ''x'') (u ''a'') [] (u ''1'') sample_ledger = Inr state1
     \<and> ledger_items state1 ''approvals'' = Inr [sample_approval]"
  by (simp add: create_dispatch_records_def append_record_def append_inbox_def Let_def sample_ledger_def ledger_items_def py_iter_def)

lemma sample_dispatch:
  "\<exists>w. dispatch_approved_approval sample_env sample_approval (u ''x'') sample_world = (w, Some (u ''mx''))"
proof -
  obtain state1 where 1: "create_dispatch_records sample_env (u ''x'') (u ''a'') [] (u ''1'') sample_ledger = Inr state1"
    "ledger_items state1 ''approvals'' = Inr [sample_approval]"
    using sample_records by blast
  have task: "py_str (dget_or sample_approval ''task'' (PS '''')) = []" by (simp add: sample_approval_def)
  have fault: "de_fault sample_env i = No_fault" "de_message_id sample_env (u ''x'') = u ''mx''" for i
    by (simp_all add: sample_env_def u_def)
  have "\<exists>state2. mark_approval_dispatched n (u ''x'') m t j state1 = Inr state2" for n m t j
    using 1(2) by (simp add: mark_approval_dispatched_def update_approval_def sample_approval_def)
  then obtain state2 where "mark_approval_dispatched (de_now sample_env) (u ''x'') (u ''mx'')
      (de_attempt_id sample_env (u ''x'')) (de_job_id sample_env (u ''x'')) state1 = Inr state2" by blast
  then show ?thesis
    using 1(1) sample_guards task fault by (simp add: dispatch_approved_approval_def sample_world_def Let_def)
qed

lemma truthy_pdict_Cons: "truthy (pdict (x # xs))"
  by (simp add: pdict_def)

lemma sample_pass:
  "\<exists>wv. dispatch_pass sample_env (u ''p'') sample_world = Inr wv \<and> wv_failed wv = [] \<and> wv_dispatched wv = [(u ''x'', u ''mx'')]"
proof -
  obtain w where w: "dispatch_approved_approval sample_env sample_approval (u ''x'') sample_world = (w, Some (u ''mx''))"
    using sample_dispatch by blast
  have p: "plan_approvals [sample_approval] (u ''p'') = [sample_approval]"
    by (simp add: plan_approvals_def sample_approval_def)
  have f: "dget sample_approval ''step'' = PInt 1" "dget sample_approval ''status'' = PS ''approved''"
    "dget sample_approval ''agent_id'' = PS ''a''" "dget_or sample_approval ''approval_id'' (PStr []) = PS ''x''"
    "dget_or sample_approval ''agent_id'' (PS '''') = PS ''a''"
    by (simp_all add: sample_approval_def)
  have b: "preview_blocker sample_env sample_approval sample_ledger = Inr None"
    unfolding preview_blocker_def Let_def f by (simp add: sample_binding sample_env_def truthy_pdict_Cons)
  have anc: "ancestors_for (derive_step_ancestors []) 1 = []"
    by (simp add: ancestors_for_def derive_step_ancestors_def derive_step_dependencies_def group_members_def)
  show ?thesis
    unfolding dispatch_pass_def Let_def
    by (simp add: sample_world_def sample_items plan_body_steps_def sample_status sample_busy p f wave_step_def Let_def anc
        in_value_set_def b w [unfolded sample_world_def] replied_messages_def step_is_incomplete_def)
qed


theorem wave_one_task_per_agent_witness:
  "\<exists>wv new. dispatch_pass sample_env (u ''p'') sample_world = Inr wv \<and> wo_sent (wv_world wv) = [] @ new
     \<and> map snd new = [u ''x''] \<and> distinct (map fst new)"
proof -
  obtain wv where wv: "dispatch_pass sample_env (u ''p'') sample_world = Inr wv" "wv_failed wv = []" "wv_dispatched wv = [(u ''x'', u ''mx'')]"
    using sample_pass by blast
  have "is_str (dget a ''agent_id'')"
    if "ledger_items (wo_state sample_world) ''approvals'' = Inr items" "a \<in> set items" for items a
    using that by (auto simp: sample_world_def sample_items sample_approval_def)
  from wave_one_task_per_agent [OF wv(1,2) this] show ?thesis
    using wv(1,3) by (auto simp: sample_world_def)
qed

theorem interrupted_send_repeats_witness:
  "\<exists>w1. wo_sent (fst (dispatch_approved_approval sample_env sample_approval (u ''x'') w1)) = [(u ''a'', u ''x''), (u ''a'', u ''x'')]"
proof -
  let ?E = "sample_env\<lparr>de_fault := \<lambda>_. After_send\<rparr>"
  have g: "dispatch_guards ?E sample_approval (wo_state sample_world) = Some (u ''a'', u ''1'')"
    using dispatch_guards_cong [of sample_ledger sample_ledger ?E sample_env] sample_guards
    by (simp add: sample_world_def)
  obtain state1 where "create_dispatch_records ?E (u ''x'') (u ''a'') (py_str (dget_or sample_approval ''task'' (PS ''''))) (u ''1'') (wo_state sample_world) = Inr state1"
    using sample_records [of ?E] by (auto simp: sample_world_def sample_approval_def)
  from interrupted_send_repeats [OF g this] show ?thesis
    by (auto simp: sample_env_def sample_world_def)
qed

section \<open>The policy of a whole wave\<close>

lemma select_loop_Inr:
  "select_loop allowed m sel skip pending = Inr (sel', skip') \<Longrightarrow> int (length sel) \<le> max 0 m \<Longrightarrow>
     int (length sel') \<le> max 0 m
     \<and> (\<exists>new. sel' = sel @ new \<and> subseq new pending \<and> (\<forall>a\<in>set new. \<exists>g\<in>set allowed. dget a ''agent_id'' = PStr g))
     \<and> length sel' + length skip' = length sel + length skip + length (filter is_dict pending)"
proof (induction pending arbitrary: sel skip)
  case (Cons a pending)
  show ?case
  proof (cases "is_dict a")
    case False
    then show ?thesis using Cons.IH [of sel skip] Cons.prems by auto
  next
    case True
    obtain known where k: "in_value_set (dget a ''agent_id'') (map PStr allowed) = Inr known"
      using Cons.prems True by (auto simp: rbind_eq_Inr)
    show ?thesis
    proof (cases "known \<and> \<not> int (length sel) \<ge> m")
      case False
      then obtain r where "select_loop allowed m sel (skip @ [dput ''reason'' (PS r) a]) pending = Inr (sel', skip')"
        using Cons.prems(1) True k by (cases known) auto
      then show ?thesis using Cons.IH [of sel "skip @ [dput ''reason'' (PS r) a]"] Cons.prems(2) True by auto
    next
      case yes: True
      have "py_key (dget a ''agent_id'') \<in> PStr ` set allowed"
        using k yes by (auto simp: in_value_set_def split: if_splits)
      then have g: "\<exists>g\<in>set allowed. dget a ''agent_id'' = PStr g"
        by (cases "dget a ''agent_id''") auto
      have "int (length (sel @ [a])) \<le> max 0 m" using yes by simp
      then obtain new where "int (length sel') \<le> max 0 m" "sel' = (sel @ [a]) @ new" "subseq new pending"
          "\<forall>a\<in>set new. \<exists>g\<in>set allowed. dget a ''agent_id'' = PStr g"
          "length sel' + length skip' = length (sel @ [a]) + length skip + length (filter is_dict pending)"
        using Cons.IH [of "sel @ [a]" skip] Cons.prems(1) True k yes by auto
      then show ?thesis using g True by (auto intro!: exI [of _ "a # new"])
    qed
  qed
qed simp

lemma run_loop_gate_error: "fst (run_loop_gate review has_error plan_id) = ''error'' \<longleftrightarrow> has_error"
  by (simp add: run_loop_gate_def Let_def)

lemma run_loop_gate_reasons:
  "fst (run_loop_gate review has_error plan_id) \<in> {''error'', ''blocked'', ''needs_human_approval'', ''waiting_for_reply'', ''complete'', ''idle''}"
  by (simp add: run_loop_gate_def Let_def)


definition quiet_ledger :: pyval where
  "quiet_ledger = pdict [(''plans'', PList [pdict [(''plan_id'', PS ''p''), (''plan'', pdict [(''steps'', PList [])])]])]"

lemma quiet_items:
  "ledger_items quiet_ledger ''replies'' = Inr []" "ledger_items quiet_ledger ''approvals'' = Inr []"
  "ledger_items quiet_ledger ''messages'' = Inr []"
  "ledger_items quiet_ledger ''plans'' = Inr [pdict [(''plan_id'', PS ''p''), (''plan'', pdict [(''steps'', PList [])])]]"
  by (simp_all add: ledger_items_def py_iter_def quiet_ledger_def)

lemma quiet_status: "plan_status_steps quiet_ledger (u ''p'') = Inr []"
  by (simp add: plan_status_steps_def quiet_items Let_def having_def index_by_def)

lemma quiet_wave:
  "\<exists>r. run_loop_single_wave sample_env \<lparr>rp_allowed_agents = [u ''a''], rp_max_approvals = 1, rp_max_review_rounds = 0\<rparr>
     (\<lambda>_. []) PNone (\<lambda>s. s) (u ''p'') \<lparr>wo_state = quiet_ledger, wo_sent = []\<rparr> = Inr r \<and> wr_stopped_reason r = ''needs_human_approval''"
proof -
  have pass: "dispatch_pass sample_env (u ''p'') \<lparr>wo_state = quiet_ledger, wo_sent = []\<rparr>
    = Inr \<lparr>wv_world = \<lparr>wo_state = quiet_ledger, wo_sent = []\<rparr>, wv_busy = [], wv_dispatched = [], wv_blocked = [],
        wv_sequence_held = [], wv_contention_held = [], wv_failed = []\<rparr>"
    by (simp add: dispatch_pass_def quiet_items plan_body_steps_def quiet_status busy_agents_def plan_approvals_def)
  have review: "leader_review_core quiet_ledger (u ''p'') = Inr (review_of ''wait_for_approval'' [])"
    by (simp add: leader_review_core_def quiet_status quiet_items index_by_def dict_of_def)
  show ?thesis
    unfolding run_loop_single_wave_def Let_def
    by (simp add: quiet_items plan_approvals_def select_auto_approvals_def pass review run_loop_gate_def review_of_def)
qed


end
