(* ===== verification/Attempt_Ledger.thy ===== *)
theory Attempt_Ledger
  imports Scheduler Lease_Store Governance
begin

text \<open>
  Mission attempts in the state store (\<^verbatim>\<open>src/agentdeck/state.py\<close>): the durable attempt record, the
  history of admission claims that the event outbox and the event journal hold, and the operations that
  move an attempt through admission, submission and its end.

  Records are the dictionaries of the code. \<open>parse\<close> is \<^verbatim>\<open>datetime.fromisoformat\<close> (\<open>None\<close> for a
  string that is not an aware time) and \<open>isof\<close> writes an instant; identifiers drawn by \<^verbatim>\<open>new_id\<close>
  are arguments.

  The lemmas show that the history validator refines an automaton per attempt, in which a claim can be
  taken only when none is open, and that along every run of the operations an attempt that may have
  reached its Worker never becomes claimable again.
\<close>

section \<open>The attempt record\<close>

definition DISPATCH_KEY :: "pstr \<Rightarrow> bool" where
  "DISPATCH_KEY s \<longleftrightarrow> length s = 36 \<and> take 4 s = u ''dsp_'' \<and> list_all is_hex (drop 4 s)"

definition CLAIM_ID :: "pstr \<Rightarrow> bool" where
  "CLAIM_ID s \<longleftrightarrow> length s = 16 \<and> take 4 s = u ''adm_'' \<and> list_all is_hex (drop 4 s)"

definition SNAPSHOT_HASH :: "pstr \<Rightarrow> bool" where
  "SNAPSHOT_HASH s \<longleftrightarrow> take 7 s = u ''sha256:'' \<and> SHA256 (drop 7 s)"

text \<open>\<^verbatim>\<open>type(v) is str and re.fullmatch(P, v)\<close>, and \<^verbatim>\<open>v in {...}\<close> over strings, which raises on a list or dict.\<close>

fun str_matches :: "(pstr \<Rightarrow> bool) \<Rightarrow> pyval \<Rightarrow> bool" where
  "str_matches P (PStr s) = P s"
| "str_matches P _ = False"

definition in_names :: "pyval \<Rightarrow> string list \<Rightarrow> py_exn + bool" where
  "in_names v names = (if py_hashable v then Inr (v \<in> set (map PS names)) else Inl TypeError)"

definition MISSION_ATTEMPT_FIELDS :: "pstr set" where
  "MISSION_ATTEMPT_FIELDS = u ` {''attempt_id'', ''mission_id'', ''step_id'', ''agent_id'', ''configured_transport'',
     ''dispatch_key'', ''admission_claim_id'', ''snapshot_hash'', ''state'', ''created_at'', ''updated_at'',
     ''receipt_summary'', ''blocker'', ''terminal_reason''}"

definition SEMANTIC_MISSION_ATTEMPT_FIELDS :: "pstr set" where
  "SEMANTIC_MISSION_ATTEMPT_FIELDS = MISSION_ATTEMPT_FIELDS \<union> {u ''semantic_step_hash''}"

definition MISSION_ATTEMPT_STATES :: "string list" where
  "MISSION_ATTEMPT_STATES = [''prepared'', ''admitting'', ''submitted'', ''running'', ''completed'', ''succeeded'',
     ''failed'', ''cancelled'', ''interrupted'', ''ambiguous'']"

definition MISSION_ATTEMPT_ACTIVE_STATES :: "string list" where
  "MISSION_ATTEMPT_ACTIVE_STATES = [''prepared'', ''admitting'', ''submitted'', ''running'']"

fun aware_time :: "(pstr \<Rightarrow> int option) \<Rightarrow> pyval \<Rightarrow> int option" where
  "aware_time parse (PStr s) = parse s"
| "aware_time parse _ = None"

definition pre_dispatch_stopped :: "pyval \<Rightarrow> bool" where
  "pre_dispatch_stopped v \<longleftrightarrow> dget v ''state'' \<in> {PS ''cancelled'', PS ''interrupted''}
     \<and> dget v ''admission_claim_id'' = PNone \<and> dget v ''receipt_summary'' = PNone"

text \<open>The part of the checks that relates the state of an attempt to its times, claim and receipt.\<close>

definition attempt_state_consistent :: "int \<Rightarrow> int \<Rightarrow> pyval \<Rightarrow> bool" where
  "attempt_state_consistent created updated v \<longleftrightarrow>
     (let state = dget v ''state''; claim = dget v ''admission_claim_id'' in
      created \<le> updated
      \<and> (state = PS ''prepared'' \<longrightarrow> updated = created \<and> claim = PNone)
      \<and> (state \<noteq> PS ''prepared'' \<and> \<not> pre_dispatch_stopped v \<longrightarrow> claim \<noteq> PNone)
      \<and> list_all (\<lambda>k. dget v k = PNone \<or> str_matches (\<lambda>s. s \<noteq> []) (dget v k)) [''receipt_summary'', ''blocker'', ''terminal_reason'']
      \<and> (state \<notin> {PS ''prepared'', PS ''admitting''} \<and> dget v ''receipt_summary'' = PNone \<longrightarrow> pre_dispatch_stopped v))"

definition validate_mission_attempt_record :: "(pstr \<Rightarrow> int option) \<Rightarrow> pyval \<Rightarrow> py_exn + pyval" where
  "validate_mission_attempt_record parse v =
     (let bad = ValueError ''mission attempt state invalid''; claim = dget v ''admission_claim_id'' in
      rfail_if (\<not> is_dict v \<or> dkeys v \<notin> {MISSION_ATTEMPT_FIELDS, SEMANTIC_MISSION_ATTEMPT_FIELDS}) bad
      (rfail_if (\<not> str_matches ATTEMPT_ID (dget v ''attempt_id'') \<or> \<not> str_matches MISSION_ID (dget v ''mission_id'')
          \<or> \<not> str_matches STEP_ID (dget v ''step_id'') \<or> \<not> str_matches (\<lambda>s. s \<noteq> []) (dget v ''agent_id'')) bad
      (rbind (in_names (dget v ''configured_transport'') [''acp'', ''tmux'']) (\<lambda>transport_known.
      rfail_if (\<not> transport_known \<or> \<not> str_matches DISPATCH_KEY (dget v ''dispatch_key'')
          \<or> claim \<noteq> PNone \<and> \<not> str_matches CLAIM_ID claim
          \<or> \<not> str_matches SNAPSHOT_HASH (dget v ''snapshot_hash'')) bad
      (rbind (in_names (dget v ''state'') MISSION_ATTEMPT_STATES) (\<lambda>state_known.
      rfail_if (\<not> state_known
          \<or> dhas v ''semantic_step_hash'' \<and> \<not> str_matches SNAPSHOT_HASH (dget v ''semantic_step_hash'')) bad
      (case (aware_time parse (dget v ''created_at''), aware_time parse (dget v ''updated_at'')) of
         (Some created, Some updated) \<Rightarrow>
           rfail_if (\<not> attempt_state_consistent created updated v) bad (Inr v)
       | _ \<Rightarrow> Inl bad)))))))"

definition is_active_attempt :: "pyval \<Rightarrow> bool" where
  "is_active_attempt v \<longleftrightarrow> dget v ''state'' \<in> set (map PS MISSION_ATTEMPT_ACTIVE_STATES)"

definition require_unique_mission_attempt_lineage :: "pyval list \<Rightarrow> py_exn + unit" where
  "require_unique_mission_attempt_lineage attempts =
     (let active_missions = map (\<lambda>a. dget a ''mission_id'') (filter is_active_attempt attempts) in
      rfail_if (\<not> distinct (map (\<lambda>a. dget a ''attempt_id'') attempts)) (ValueError ''duplicate mission attempt identity'')
      (rfail_if (\<not> distinct (map (\<lambda>a. dget a ''dispatch_key'') attempts)) (ValueError ''duplicate mission attempt dispatch key'')
      (rfail_if (\<not> distinct (filter (\<lambda>c. c \<noteq> PNone) (map (\<lambda>a. dget a ''admission_claim_id'') attempts)))
         (ValueError ''duplicate mission admission claim identity'')
      (rfail_if (list_ex (\<lambda>m. count_list active_missions m > 1) active_missions) (ValueError ''multiple active Mission attempts'')
      (Inr ())))))"

section \<open>The history of admission claims\<close>

type_synonym lineage = "pstr \<times> pstr"

datatype claim_stage = Claimed | Released | Stage_submitted | Stage_ambiguous

datatype claim_kind = Ev_claimed | Ev_released | Ev_submitted | Ev_ambiguous

record claim_book =
  cb_lineage :: "pstr \<rightharpoonup> lineage"
  cb_stages :: "pstr \<rightharpoonup> claim_stage"
  cb_claims :: "lineage \<Rightarrow> pstr list"
  cb_closed :: "lineage set"
  cb_stops :: "lineage \<rightharpoonup> pstr"

definition empty_book :: claim_book where
  "empty_book = \<lparr>cb_lineage = Map.empty, cb_stages = Map.empty, cb_claims = (\<lambda>_. []), cb_closed = {}, cb_stops = Map.empty\<rparr>"

definition history_invalid :: py_exn where
  "history_invalid = ValueError ''mission admission claim history is invalid''"

definition ACP_COMPLETION_STAGES :: "string list" where
  "ACP_COMPLETION_STAGES = [''prompt'', ''update'', ''parse'', ''finish'', ''cleanup'']"

definition acp_completion_ambiguity_reason :: "pyval \<Rightarrow> py_exn + string" where
  "acp_completion_ambiguity_reason stage =
     (case find (\<lambda>s. stage = PS s) ACP_COMPLETION_STAGES of
        None \<Rightarrow> Inl (ValueError ''ACP completion stage is invalid'')
      | Some s \<Rightarrow> Inr (''acp_completion_'' @ s @ ''_outcome_unknown''))"

definition is_acp_completion_ambiguity_reason :: "pyval \<Rightarrow> bool" where
  "is_acp_completion_ambiguity_reason reason \<longleftrightarrow>
     reason \<in> set (map (\<lambda>s. PS (''acp_completion_'' @ s @ ''_outcome_unknown'')) ACP_COMPLETION_STAGES)"

fun claim_kind_of :: "pstr \<Rightarrow> claim_kind option" where
  "claim_kind_of event_type =
     map_of [(u ''mission_attempt_admission_claimed'', Ev_claimed), (u ''mission_attempt_admission_released'', Ev_released),
       (u ''mission_attempt_submitted'', Ev_submitted), (u ''mission_attempt_ambiguous'', Ev_ambiguous)] event_type"

fun MISSION_CLAIM_EVENT_FIELDS :: "claim_kind \<Rightarrow> pstr set" where
  "MISSION_CLAIM_EVENT_FIELDS kind =
     u ` ({''attempt_id'', ''mission_id'', ''step_id'', ''dispatch_key'', ''admission_claim_id''}
       \<union> (if kind \<in> {Ev_submitted, Ev_ambiguous} then {''reason''} else {})
       \<union> (if kind = Ev_ambiguous then {''expected_dispatch_key'', ''observed_dispatch_key''} else {}))"

declare claim_kind_of.simps [simp del] MISSION_CLAIM_EVENT_FIELDS.simps [simp del]

definition PRE_DISPATCH_STOP_EVENT_FIELDS :: "pstr set" where
  "PRE_DISPATCH_STOP_EVENT_FIELDS = u ` {''attempt_id'', ''mission_id'', ''step_id'', ''dispatch_key'', ''state'', ''reason''}"

text \<open>\<^verbatim>\<open>attempt_by_lineage\<close>: a later attempt with the same key replaces an earlier one.\<close>

definition attempt_key :: "pyval \<Rightarrow> lineage" where
  "attempt_key a = (py_str (dget a ''attempt_id''), py_str (dget a ''dispatch_key''))"

definition attempt_by_lineage :: "pyval list \<Rightarrow> lineage \<rightharpoonup> pyval" where
  "attempt_by_lineage attempts = map_of (rev (map (\<lambda>a. (attempt_key a, a)) attempts))"

text \<open>\<^verbatim>\<open>prior_claims and stages.get(prior_claims[-1]) != "released"\<close>.\<close>

definition open_claim :: "claim_book \<Rightarrow> lineage \<Rightarrow> bool" where
  "open_claim b key \<longleftrightarrow> cb_claims b key \<noteq> [] \<and> cb_stages b (last (cb_claims b key)) \<noteq> Some Released"

definition stop_step :: "pyval list \<Rightarrow> pyval \<Rightarrow> claim_book \<Rightarrow> py_exn + claim_book" where
  "stop_step attempts payload b =
     (let a = dget payload ''attempt_id''; d = dget payload ''dispatch_key''; key = (py_str a, py_str d) in
      rfail_if (dkeys payload \<noteq> PRE_DISPATCH_STOP_EVENT_FIELDS) history_invalid
      (rfail_if (\<not> py_hashable a \<or> \<not> py_hashable d) TypeError
      (case (if is_str a \<and> is_str d then attempt_by_lineage attempts key else None) of
         None \<Rightarrow> Inl history_invalid
       | Some attempt \<Rightarrow>
           rfail_if (dget payload ''mission_id'' \<noteq> dget attempt ''mission_id''
             \<or> dget payload ''step_id'' \<noteq> dget attempt ''step_id'') history_invalid
           (rbind (in_names (dget payload ''state'') [''cancelled'', ''interrupted'']) (\<lambda>known.
           rfail_if (\<not> known \<or> \<not> str_matches (\<lambda>s. s \<noteq> []) (dget payload ''reason'')
             \<or> cb_stops b key \<noteq> None \<or> key \<in> cb_closed b \<or> open_claim b key) history_invalid
           (Inr (b\<lparr>cb_stops := (cb_stops b)(key \<mapsto> py_str (dget payload ''state''))\<rparr>)))))))"

definition ambiguity_evidence_ok :: "pyval \<Rightarrow> pstr \<Rightarrow> bool" where
  "ambiguity_evidence_ok payload dispatch_key \<longleftrightarrow>
     (let reason = dget payload ''reason''; observed = dget payload ''observed_dispatch_key'' in
      (reason \<in> {PS ''receipt_persistence_unknown'', PS ''force_daemon_stop_outcome_unknown''} \<longrightarrow> str_matches DISPATCH_KEY observed)
      \<and> (reason = PS ''admission_outcome_unknown'' \<longrightarrow> observed = PNone)
      \<and> (is_acp_completion_ambiguity_reason reason \<longrightarrow> observed = PStr dispatch_key)
      \<and> (reason \<in> {PS ''receipt_persistence_unknown'', PS ''admission_outcome_unknown'', PS ''force_daemon_stop_outcome_unknown''}
         \<or> is_acp_completion_ambiguity_reason reason)
      \<and> dget payload ''expected_dispatch_key'' = PStr dispatch_key)"

definition allowed_prior_stages :: "pyval \<Rightarrow> claim_stage list" where
  "allowed_prior_stages reason =
     (if reason = PS ''admission_outcome_unknown'' then [Claimed]
      else if is_acp_completion_ambiguity_reason reason then [Stage_submitted]
      else [Claimed, Stage_submitted])"

fun next_stage :: "claim_kind \<Rightarrow> pyval \<Rightarrow> lineage \<Rightarrow> pstr \<Rightarrow> claim_book \<Rightarrow> py_exn + claim_stage \<times> claim_book" where
  "next_stage Ev_claimed payload key claim_id b =
     rfail_if (cb_stages b claim_id \<noteq> None \<or> key \<in> cb_closed b \<or> open_claim b key) history_invalid
     (Inr (Claimed, b\<lparr>cb_claims := (cb_claims b)(key := cb_claims b key @ [claim_id])\<rparr>))"
| "next_stage Ev_released payload key claim_id b =
     rfail_if (cb_stages b claim_id \<noteq> Some Claimed) history_invalid (Inr (Released, b))"
| "next_stage Ev_submitted payload key claim_id b =
     rfail_if (cb_stages b claim_id \<noteq> Some Claimed \<or> dget payload ''reason'' \<noteq> PNone) history_invalid
     (Inr (Stage_submitted, b\<lparr>cb_closed := insert key (cb_closed b)\<rparr>))"
| "next_stage Ev_ambiguous payload key claim_id b =
     rfail_if (cb_stages b claim_id \<notin> Some ` set (allowed_prior_stages (dget payload ''reason''))) history_invalid
     (rfail_if (\<not> py_hashable (dget payload ''reason'')) TypeError
     (rfail_if (\<not> ambiguity_evidence_ok payload (snd key)) history_invalid
     (Inr (Stage_ambiguous, b\<lparr>cb_closed := insert key (cb_closed b)\<rparr>))))"

definition claim_step :: "pyval list \<Rightarrow> claim_kind \<Rightarrow> pyval \<Rightarrow> claim_book \<Rightarrow> py_exn + claim_book" where
  "claim_step attempts kind payload b =
     rfail_if (dkeys payload \<noteq> MISSION_CLAIM_EVENT_FIELDS kind) history_invalid
     (rfail_if (\<not> str_matches ATTEMPT_ID (dget payload ''attempt_id'') \<or> \<not> str_matches MISSION_ID (dget payload ''mission_id'')
        \<or> \<not> str_matches STEP_ID (dget payload ''step_id'') \<or> \<not> str_matches DISPATCH_KEY (dget payload ''dispatch_key'')
        \<or> \<not> str_matches CLAIM_ID (dget payload ''admission_claim_id'')) history_invalid
     (let key = attempt_key payload; claim_id = py_str (dget payload ''admission_claim_id'') in
      case attempt_by_lineage attempts key of
        None \<Rightarrow> Inl history_invalid
      | Some attempt \<Rightarrow>
          rfail_if (dget attempt ''mission_id'' \<noteq> dget payload ''mission_id''
            \<or> dget attempt ''step_id'' \<noteq> dget payload ''step_id'') history_invalid
          (rfail_if (cb_stops b key \<noteq> None) history_invalid
          (rfail_if (cb_lineage b claim_id \<notin> {None, Some key}) history_invalid
          (rbind (next_stage kind payload key claim_id b) (\<lambda>(stage, b').
          Inr (b'\<lparr>cb_lineage := (cb_lineage b')(claim_id \<mapsto> key), cb_stages := (cb_stages b')(claim_id \<mapsto> stage)\<rparr>)))))))"

definition history_step :: "pyval list \<Rightarrow> event_record \<Rightarrow> claim_book \<Rightarrow> py_exn + claim_book" where
  "history_step attempts r b =
     (case validate_daemon_event_record r of
        Inl _ \<Rightarrow> Inl history_invalid
      | Inr _ \<Rightarrow>
          (case r of
             Event_fields _ (PStr event_type) _ payload \<Rightarrow>
               if event_type = u ''mission_attempt_pre_dispatch_stopped'' then stop_step attempts payload b
               else (case claim_kind_of event_type of
                  None \<Rightarrow> Inr b
                | Some kind \<Rightarrow> claim_step attempts kind payload b)
           | _ \<Rightarrow> Inl history_invalid))"

fun history_loop :: "pyval list \<Rightarrow> event_record list \<Rightarrow> claim_book \<Rightarrow> py_exn + claim_book" where
  "history_loop attempts [] b = Inr b"
| "history_loop attempts (r # rs) b = rbind (history_step attempts r b) (history_loop attempts rs)"

text \<open>Whether an attempt record agrees with the history read so far.\<close>

definition expected_stage :: "pyval \<Rightarrow> claim_stage option" where
  "expected_stage state =
     (if state = PS ''admitting'' then Some Claimed else if state = PS ''ambiguous'' then Some Stage_ambiguous
      else if state \<noteq> PS ''prepared'' then Some Stage_submitted else None)"

definition attempt_agrees :: "claim_book \<Rightarrow> pyval \<Rightarrow> bool" where
  "attempt_agrees b attempt \<longleftrightarrow>
     (let key = attempt_key attempt; claim = dget attempt ''admission_claim_id''; state = dget attempt ''state'';
          claims = cb_claims b key in
      if claim = PNone \<and> state \<in> {PS ''cancelled'', PS ''interrupted''} then
        cb_stops b key = Some (py_str state) \<and> key \<notin> cb_closed b \<and> \<not> open_claim b key
      else if claim = PNone then
        state = PS ''prepared'' \<and> key \<notin> cb_closed b \<and> cb_stops b key = None \<and> \<not> open_claim b key
      else cb_lineage b (py_str claim) = Some key \<and> claims \<noteq> [] \<and> last claims = py_str claim
        \<and> (case expected_stage state of None \<Rightarrow> True | Some s \<Rightarrow> cb_stages b (py_str claim) = Some s))"

definition validate_mission_admission_claim_history :: "event_record list \<Rightarrow> pyval list \<Rightarrow> py_exn + claim_book" where
  "validate_mission_admission_claim_history records attempts =
     rbind (history_loop attempts records empty_book) (\<lambda>b.
     rfail_if (\<not> list_all (attempt_agrees b) attempts) history_invalid (Inr b))"

section \<open>Operations of the state store\<close>

text \<open>
  The parts of the durable state that the operations read and write: the attempts and the protocol event
  outbox of the state file (a missing list is the empty one; an outbox that is not a list is \<open>None\<close>)
  and the event journal. Each operation runs under the store's mutation lock and saves once, at its end.
\<close>

record ledger =
  lg_attempts :: pyval
  lg_outbox :: "event_record list option"
  lg_journal :: "event_record list"

definition validated_protocol_event_outbox_ids :: "event_record list option \<Rightarrow> py_exn + pstr list" where
  "validated_protocol_event_outbox_ids v =
     (case v of
        None \<Rightarrow> Inl (ValueError ''protocol event outbox is invalid'')
      | Some items \<Rightarrow>
          (case rmap validate_daemon_event_record items of
             Inl _ \<Rightarrow> Inl (ValueError ''protocol event outbox is invalid'')
           | Inr ids \<Rightarrow> rfail_if (\<not> distinct ids) (ValueError ''duplicate protocol event identity'') (Inr ids)))"

definition strict_protocol_journal_event_ids :: "event_record list \<Rightarrow> py_exn + pstr list" where
  "strict_protocol_journal_event_ids journal =
     (case rmap validate_daemon_event_record journal of
        Inl _ \<Rightarrow> Inl (ValueError ''protocol event journal is malformed'')
      | Inr ids \<Rightarrow> rfail_if (\<not> distinct ids) (ValueError ''duplicate protocol event identity'') (Inr ids))"

text \<open>What the canonical JSON of a whole record is compared by.\<close>

fun event_canonical :: "event_record \<Rightarrow> event_record" where
  "event_canonical (Event_fields i t c p) = Event_fields i t c (canon p)"
| "event_canonical Other_record = Other_record"

definition record_id :: "event_record \<Rightarrow> pstr" where
  "record_id r = (case r of Event_fields (PStr i) _ _ _ \<Rightarrow> i | _ \<Rightarrow> [])"

fun pending_records :: "event_record list \<Rightarrow> event_record list \<Rightarrow> py_exn + event_record list" where
  "pending_records journal [] = Inr []"
| "pending_records journal (r # rs) =
     (case find (\<lambda>j. record_id j = record_id r) journal of
        None \<Rightarrow> rbind (pending_records journal rs) (\<lambda>rest. Inr (r # rest))
      | Some durable \<Rightarrow>
          rfail_if (event_canonical durable \<noteq> event_canonical r) (ValueError ''protocol event replay conflict'')
          (pending_records journal rs))"

definition protocol_admission_claim_history ::
    "event_record list option \<Rightarrow> event_record list \<Rightarrow> pyval list \<Rightarrow> py_exn + claim_book" where
  "protocol_admission_claim_history outbox journal attempts =
     rbind (validated_protocol_event_outbox_ids outbox) (\<lambda>_.
     rbind (strict_protocol_journal_event_ids journal) (\<lambda>_.
     rbind (pending_records journal (case outbox of None \<Rightarrow> [] | Some items \<Rightarrow> items)) (\<lambda>pending.
     validate_mission_admission_claim_history (journal @ pending) attempts)))"

text \<open>The opening of an operation: the attempts, validated, and the claim history they agree with.\<close>

definition validated_attempts :: "(pstr \<Rightarrow> int option) \<Rightarrow> ledger \<Rightarrow> py_exn + pyval list" where
  "validated_attempts parse lg =
     rfail_if (\<not> is_list (lg_attempts lg)) (ValueError ''mission attempt state invalid'')
     (rmap (validate_mission_attempt_record parse) (list_items (lg_attempts lg)))"

definition open_ledger :: "(pstr \<Rightarrow> int option) \<Rightarrow> ledger \<Rightarrow> py_exn + pyval list \<times> claim_book" where
  "open_ledger parse lg =
     rbind (validated_attempts parse lg) (\<lambda>validated.
     rbind (require_unique_mission_attempt_lineage validated) (\<lambda>_.
     rbind (protocol_admission_claim_history (lg_outbox lg) (lg_journal lg) validated) (\<lambda>book.
     Inr (validated, book))))"

definition matching_attempt :: "pyval \<Rightarrow> pyval list \<Rightarrow> py_exn + pyval" where
  "matching_attempt attempt_id validated =
     (case filter (\<lambda>a. dget a ''attempt_id'' = attempt_id) validated of
        [] \<Rightarrow> Inl KeyError
      | [persisted] \<Rightarrow> Inr persisted
      | _ \<Rightarrow> Inl (ValueError ''duplicate mission attempt identity''))"

definition put_attempt :: "pyval \<Rightarrow> pyval \<Rightarrow> pyval list \<Rightarrow> pyval list" where
  "put_attempt attempt_id candidate validated =
     map (\<lambda>a. if dget a ''attempt_id'' = attempt_id then candidate else a) validated"

definition protocol_event :: "pstr \<Rightarrow> string \<Rightarrow> int \<Rightarrow> (string \<times> pyval) list \<Rightarrow> event_record" where
  "protocol_event fresh event_type now payload = Event_fields (PStr fresh) (PS event_type) (ISO now) (pdict payload)"

text \<open>Replacing the attempt and appending the event to the outbox, then one save.\<close>

definition save_attempt :: "pyval \<Rightarrow> pyval \<Rightarrow> event_record \<Rightarrow> ledger \<Rightarrow> ledger" where
  "save_attempt attempt_id candidate event lg =
     lg\<lparr>lg_attempts := PList (replace_first (\<lambda>item. is_dict item \<and> dget item ''attempt_id'' = attempt_id) candidate
          (list_items (lg_attempts lg))),
        lg_outbox := map_option (\<lambda>items. items @ [event]) (lg_outbox lg)\<rparr>"

definition unused_event :: "event_record \<Rightarrow> ledger \<Rightarrow> py_exn + unit" where
  "unused_event event lg =
     rbind (validated_protocol_event_outbox_ids (lg_outbox lg)) (\<lambda>outbox_ids.
     rbind (strict_protocol_journal_event_ids (lg_journal lg)) (\<lambda>journal_ids.
     (case validate_daemon_event_record event of
        Inl _ \<Rightarrow> Inl (ValueError ''protocol event record is invalid'')
      | Inr event_id \<Rightarrow>
          rfail_if (event_id \<in> set outbox_ids \<or> event_id \<in> set journal_ids) (ValueError ''duplicate protocol event identity'')
          (Inr ()))))"

definition close_ledger :: "pyval list \<Rightarrow> pyval \<Rightarrow> pyval \<Rightarrow> event_record \<Rightarrow> ledger \<Rightarrow> py_exn + ledger \<times> pyval" where
  "close_ledger validated attempt_id candidate event lg =
     rbind (protocol_admission_claim_history (map_option (\<lambda>items. items @ [event]) (lg_outbox lg)) (lg_journal lg)
       (put_attempt attempt_id candidate validated)) (\<lambda>_.
     Inr (save_attempt attempt_id candidate event lg, candidate))"

subsection \<open>Admission\<close>

datatype admission_target = To_admitting | To_prepared

fun target_name :: "admission_target \<Rightarrow> string" where
  "target_name To_admitting = ''admitting''"
| "target_name To_prepared = ''prepared''"

fun source_name :: "admission_target \<Rightarrow> string" where
  "source_name To_admitting = ''prepared''"
| "source_name To_prepared = ''admitting''"

fun admission_event :: "admission_target \<Rightarrow> string" where
  "admission_event To_admitting = ''mission_attempt_admission_claimed''"
| "admission_event To_prepared = ''mission_attempt_admission_released''"

definition claim_payload :: "pyval \<Rightarrow> pyval \<Rightarrow> pyval \<Rightarrow> pyval \<Rightarrow> (string \<times> pyval) list" where
  "claim_payload attempt_id dispatch_key candidate claim =
     [(''attempt_id'', attempt_id), (''mission_id'', dget candidate ''mission_id''),
      (''step_id'', dget candidate ''step_id''), (''dispatch_key'', dispatch_key), (''admission_claim_id'', claim)]"

definition transition_mission_attempt_admission ::
    "(pstr \<Rightarrow> int option) \<Rightarrow> (int \<Rightarrow> pstr) \<Rightarrow> pstr \<Rightarrow> pstr \<Rightarrow> int \<Rightarrow> pyval \<Rightarrow> pyval \<Rightarrow> admission_target \<Rightarrow> pyval
      \<Rightarrow> ledger \<Rightarrow> py_exn + ledger \<times> pyval" where
  "transition_mission_attempt_admission parse isof fresh_claim fresh_event now attempt_id dispatch_key target expected_claim lg =
     (let bad = ValueError ''mission attempt admission transition is invalid'' in
      rfail_if (\<not> str_matches ATTEMPT_ID attempt_id \<or> \<not> str_matches DISPATCH_KEY dispatch_key
        \<or> expected_claim \<noteq> PNone \<and> \<not> str_matches CLAIM_ID expected_claim
        \<or> target = To_admitting \<and> expected_claim \<noteq> PNone \<or> target = To_prepared \<and> expected_claim = PNone) bad
      (rbind (open_ledger parse lg) (\<lambda>(validated, book).
      rbind (matching_attempt attempt_id validated) (\<lambda>persisted.
      rfail_if (dget persisted ''dispatch_key'' \<noteq> dispatch_key) (ValueError ''mission attempt admission lineage drift'')
      (rfail_if (target = To_prepared \<and> dget persisted ''admission_claim_id'' \<noteq> expected_claim)
        (ValueError ''mission attempt admission claim drift'')
      (rfail_if (dget persisted ''state'' \<noteq> PS (source_name target)) bad
      (rfail_if (target = To_admitting \<and> (fresh_claim \<in> dom (cb_lineage book)
          \<or> PStr fresh_claim \<in> (\<lambda>a. dget a ''admission_claim_id'') ` set validated))
        (ValueError ''duplicate mission admission claim identity'')
      (rbind (validate_mission_attempt_record parse (dputs
        [(''state'', PS (target_name target)),
         (''updated_at'', if target = To_admitting then PStr (isof now) else dget persisted ''created_at''),
         (''admission_claim_id'', if target = To_admitting then PStr fresh_claim else PNone)] persisted)) (\<lambda>candidate.
      let event = protocol_event fresh_event (admission_event target) now
            (claim_payload attempt_id dispatch_key candidate (if target = To_admitting then PStr fresh_claim else expected_claim)) in
      rbind (unused_event event lg) (\<lambda>_.
      close_ledger validated attempt_id candidate event lg))))))))))"

definition claim_mission_attempt_admission ::
    "(pstr \<Rightarrow> int option) \<Rightarrow> (int \<Rightarrow> pstr) \<Rightarrow> pstr \<Rightarrow> pstr \<Rightarrow> int \<Rightarrow> pyval \<Rightarrow> pyval \<Rightarrow> ledger \<Rightarrow> py_exn + ledger \<times> pyval" where
  "claim_mission_attempt_admission parse isof fresh_claim fresh_event now attempt_id dispatch_key lg =
     transition_mission_attempt_admission parse isof fresh_claim fresh_event now attempt_id dispatch_key To_admitting PNone lg"

definition release_mission_attempt_admission ::
    "(pstr \<Rightarrow> int option) \<Rightarrow> (int \<Rightarrow> pstr) \<Rightarrow> pstr \<Rightarrow> int \<Rightarrow> pyval \<Rightarrow> pyval \<Rightarrow> pyval \<Rightarrow> ledger \<Rightarrow> py_exn + ledger \<times> pyval" where
  "release_mission_attempt_admission parse isof fresh_event now attempt_id dispatch_key expected_claim lg =
     transition_mission_attempt_admission parse isof [] fresh_event now attempt_id dispatch_key To_prepared expected_claim lg"

definition interrupt_prepared_mission_attempt ::
    "(pstr \<Rightarrow> int option) \<Rightarrow> (int \<Rightarrow> pstr) \<Rightarrow> pstr \<Rightarrow> int \<Rightarrow> pyval \<Rightarrow> pyval \<Rightarrow> pyval \<Rightarrow> pyval
      \<Rightarrow> ledger \<Rightarrow> py_exn + ledger \<times> pyval" where
  "interrupt_prepared_mission_attempt parse isof fresh_event now attempt_id dispatch_key target_state reason lg =
     (let bad = ValueError ''mission attempt pre-dispatch stop is invalid'' in
      rfail_if (\<not> str_matches ATTEMPT_ID attempt_id \<or> \<not> str_matches DISPATCH_KEY dispatch_key) bad
      (rbind (in_names target_state [''cancelled'', ''interrupted'']) (\<lambda>known.
      rfail_if (\<not> known \<or> \<not> str_matches (\<lambda>s. py_strip s \<noteq> []) reason) bad
      (rbind (open_ledger parse lg) (\<lambda>(validated, book).
      (case filter (\<lambda>a. dget a ''attempt_id'' = attempt_id) validated of
         [persisted] \<Rightarrow>
           rfail_if (dget persisted ''dispatch_key'' \<noteq> dispatch_key \<or> dget persisted ''state'' \<noteq> PS ''prepared''
             \<or> dget persisted ''admission_claim_id'' \<noteq> PNone \<or> dget persisted ''receipt_summary'' \<noteq> PNone) bad
           (rbind (validate_mission_attempt_record parse (dputs
              [(''state'', target_state), (''updated_at'', PStr (isof now)), (''terminal_reason'', reason)] persisted)) (\<lambda>candidate.
            close_ledger validated attempt_id candidate
              (protocol_event fresh_event ''mission_attempt_pre_dispatch_stopped'' now
                [(''attempt_id'', attempt_id), (''mission_id'', dget candidate ''mission_id''), (''step_id'', dget candidate ''step_id''),
                 (''dispatch_key'', dispatch_key), (''state'', target_state), (''reason'', reason)]) lg))
       | _ \<Rightarrow> Inl KeyError))))))"

subsection \<open>Receipts\<close>

datatype receipt_target = To_submitted | To_ambiguous

fun receipt_state :: "receipt_target \<Rightarrow> string" where
  "receipt_state To_submitted = ''submitted''"
| "receipt_state To_ambiguous = ''ambiguous''"

definition receipt_arguments_ok ::
    "pyval \<Rightarrow> pyval \<Rightarrow> pyval \<Rightarrow> pyval \<Rightarrow> pyval \<Rightarrow> receipt_target \<Rightarrow> pyval \<Rightarrow> py_exn + unit" where
  "receipt_arguments_ok attempt_id dispatch_key expected_claim observed receipt_summary target reason =
     rfail_if (\<not> str_matches ATTEMPT_ID attempt_id \<or> \<not> str_matches DISPATCH_KEY dispatch_key
       \<or> \<not> str_matches (\<lambda>s. s \<noteq> []) receipt_summary \<or> \<not> str_matches CLAIM_ID expected_claim
       \<or> observed \<noteq> PNone \<and> \<not> str_matches DISPATCH_KEY observed) (ValueError ''mission attempt receipt is invalid'')
     (rfail_if (target = To_ambiguous \<and> reason \<notin> {PS ''receipt_persistence_unknown'', PS ''admission_outcome_unknown''}
       \<and> \<not> is_acp_completion_ambiguity_reason reason) (ValueError ''mission attempt ambiguity reason is invalid'')
     (rfail_if (target = To_submitted \<and> (reason \<noteq> PNone \<or> observed \<noteq> dispatch_key))
       (ValueError ''mission attempt receipt evidence is invalid'')
     (rfail_if (target = To_ambiguous \<and> reason = PS ''receipt_persistence_unknown'' \<and> observed = PNone)
       (ValueError ''mission attempt receipt ambiguity evidence is invalid'')
     (rfail_if (target = To_ambiguous \<and> reason = PS ''admission_outcome_unknown''
         \<and> (observed \<noteq> PNone \<or> receipt_summary \<noteq> PS ''admission outcome unknown''))
       (ValueError ''mission attempt admission ambiguity evidence is invalid'')
     (rfail_if (target = To_ambiguous \<and> is_acp_completion_ambiguity_reason reason \<and> observed \<noteq> dispatch_key)
       (ValueError ''mission attempt completion ambiguity evidence is invalid'')
     (Inr ()))))))"

definition receipt_source_states :: "receipt_target \<Rightarrow> pyval \<Rightarrow> string list" where
  "receipt_source_states target reason =
     (if target = To_submitted \<or> reason = PS ''admission_outcome_unknown'' then [''admitting'']
      else if is_acp_completion_ambiguity_reason reason then [''submitted'']
      else [''admitting'', ''submitted''])"

definition receipt_event :: "pstr \<Rightarrow> int \<Rightarrow> receipt_target \<Rightarrow> pyval \<Rightarrow> pyval \<Rightarrow> pyval \<Rightarrow> pyval \<Rightarrow> pyval \<Rightarrow> pyval \<Rightarrow> event_record" where
  "receipt_event fresh_event now target attempt_id dispatch_key candidate expected_claim observed reason =
     protocol_event fresh_event (''mission_attempt_'' @ receipt_state target) now
       (claim_payload attempt_id dispatch_key candidate expected_claim @ [(''reason'', reason)]
        @ (if target = To_ambiguous
           then [(''expected_dispatch_key'', dispatch_key), (''observed_dispatch_key'', observed)] else []))"

text \<open>
  The \<^verbatim>\<open>return persisted\<close> of a repeated call is an unchanged ledger. The reason of a repeated call is
  compared with the recorded blocker and terminal reason.
\<close>

definition transition_mission_attempt_receipt ::
    "(pstr \<Rightarrow> int option) \<Rightarrow> (int \<Rightarrow> pstr) \<Rightarrow> pstr \<Rightarrow> int \<Rightarrow> pyval \<Rightarrow> pyval \<Rightarrow> pyval \<Rightarrow> pyval \<Rightarrow> pyval
      \<Rightarrow> receipt_target \<Rightarrow> pyval \<Rightarrow> ledger \<Rightarrow> py_exn + ledger \<times> pyval" where
  "transition_mission_attempt_receipt parse isof fresh_event now attempt_id dispatch_key expected_claim observed receipt_summary
      target reason lg =
     rbind (receipt_arguments_ok attempt_id dispatch_key expected_claim observed receipt_summary target reason) (\<lambda>_.
     rbind (open_ledger parse lg) (\<lambda>(validated, book).
     rbind (matching_attempt attempt_id validated) (\<lambda>persisted.
     rfail_if (is_acp_completion_ambiguity_reason reason \<and> dget persisted ''configured_transport'' \<noteq> PS ''acp'')
       (ValueError ''ACP completion authority invalid'')
     (rfail_if (dget persisted ''dispatch_key'' \<noteq> dispatch_key) (ValueError ''mission attempt receipt lineage drift'')
     (rfail_if (dget persisted ''admission_claim_id'' \<noteq> expected_claim) (ValueError ''mission attempt admission claim drift'')
     (let expected_reason = (if target = To_ambiguous then reason else PNone) in
      if dget persisted ''state'' = PS (receipt_state target) then
        (if dget persisted ''receipt_summary'' = receipt_summary \<and> dget persisted ''blocker'' = expected_reason
            \<and> dget persisted ''terminal_reason'' = expected_reason
         then Inr (lg, persisted) else Inl (ValueError ''mission attempt receipt conflict''))
      else
        rfail_if (dget persisted ''state'' \<notin> set (map PS (receipt_source_states target reason)))
          (ValueError ''mission attempt receipt transition is invalid'')
        (rfail_if (target = To_ambiguous \<and> dget persisted ''state'' = PS ''submitted''
            \<and> dget persisted ''receipt_summary'' \<noteq> receipt_summary) (ValueError ''mission attempt receipt conflict'')
        (rbind (validate_mission_attempt_record parse (dputs
          [(''state'', PS (receipt_state target)), (''updated_at'', PStr (isof now)), (''receipt_summary'', receipt_summary),
           (''blocker'', expected_reason), (''terminal_reason'', expected_reason)] persisted)) (\<lambda>candidate.
         let event = receipt_event fresh_event now target attempt_id dispatch_key candidate expected_claim observed reason in
         rbind (unused_event event lg) (\<lambda>_.
         close_ledger validated attempt_id candidate event lg))))))))))"

definition record_mission_attempt_submitted ::
    "(pstr \<Rightarrow> int option) \<Rightarrow> (int \<Rightarrow> pstr) \<Rightarrow> pstr \<Rightarrow> int \<Rightarrow> pyval \<Rightarrow> pyval \<Rightarrow> pyval \<Rightarrow> pyval \<Rightarrow> ledger \<Rightarrow> py_exn + ledger \<times> pyval" where
  "record_mission_attempt_submitted parse isof fresh_event now attempt_id dispatch_key expected_claim receipt_summary lg =
     transition_mission_attempt_receipt parse isof fresh_event now attempt_id dispatch_key expected_claim dispatch_key receipt_summary
       To_submitted PNone lg"

definition mark_acp_mission_attempt_completion_ambiguous ::
    "(pstr \<Rightarrow> int option) \<Rightarrow> (int \<Rightarrow> pstr) \<Rightarrow> pstr \<Rightarrow> int \<Rightarrow> pyval \<Rightarrow> pyval \<Rightarrow> pyval \<Rightarrow> pyval \<Rightarrow> pyval \<Rightarrow> ledger \<Rightarrow> py_exn + ledger \<times> pyval" where
  "mark_acp_mission_attempt_completion_ambiguous parse isof fresh_event now attempt_id dispatch_key expected_claim receipt_summary completion_stage lg =
     rbind (acp_completion_ambiguity_reason completion_stage) (\<lambda>reason.
     transition_mission_attempt_receipt parse isof fresh_event now attempt_id dispatch_key expected_claim dispatch_key receipt_summary
       To_ambiguous (PS reason) lg)"

definition mark_mission_attempt_ambiguous ::
    "(pstr \<Rightarrow> int option) \<Rightarrow> (int \<Rightarrow> pstr) \<Rightarrow> pstr \<Rightarrow> int \<Rightarrow> pyval \<Rightarrow> pyval \<Rightarrow> pyval \<Rightarrow> pyval \<Rightarrow> pyval \<Rightarrow> pyval \<Rightarrow> ledger \<Rightarrow> py_exn + ledger \<times> pyval" where
  "mark_mission_attempt_ambiguous parse isof fresh_event now attempt_id dispatch_key expected_claim observed receipt_summary reason lg =
     rfail_if (reason \<noteq> PS ''receipt_persistence_unknown'') (ValueError ''mission attempt receipt ambiguity reason is invalid'')
     (transition_mission_attempt_receipt parse isof fresh_event now attempt_id dispatch_key expected_claim observed receipt_summary
       To_ambiguous reason lg)"

definition mark_mission_attempt_admission_ambiguous ::
    "(pstr \<Rightarrow> int option) \<Rightarrow> (int \<Rightarrow> pstr) \<Rightarrow> pstr \<Rightarrow> int \<Rightarrow> pyval \<Rightarrow> pyval \<Rightarrow> pyval \<Rightarrow> pyval \<Rightarrow> ledger \<Rightarrow> py_exn + ledger \<times> pyval" where
  "mark_mission_attempt_admission_ambiguous parse isof fresh_event now attempt_id dispatch_key expected_claim reason lg =
     rfail_if (reason \<noteq> PS ''admission_outcome_unknown'') (ValueError ''mission attempt admission ambiguity reason is invalid'')
     (transition_mission_attempt_receipt parse isof fresh_event now attempt_id dispatch_key expected_claim PNone
       (PS ''admission outcome unknown'') To_ambiguous reason lg)"

section \<open>The history as an automaton per attempt\<close>

text \<open>
  What a history says about one attempt: no open claim, a claim held, a submission or an unknown outcome
  under a claim, or a stop before any dispatch. \<open>phase_act\<close> is the abstract step; \<open>phase_of\<close> reads the
  phase off the tables of the validator.
\<close>

datatype phase = Idle | Held pstr | Sent pstr | Lost pstr | Stopped pstr

datatype act = Act claim_kind pstr | Act_stop pstr

fun phase_act :: "act \<Rightarrow> phase \<Rightarrow> phase option" where
  "phase_act (Act Ev_claimed c) Idle = Some (Held c)"
| "phase_act (Act Ev_released c) (Held c') = (if c = c' then Some Idle else None)"
| "phase_act (Act Ev_submitted c) (Held c') = (if c = c' then Some (Sent c) else None)"
| "phase_act (Act Ev_ambiguous c) (Held c') = (if c = c' then Some (Lost c) else None)"
| "phase_act (Act Ev_ambiguous c) (Sent c') = (if c = c' then Some (Lost c) else None)"
| "phase_act (Act_stop s) Idle = Some (Stopped s)"
| "phase_act _ _ = None"

fun run_acts :: "act list \<Rightarrow> phase \<Rightarrow> phase option" where
  "run_acts [] p = Some p"
| "run_acts (a # acts) p = Option.bind (phase_act a p) (run_acts acts)"

text \<open>The attempt and the action that an event record is about.\<close>

definition event_action :: "event_record \<Rightarrow> (lineage \<times> act) option" where
  "event_action r =
     (case r of
        Event_fields _ (PStr event_type) _ payload \<Rightarrow>
          if event_type = u ''mission_attempt_pre_dispatch_stopped''
          then Some (attempt_key payload, Act_stop (py_str (dget payload ''state'')))
          else map_option (\<lambda>kind. (attempt_key payload, Act kind (py_str (dget payload ''admission_claim_id'')))) (claim_kind_of event_type)
      | _ \<Rightarrow> None)"

definition actions_on :: "lineage \<Rightarrow> event_record list \<Rightarrow> act list" where
  "actions_on key records =
     List.map_filter (\<lambda>r. case event_action r of Some (k, a) \<Rightarrow> if k = key then Some a else None | None \<Rightarrow> None) records"

definition phase_of :: "claim_book \<Rightarrow> lineage \<Rightarrow> phase" where
  "phase_of b key =
     (case cb_stops b key of
        Some s \<Rightarrow> Stopped s
      | None \<Rightarrow>
          if cb_claims b key = [] then Idle
          else case cb_stages b (last (cb_claims b key)) of
            Some Claimed \<Rightarrow> Held (last (cb_claims b key))
          | Some Stage_submitted \<Rightarrow> Sent (last (cb_claims b key))
          | Some Stage_ambiguous \<Rightarrow> Lost (last (cb_claims b key))
          | _ \<Rightarrow> Idle)"

definition book_ok :: "claim_book \<Rightarrow> bool" where
  "book_ok b \<longleftrightarrow>
     (\<forall>c k. cb_lineage b c = Some k \<longleftrightarrow> c \<in> set (cb_claims b k))
     \<and> (\<forall>c. cb_stages b c = None \<longleftrightarrow> cb_lineage b c = None)
     \<and> (\<forall>k. \<forall>c\<in>set (butlast (cb_claims b k)). cb_stages b c = Some Released)
     \<and> (\<forall>k. distinct (cb_claims b k))
     \<and> (\<forall>k. k \<in> cb_closed b \<longleftrightarrow>
          cb_claims b k \<noteq> [] \<and> cb_stages b (last (cb_claims b k)) \<in> {Some Stage_submitted, Some Stage_ambiguous})
     \<and> (\<forall>k. cb_stops b k \<noteq> None \<longrightarrow> \<not> open_claim b k)"

lemma book_okD:
  assumes "book_ok b"
  shows "cb_lineage b c = Some k \<longleftrightarrow> c \<in> set (cb_claims b k)"
    and "cb_stages b c = None \<longleftrightarrow> cb_lineage b c = None"
    and "c \<in> set (butlast (cb_claims b k)) \<Longrightarrow> cb_stages b c = Some Released"
    and "distinct (cb_claims b k)"
    and "k \<in> cb_closed b \<longleftrightarrow>
          cb_claims b k \<noteq> [] \<and> cb_stages b (last (cb_claims b k)) \<in> {Some Stage_submitted, Some Stage_ambiguous}"
    and "cb_stops b k \<noteq> None \<Longrightarrow> \<not> open_claim b k"
  using assms unfolding book_ok_def by blast+

lemma book_ok_empty [simp]: "book_ok empty_book" "phase_of empty_book k = Idle"
  by (simp_all add: book_ok_def empty_book_def open_claim_def phase_of_def)

text \<open>The stage of a claim that is not released belongs to the last claim of its attempt.\<close>

lemma stage_is_last:
  assumes "book_ok b" "cb_stages b c = Some s" "s \<noteq> Released" "cb_lineage b c \<in> {None, Some k}"
  shows "c \<in> set (cb_claims b k)" "cb_claims b k \<noteq> []" "c = last (cb_claims b k)"
proof -
  have "cb_lineage b c \<noteq> None" using book_okD(2) [OF assms(1), of c] assms(2) by simp
  with assms(4) have l: "cb_lineage b c = Some k" by blast
  with book_okD(1) [OF assms(1)] show m: "c \<in> set (cb_claims b k)" by simp
  then show ne: "cb_claims b k \<noteq> []" by auto
  have "c \<notin> set (butlast (cb_claims b k))" using book_okD(3) [OF assms(1), of c k] assms(2,3) by auto
  with m ne show "c = last (cb_claims b k)"
    by (metis append_butlast_last_id in_set_butlastD rotate1.simps(2) set_ConsD set_rotate1)
qed

lemma last_claim_other:
  assumes "book_ok b" "cb_lineage b c \<in> {None, Some k}" "k' \<noteq> k" "cb_claims b k' \<noteq> []"
  shows "last (cb_claims b k') \<noteq> c" "c \<notin> set (cb_claims b k')"
proof -
  show "c \<notin> set (cb_claims b k')"
    using book_okD(1) [OF assms(1), of c k'] assms(2,3) by auto
  then show "last (cb_claims b k') \<noteq> c" using assms(4) last_in_set [OF assms(4)] by metis
qed

subsection \<open>One event\<close>

text \<open>How an accepted claim event changes the tables.\<close>

definition book_put :: "pstr \<Rightarrow> lineage \<Rightarrow> claim_stage \<Rightarrow> claim_book \<Rightarrow> claim_book" where
  "book_put c k s b = b\<lparr>cb_lineage := (cb_lineage b)(c \<mapsto> k), cb_stages := (cb_stages b)(c \<mapsto> s)\<rparr>"

lemma phase_of_cong:
  assumes "cb_stops b' k = cb_stops b k" "cb_claims b' k = cb_claims b k"
    and "cb_claims b k \<noteq> [] \<Longrightarrow> cb_stages b' (last (cb_claims b k)) = cb_stages b (last (cb_claims b k))"
  shows "phase_of b' k = phase_of b k" "open_claim b' k = open_claim b k"
proof -
  show "phase_of b' k = phase_of b k"
  proof (cases "cb_claims b k = []")
    case False
    show ?thesis unfolding phase_of_def assms(1,2) assms(3) [OF False] ..
  qed (simp add: phase_of_def assms(1,2))
  show "open_claim b' k = open_claim b k"
    unfolding open_claim_def assms(2) using assms(3) by auto
qed

lemma book_put_sel [simp]:
  "cb_stops (book_put c k s b) = cb_stops b" "cb_claims (book_put c k s b) = cb_claims b"
  "cb_closed (book_put c k s b) = cb_closed b"
  "cb_stages (book_put c k s b) = (cb_stages b)(c \<mapsto> s)" "cb_lineage (book_put c k s b) = (cb_lineage b)(c \<mapsto> k)"
  by (simp_all add: book_put_def)

lemma other_claims_untouched:
  assumes "book_ok b" "cb_lineage b c \<in> {None, Some k}" "k' \<noteq> k" "cb_stops b' = cb_stops b"
    "cb_claims b' k' = cb_claims b k'" "cb_stages b' = (cb_stages b)(c \<mapsto> s)"
  shows "phase_of b' k' = phase_of b k'" "open_claim b' k' = open_claim b k'"
proof -
  have "cb_stages b' (last (cb_claims b k')) = cb_stages b (last (cb_claims b k'))" if "cb_claims b k' \<noteq> []"
    using last_claim_other(1) [OF assms(1-3) that] by (simp add: assms(6))
  then show "phase_of b' k' = phase_of b k'" "open_claim b' k' = open_claim b k'"
    using phase_of_cong [of b' k' b] assms(4,5) by simp_all
qed

text \<open>A later stage of the claim an attempt holds, and a new claim.\<close>

lemma book_ok_advance:
  assumes ok: "book_ok b" and s: "cb_stages b c = Some t" "t \<noteq> Released" and l: "cb_lineage b c \<in> {None, Some k}"
    and stop: "cb_stops b k = None"
    and x: "X = (if s \<in> {Stage_submitted, Stage_ambiguous} then insert k (cb_closed b) else cb_closed b - {k})"
    and b': "b' = book_put c k s (b\<lparr>cb_closed := X\<rparr>)"
  shows "book_ok b'" and "k' \<noteq> k \<Longrightarrow> phase_of b' k' = phase_of b k'"
    and "phase_of b' k = (case s of Claimed \<Rightarrow> Held c | Stage_submitted \<Rightarrow> Sent c | Stage_ambiguous \<Rightarrow> Lost c | Released \<Rightarrow> Idle)"
proof -
  note last = stage_is_last [OF ok s l]
  have lin: "cb_lineage b c = Some k" using last(1) book_okD(1) [OF ok] by simp
  have nb: "c \<notin> set (butlast (cb_claims b k))" using book_okD(3) [OF ok, of c k] s by auto
  have other: "c \<notin> set (cb_claims b k'')" if "k'' \<noteq> k" for k''
    using book_okD(1) [OF ok, of c k''] lin that by auto
  have rel: "cb_stages b' c' = Some Released" if "c' \<in> set (butlast (cb_claims b k''))" for c' k''
  proof -
    have "c' \<noteq> c" using that nb other [of k''] by (cases "k'' = k") (auto dest: in_set_butlastD)
    then show ?thesis using book_okD(3) [OF ok that] by (simp add: b')
  qed
  have op: "open_claim b' k'' = open_claim b k''" if "k'' \<noteq> k" for k''
    using other_claims_untouched(2) [OF ok l that, of b' s] by (simp add: b')
  have cl: "k'' \<in> cb_closed b' \<longleftrightarrow> cb_claims b' k'' \<noteq> []
      \<and> cb_stages b' (last (cb_claims b' k'')) \<in> {Some Stage_submitted, Some Stage_ambiguous}" for k''
  proof (cases "k'' = k")
    case True
    then show ?thesis using last by (cases s) (simp_all add: b' x)
  next
    case False
    then have "k'' \<in> cb_closed b' \<longleftrightarrow> k'' \<in> cb_closed b" by (simp add: b' x)
    moreover have "cb_stages b' (last (cb_claims b k'')) = cb_stages b (last (cb_claims b k''))" if "cb_claims b k'' \<noteq> []"
      using last_claim_other(1) [OF ok l False that] by (simp add: b')
    ultimately show ?thesis using book_okD(5) [OF ok, of k''] by (auto simp: b')
  qed
  have "cb_lineage b' c' = Some k'' \<longleftrightarrow> c' \<in> set (cb_claims b' k'')" for c' k''
    using book_okD(1) [OF ok, of c' k''] lin by (auto simp: b')
  moreover have "cb_stages b' c' = None \<longleftrightarrow> cb_lineage b' c' = None" for c'
    using book_okD(2) [OF ok, of c'] by (simp add: b')
  moreover have "cb_stops b' k'' \<noteq> None \<Longrightarrow> \<not> open_claim b' k''" for k''
    using book_okD(6) [OF ok, of k''] op [of k''] stop by (cases "k'' = k") (auto simp: b')
  ultimately show "book_ok b'"
    using rel cl book_okD(4) [OF ok] unfolding book_ok_def by (simp add: b')
  show "k' \<noteq> k \<Longrightarrow> phase_of b' k' = phase_of b k'"
    using other_claims_untouched(1) [OF ok l, of k' b' s] by (simp add: b')
  show "phase_of b' k = (case s of Claimed \<Rightarrow> Held c | Stage_submitted \<Rightarrow> Sent c | Stage_ambiguous \<Rightarrow> Lost c | Released \<Rightarrow> Idle)"
    using last stop by (cases s) (simp_all add: phase_of_def b')
qed

lemma book_ok_claim:
  assumes ok: "book_ok b" and new: "cb_stages b c = None" and free: "k \<notin> cb_closed b" "\<not> open_claim b k"
    and stop: "cb_stops b k = None"
    and b': "b' = book_put c k Claimed (b\<lparr>cb_claims := (cb_claims b)(k := cb_claims b k @ [c])\<rparr>)"
  shows "book_ok b'" and "k' \<noteq> k \<Longrightarrow> phase_of b' k' = phase_of b k'" and "phase_of b' k = Held c" and "phase_of b k = Idle"
proof -
  have lin: "cb_lineage b c = None" using book_okD(2) [OF ok] new by simp
  have fresh: "c \<notin> set (cb_claims b k'')" for k'' using book_okD(1) [OF ok, of c k''] lin by auto
  have stages: "cb_stages b' c' = cb_stages b c'" if "c' \<noteq> c" for c' using that by (simp add: b')
  have rel: "cb_stages b c' = Some Released" if "c' \<in> set (cb_claims b k)" for c'
  proof (cases "c' \<in> set (butlast (cb_claims b k))")
    case True
    then show ?thesis by (rule book_okD(3) [OF ok])
  next
    case False
    then have "c' = last (cb_claims b k)"
      using that by (metis append_butlast_last_id in_set_conv_decomp_first insert_iff list.simps(15) list.distinct(1)
        rotate1.simps(2) set_rotate1 empty_iff list.set(1))
    then show ?thesis using free(2) that by (auto simp: open_claim_def)
  qed
  have rel': "cb_stages b' c' = Some Released" if "c' \<in> set (butlast (cb_claims b' k''))" for c' k''
  proof -
    have "c' \<in> set (cb_claims b k) \<or> c' \<in> set (butlast (cb_claims b k''))" "c' \<noteq> c"
      using that fresh [of k] fresh [of k''] by (auto simp: b' split: if_splits dest: in_set_butlastD)
    then show ?thesis using rel book_okD(3) [OF ok] stages by metis
  qed
  have untouched: "phase_of b' k'' = phase_of b k''" "open_claim b' k'' = open_claim b k''" if "k'' \<noteq> k" for k''
    using other_claims_untouched [OF ok _ that, of c b' Claimed] lin that by (simp_all add: b')
  have cl: "k'' \<in> cb_closed b' \<longleftrightarrow> cb_claims b' k'' \<noteq> []
      \<and> cb_stages b' (last (cb_claims b' k'')) \<in> {Some Stage_submitted, Some Stage_ambiguous}" for k''
  proof (cases "k'' = k")
    case False
    then have "cb_claims b' k'' = cb_claims b k''" by (simp add: b')
    moreover have "last (cb_claims b k'') \<noteq> c" if "cb_claims b k'' \<noteq> []" using fresh [of k''] last_in_set [OF that] by metis
    ultimately show ?thesis using book_okD(5) [OF ok, of k''] by (auto simp: b')
  qed (use free in \<open>simp add: b'\<close>)
  have "cb_lineage b' c' = Some k'' \<longleftrightarrow> c' \<in> set (cb_claims b' k'')" for c' k''
    using book_okD(1) [OF ok, of c' k''] fresh [of k''] by (auto simp: b')
  moreover have "cb_stages b' c' = None \<longleftrightarrow> cb_lineage b' c' = None" for c'
    using book_okD(2) [OF ok, of c'] by (simp add: b')
  moreover have "distinct (cb_claims b' k'')" for k'' using book_okD(4) [OF ok] fresh [of k] by (simp add: b')
  moreover have "cb_stops b' k'' \<noteq> None \<Longrightarrow> \<not> open_claim b' k''" for k''
    using book_okD(6) [OF ok, of k''] untouched(2) [of k''] stop by (cases "k'' = k") (auto simp: b')
  ultimately show "book_ok b'" using rel' cl unfolding book_ok_def by blast
  show "k' \<noteq> k \<Longrightarrow> phase_of b' k' = phase_of b k'" by (rule untouched)
  show "phase_of b' k = Held c" using stop by (simp add: phase_of_def b')
  show "phase_of b k = Idle" using stop free(2) by (auto simp: phase_of_def open_claim_def)
qed

lemma book_ok_stop:
  assumes ok: "book_ok b" and free: "\<not> open_claim b k" and stop: "cb_stops b k = None"
    and b': "b' = b\<lparr>cb_stops := (cb_stops b)(k \<mapsto> s)\<rparr>"
  shows "book_ok b'" and "k' \<noteq> k \<Longrightarrow> phase_of b' k' = phase_of b k'" and "phase_of b' k = Stopped s" and "phase_of b k = Idle"
proof -
  have op: "open_claim b' k'' = open_claim b k''" for k'' by (simp add: open_claim_def b')
  have "cb_stops b' k'' \<noteq> None \<Longrightarrow> \<not> open_claim b' k''" for k''
    using book_okD(6) [OF ok, of k''] free op by (cases "k'' = k") (auto simp: b')
  then show "book_ok b'" using ok unfolding book_ok_def by (simp add: b')
  show "k' \<noteq> k \<Longrightarrow> phase_of b' k' = phase_of b k'" by (rule phase_of_cong) (simp_all add: b')
  show "phase_of b' k = Stopped s" by (simp add: phase_of_def b')
  show "phase_of b k = Idle" using stop free by (auto simp: phase_of_def open_claim_def)
qed

text \<open>The refinement step: what the validator accepts, the automaton of that attempt accepts.\<close>

definition acts_alike :: "lineage \<Rightarrow> act \<Rightarrow> claim_book \<Rightarrow> claim_book \<Rightarrow> bool" where
  "acts_alike k a b b' \<longleftrightarrow> book_ok b' \<and> phase_act a (phase_of b k) = Some (phase_of b' k)
     \<and> (\<forall>k'. k' \<noteq> k \<longrightarrow> phase_of b' k' = phase_of b k')"

lemma acts_alikeD:
  assumes "acts_alike k a b b'"
  shows "book_ok b'" "phase_act a (phase_of b k) = Some (phase_of b' k)" "k' \<noteq> k \<Longrightarrow> phase_of b' k' = phase_of b k'"
  using assms unfolding acts_alike_def by blast+

lemma phase_of_last:
  assumes "book_ok b" "cb_stages b c = Some s" "s \<noteq> Released" "cb_lineage b c \<in> {None, Some k}" "cb_stops b k = None"
  shows "phase_of b k = (case s of Claimed \<Rightarrow> Held c | Stage_submitted \<Rightarrow> Sent c | Stage_ambiguous \<Rightarrow> Lost c | Released \<Rightarrow> Idle)"
  using stage_is_last [OF assms(1-4)] assms(2,3,5) by (cases s) (simp_all add: phase_of_def)

lemma next_stage_alike:
  assumes ok: "book_ok b" and l: "cb_lineage b c \<in> {None, Some k}" and stop: "cb_stops b k = None"
    and n: "next_stage kind payload k c b = Inr (s, b')"
  shows "acts_alike k (Act kind c) b (book_put c k s b')"
proof (cases kind)
  case Ev_claimed
  then have h: "cb_stages b c = None" "k \<notin> cb_closed b" "\<not> open_claim b k" "s = Claimed"
      "b' = b\<lparr>cb_claims := (cb_claims b)(k := cb_claims b k @ [c])\<rparr>"
    using n by (auto simp: res_simps)
  show ?thesis using book_ok_claim [OF ok h(1-3) stop refl] unfolding acts_alike_def Ev_claimed h(4,5) by simp
next
  case Ev_released
  then have h: "cb_stages b c = Some Claimed" "s = Released" "b' = b" using n by (auto simp: res_simps)
  have "k \<notin> cb_closed b" using stage_is_last [OF ok h(1) _ l] h(1) book_okD(5) [OF ok, of k] by auto
  then have "b = b\<lparr>cb_closed := cb_closed b - {k}\<rparr>" by simp
  then have "book_put c k Released b = book_put c k Released (b\<lparr>cb_closed := cb_closed b - {k}\<rparr>)" by (rule arg_cong)
  with book_ok_advance [OF ok h(1) _ l stop, of "cb_closed b - {k}" Released] phase_of_last [OF ok h(1) _ l stop]
  show ?thesis unfolding acts_alike_def Ev_released h(2,3) by simp
next
  case Ev_submitted
  then have h: "cb_stages b c = Some Claimed" "s = Stage_submitted" "b' = b\<lparr>cb_closed := insert k (cb_closed b)\<rparr>"
    using n by (auto simp: res_simps)
  with book_ok_advance [OF ok h(1) _ l stop, of "insert k (cb_closed b)" Stage_submitted] phase_of_last [OF ok h(1) _ l stop]
  show ?thesis unfolding acts_alike_def Ev_submitted h(2,3) by simp
next
  case Ev_ambiguous
  then obtain t where h: "cb_stages b c = Some t" "t \<in> {Claimed, Stage_submitted}" "s = Stage_ambiguous"
      "b' = b\<lparr>cb_closed := insert k (cb_closed b)\<rparr>"
    using n by (auto simp: res_simps allowed_prior_stages_def split: if_splits)
  then have t: "t \<noteq> Released" by auto
  have p: "phase_of b k = Held c \<or> phase_of b k = Sent c"
    using phase_of_last [OF ok h(1) t l stop] h(2) by auto
  have "phase_act (Act Ev_ambiguous c) (phase_of b k) = Some (Lost c)" using p by auto
  with book_ok_advance [OF ok h(1) t l stop, of "insert k (cb_closed b)" Stage_ambiguous]
  show ?thesis unfolding acts_alike_def Ev_ambiguous h(3,4) by simp
qed

lemma claim_step_alike:
  assumes "book_ok b" "claim_step attempts kind payload b = Inr b'"
  shows "acts_alike (attempt_key payload) (Act kind (py_str (dget payload ''admission_claim_id''))) b b'"
proof -
  let ?k = "attempt_key payload" and ?c = "py_str (dget payload ''admission_claim_id'')"
  obtain s b1 where "cb_stops b ?k = None" "cb_lineage b ?c \<in> {None, Some ?k}"
      "next_stage kind payload ?k ?c b = Inr (s, b1)" "b' = book_put ?c ?k s b1"
    using assms(2) unfolding claim_step_def Let_def
    by (auto simp: res_simps book_put_def simp del: insert_iff split: option.splits prod.splits)
  with next_stage_alike [OF assms(1)] show ?thesis by blast
qed

lemma stop_step_alike:
  assumes "book_ok b" "stop_step attempts payload b = Inr b'"
  shows "acts_alike (attempt_key payload) (Act_stop (py_str (dget payload ''state''))) b b'"
proof -
  let ?k = "attempt_key payload"
  have h: "cb_stops b ?k = None" "\<not> open_claim b ?k"
      "b' = b\<lparr>cb_stops := (cb_stops b)(?k \<mapsto> py_str (dget payload ''state''))\<rparr>"
    using assms(2) by (auto simp: stop_step_def Let_def res_simps attempt_key_def split: option.splits)
  show ?thesis using book_ok_stop [OF assms(1) h(2,1) refl] unfolding acts_alike_def h(3) by simp
qed

lemma history_step_alike:
  assumes "book_ok b" "history_step attempts r b = Inr b'"
  shows "case event_action r of None \<Rightarrow> b' = b | Some (k, a) \<Rightarrow> acts_alike k a b b'"
  using assms claim_step_alike [OF assms(1)] stop_step_alike [OF assms(1)]
  by (auto simp: history_step_def event_action_def split: sum.splits event_record.splits pyval.splits if_splits option.splits)

lemma history_loop_alike:
  "book_ok b \<Longrightarrow> history_loop attempts rs b = Inr b' \<Longrightarrow>
     book_ok b' \<and> run_acts (actions_on k rs) (phase_of b k) = Some (phase_of b' k)"
proof (induction rs arbitrary: b)
  case (Cons r rs)
  then obtain b1 where b1: "history_step attempts r b = Inr b1" "history_loop attempts rs b1 = Inr b'" by (auto simp: res_simps)
  note alike = history_step_alike [OF Cons.prems(1) b1(1)]
  have ok: "book_ok b1" using alike Cons.prems(1) by (auto simp: acts_alike_def split: option.splits)
  have "run_acts (actions_on k (r # rs)) (phase_of b k) = run_acts (actions_on k rs) (phase_of b1 k)"
  proof (cases "event_action r")
    case (Some ka)
    then obtain k0 a where ka: "event_action r = Some (k0, a)" by (cases ka) simp
    with alike have "acts_alike k0 a b b1" by simp
    from acts_alikeD(2,3) [OF this] show ?thesis by (cases "k0 = k") (simp_all add: actions_on_def ka)
  qed (use alike in \<open>simp add: actions_on_def\<close>)
  with Cons.IH [OF ok b1(2)] show ?case by simp
qed (simp add: actions_on_def)

lemma history_refines:
  assumes "validate_mission_admission_claim_history records attempts = Inr b"
  shows "book_ok b" "run_acts (actions_on k records) Idle = Some (phase_of b k)" "list_all (attempt_agrees b) attempts"
  using assms history_loop_alike [OF book_ok_empty(1), of attempts records b k]
  by (auto simp: validate_mission_admission_claim_history_def res_simps)

section \<open>Attempt records and their phase\<close>

lemma str_matches_eq: "str_matches P v \<longleftrightarrow> (\<exists>s. v = PStr s \<and> P s)"
  by (cases v) auto

lemma in_names_eq_Inr [res_simps]: "in_names v names = Inr b \<longleftrightarrow> py_hashable v \<and> b = (v \<in> set (map PS names))"
  by (auto simp: in_names_def)

lemma valid_attemptD:
  assumes "validate_mission_attempt_record parse v = Inr w"
  shows "w = v" "is_dict v" "dkeys v \<in> {MISSION_ATTEMPT_FIELDS, SEMANTIC_MISSION_ATTEMPT_FIELDS}"
    and "\<exists>s. dget v ''attempt_id'' = PStr s \<and> ATTEMPT_ID s" "\<exists>s. dget v ''mission_id'' = PStr s \<and> MISSION_ID s"
    and "\<exists>s. dget v ''step_id'' = PStr s \<and> STEP_ID s" "\<exists>s. dget v ''dispatch_key'' = PStr s \<and> DISPATCH_KEY s"
    and "dget v ''admission_claim_id'' = PNone \<or> (\<exists>s. dget v ''admission_claim_id'' = PStr s \<and> CLAIM_ID s)"
    and "dget v ''state'' \<in> set (map PS MISSION_ATTEMPT_STATES)"
    and "dget v ''state'' = PS ''prepared'' \<Longrightarrow> dget v ''admission_claim_id'' = PNone"
    and "dget v ''state'' \<noteq> PS ''prepared'' \<Longrightarrow> dget v ''admission_claim_id'' = PNone \<Longrightarrow> pre_dispatch_stopped v"
    and "dget v ''configured_transport'' \<in> {PS ''acp'', PS ''tmux''}"
    and "\<exists>created updated. aware_time parse (dget v ''created_at'') = Some created
           \<and> aware_time parse (dget v ''updated_at'') = Some updated \<and> attempt_state_consistent created updated v"
proof -
  let ?n = "\<exists>created updated. aware_time parse (dget v ''created_at'') = Some created
           \<and> aware_time parse (dget v ''updated_at'') = Some updated \<and> attempt_state_consistent created updated v"
  have a: "w = v \<and> is_dict v \<and> dkeys v \<in> {MISSION_ATTEMPT_FIELDS, SEMANTIC_MISSION_ATTEMPT_FIELDS}
      \<and> str_matches ATTEMPT_ID (dget v ''attempt_id'') \<and> str_matches MISSION_ID (dget v ''mission_id'')
      \<and> str_matches STEP_ID (dget v ''step_id'') \<and> str_matches DISPATCH_KEY (dget v ''dispatch_key'')
      \<and> (dget v ''admission_claim_id'' = PNone \<or> str_matches CLAIM_ID (dget v ''admission_claim_id''))
      \<and> dget v ''state'' \<in> set (map PS MISSION_ATTEMPT_STATES)
      \<and> dget v ''configured_transport'' \<in> {PS ''acp'', PS ''tmux''} \<and> ?n"
    using assms unfolding validate_mission_attempt_record_def Let_def
    by (auto simp: res_simps simp del: set_map split: option.splits prod.splits)
  then show "w = v" "is_dict v" "dkeys v \<in> {MISSION_ATTEMPT_FIELDS, SEMANTIC_MISSION_ATTEMPT_FIELDS}"
    "\<exists>s. dget v ''attempt_id'' = PStr s \<and> ATTEMPT_ID s" "\<exists>s. dget v ''mission_id'' = PStr s \<and> MISSION_ID s"
    "\<exists>s. dget v ''step_id'' = PStr s \<and> STEP_ID s" "\<exists>s. dget v ''dispatch_key'' = PStr s \<and> DISPATCH_KEY s"
    "dget v ''admission_claim_id'' = PNone \<or> (\<exists>s. dget v ''admission_claim_id'' = PStr s \<and> CLAIM_ID s)"
    "dget v ''state'' \<in> set (map PS MISSION_ATTEMPT_STATES)" "dget v ''configured_transport'' \<in> {PS ''acp'', PS ''tmux''}"
    by (simp_all only: str_matches_eq)
  have n: ?n using a by blast
  show ?n by (rule n)
  from n show "dget v ''state'' = PS ''prepared'' \<Longrightarrow> dget v ''admission_claim_id'' = PNone"
    "dget v ''state'' \<noteq> PS ''prepared'' \<Longrightarrow> dget v ''admission_claim_id'' = PNone \<Longrightarrow> pre_dispatch_stopped v"
    unfolding attempt_state_consistent_def Let_def by blast+
qed

lemma attempt_state_cases:
  "x \<in> set (map PS MISSION_ATTEMPT_STATES) \<longleftrightarrow> x \<in> {PS ''prepared'', PS ''admitting'', PS ''submitted'', PS ''running'', PS ''completed'',
     PS ''succeeded'', PS ''failed'', PS ''cancelled'', PS ''interrupted'', PS ''ambiguous''}"
  by (simp add: MISSION_ATTEMPT_STATES_def)

fun fits :: "phase \<Rightarrow> pyval \<Rightarrow> bool" where
  "fits Idle a = (dget a ''state'' = PS ''prepared'' \<and> dget a ''admission_claim_id'' = PNone)"
| "fits (Held c) a = (dget a ''state'' = PS ''admitting'' \<and> dget a ''admission_claim_id'' = PStr c)"
| "fits (Lost c) a = (dget a ''state'' = PS ''ambiguous'' \<and> dget a ''admission_claim_id'' = PStr c)"
| "fits (Sent c) a = (dget a ''state'' \<notin> {PS ''prepared'', PS ''admitting'', PS ''ambiguous''} \<and> dget a ''admission_claim_id'' = PStr c)"
| "fits (Stopped s) a = (dget a ''state'' = PStr s \<and> dget a ''state'' \<in> {PS ''cancelled'', PS ''interrupted''}
     \<and> dget a ''admission_claim_id'' = PNone)"

lemma agreeing_attempt_fits:
  assumes v: "validate_mission_attempt_record parse a = Inr w" and ok: "book_ok b" and ag: "attempt_agrees b a"
  shows "fits (phase_of b (attempt_key a)) a"
proof (cases "dget a ''admission_claim_id'' = PNone")
  case none: True
  show ?thesis
  proof (cases "dget a ''state'' \<in> {PS ''cancelled'', PS ''interrupted''}")
    case True
    then have "cb_stops b (attempt_key a) = Some (py_str (dget a ''state''))"
      using ag none unfolding attempt_agrees_def Let_def by simp
    with none True show ?thesis by (auto simp: phase_of_def)
  next
    case False
    with ag none have "dget a ''state'' = PS ''prepared''" "cb_stops b (attempt_key a) = None" "\<not> open_claim b (attempt_key a)"
      unfolding attempt_agrees_def Let_def by simp_all
    with none show ?thesis by (auto simp: phase_of_def open_claim_def)
  qed
next
  case False
  then obtain c where c: "dget a ''admission_claim_id'' = PStr c" using valid_attemptD(8) [OF v] by auto
  have np: "dget a ''state'' \<noteq> PS ''prepared''" using valid_attemptD(10) [OF v] False by auto
  let ?k = "attempt_key a"
  have ag': "cb_claims b ?k \<noteq> []" "last (cb_claims b ?k) = c"
      "case expected_stage (dget a ''state'') of None \<Rightarrow> True | Some s \<Rightarrow> cb_stages b c = Some s"
    using ag c unfolding attempt_agrees_def Let_def by (simp_all split: option.splits)
  then obtain s where s: "expected_stage (dget a ''state'') = Some s" "cb_stages b c = Some s"
    using np unfolding expected_stage_def by (auto split: if_splits)
  have "s \<noteq> Released" using s(1) unfolding expected_stage_def by (auto split: if_splits)
  then have "open_claim b ?k" using ag'(1,2) s(2) by (simp add: open_claim_def)
  then have stop: "cb_stops b ?k = None" using book_okD(6) [OF ok, of ?k] by blast
  show ?thesis
    using s ag' c np stop unfolding expected_stage_def by (auto simp: phase_of_def split: if_splits)
qed

lemma rmap_valid_attempts:
  "rmap (validate_mission_attempt_record parse) xs = Inr ys \<longleftrightarrow>
     ys = xs \<and> list_all (\<lambda>a. validate_mission_attempt_record parse a = Inr a) xs"
proof (induction xs arbitrary: ys)
  case (Cons x xs)
  show ?case
    using valid_attemptD(1) [of parse x] Cons by (auto simp: res_simps)
qed auto

section \<open>Ledgers that open\<close>

text \<open>
  A ledger opens when the checks at the start of every operation pass. \<open>ledger_phase\<close> is then the phase
  that the history gives an attempt.
\<close>

definition ledger_ok :: "(pstr \<Rightarrow> int option) \<Rightarrow> ledger \<Rightarrow> bool" where
  "ledger_ok parse lg \<longleftrightarrow> is_ok (open_ledger parse lg)"

definition history_records :: "ledger \<Rightarrow> event_record list" where
  "history_records lg = lg_journal lg @ filter (\<lambda>r. record_id r \<notin> record_id ` set (lg_journal lg))
     (case lg_outbox lg of None \<Rightarrow> [] | Some items \<Rightarrow> items)"

definition ledger_phase :: "ledger \<Rightarrow> lineage \<Rightarrow> phase" where
  "ledger_phase lg key = (case run_acts (actions_on key (history_records lg)) Idle of None \<Rightarrow> Idle | Some p \<Rightarrow> p)"

lemma pending_records_eq_Inr:
  "pending_records journal rs = Inr ps \<longleftrightarrow>
     ps = filter (\<lambda>r. record_id r \<notin> record_id ` set journal) rs
     \<and> (\<forall>r\<in>set rs. \<forall>j. find (\<lambda>j. record_id j = record_id r) journal = Some j \<longrightarrow> event_canonical j = event_canonical r)"
proof (induction rs arbitrary: ps)
  case (Cons r rs)
  have "find (\<lambda>j. record_id j = record_id r) journal = None \<longleftrightarrow> record_id r \<notin> record_id ` set journal"
    by (auto simp: find_None_iff image_iff)
  with Cons show ?case
    by (cases "find (\<lambda>j. record_id j = record_id r) journal") (auto simp: res_simps)
qed auto

lemma open_ledger_eq_Inr:
  "open_ledger parse lg = Inr (validated, book) \<longleftrightarrow>
     lg_attempts lg = PList validated \<and> list_all (\<lambda>a. validate_mission_attempt_record parse a = Inr a) validated
     \<and> require_unique_mission_attempt_lineage validated = Inr ()
     \<and> protocol_admission_claim_history (lg_outbox lg) (lg_journal lg) validated = Inr book"
proof -
  have "validated_attempts parse lg = Inr xs \<longleftrightarrow> lg_attempts lg = PList xs
      \<and> list_all (\<lambda>a. validate_mission_attempt_record parse a = Inr a) xs" for xs
    by (cases "lg_attempts lg") (auto simp: validated_attempts_def rmap_valid_attempts)
  then show ?thesis by (auto simp: open_ledger_def res_simps)
qed

lemma claim_history_eq_Inr:
  "protocol_admission_claim_history (Some outbox) journal attempts = Inr book \<longleftrightarrow>
     is_ok (validated_protocol_event_outbox_ids (Some outbox)) \<and> is_ok (strict_protocol_journal_event_ids journal)
     \<and> is_ok (pending_records journal outbox)
     \<and> validate_mission_admission_claim_history (journal @ filter (\<lambda>r. record_id r \<notin> record_id ` set journal) outbox) attempts
       = Inr book"
  by (auto simp: protocol_admission_claim_history_def res_simps is_ok_iff pending_records_eq_Inr)

lemma open_ledger_phase:
  assumes "open_ledger parse lg = Inr (validated, book)"
  shows "book_ok book" "ledger_phase lg key = phase_of book key"
    and "a \<in> set validated \<Longrightarrow> fits (ledger_phase lg (attempt_key a)) a"
proof -
  obtain outbox where o: "lg_outbox lg = Some outbox"
    using assms by (cases "lg_outbox lg")
      (auto simp: open_ledger_eq_Inr protocol_admission_claim_history_def validated_protocol_event_outbox_ids_def)
  have v: "validate_mission_admission_claim_history (history_records lg) validated = Inr book"
    using assms by (simp add: open_ledger_eq_Inr o claim_history_eq_Inr history_records_def)
  show ok: "book_ok book" by (rule history_refines(1) [OF v])
  show p: "ledger_phase lg key = phase_of book key" for key
    by (simp add: ledger_phase_def history_refines(2) [OF v])
  assume a: "a \<in> set validated"
  then have "validate_mission_attempt_record parse a = Inr a" "attempt_agrees book a"
    using assms history_refines(3) [OF v] by (auto simp: open_ledger_eq_Inr list_all_iff)
  then show "fits (ledger_phase lg (attempt_key a)) a" using agreeing_attempt_fits ok p by simp
qed

section \<open>What an operation does to the phases\<close>

lemma run_acts_append: "run_acts (xs @ ys) p = Option.bind (run_acts xs p) (run_acts ys)"
  by (induction xs arbitrary: p) (auto simp: bind_eq_Some_conv split: bind_splits)

lemma actions_on_append: "actions_on k (xs @ ys) = actions_on k xs @ actions_on k ys"
  by (simp add: actions_on_def List.map_filter_def)

lemma ledger_ok_run:
  assumes "ledger_ok parse lg"
  shows "run_acts (actions_on k (history_records lg)) Idle = Some (ledger_phase lg k)"
proof -
  obtain validated book where o: "open_ledger parse lg = Inr (validated, book)"
    using assms by (auto simp: ledger_ok_def is_ok_iff)
  then obtain outbox where ob: "lg_outbox lg = Some outbox"
    by (cases "lg_outbox lg")
      (auto simp: open_ledger_eq_Inr protocol_admission_claim_history_def validated_protocol_event_outbox_ids_def)
  have "validate_mission_admission_claim_history (history_records lg) validated = Inr book"
    using o by (simp add: open_ledger_eq_Inr ob claim_history_eq_Inr history_records_def)
  from history_refines(2) [OF this] show ?thesis by (simp add: ledger_phase_def)
qed

text \<open>One action on one attempt, every other attempt left in its phase, between two ledgers that open.\<close>

definition ledger_act :: "(pstr \<Rightarrow> int option) \<Rightarrow> ledger \<Rightarrow> lineage \<Rightarrow> act \<Rightarrow> ledger \<Rightarrow> bool" where
  "ledger_act parse lg k a lg' \<longleftrightarrow> ledger_ok parse lg \<and> ledger_ok parse lg'
     \<and> phase_act a (ledger_phase lg k) = Some (ledger_phase lg' k)
     \<and> (\<forall>k'. k' \<noteq> k \<longrightarrow> ledger_phase lg' k' = ledger_phase lg k')"

lemma ledger_act_snoc:
  assumes "ledger_ok parse lg" "ledger_ok parse lg'" "history_records lg' = history_records lg @ [e]"
    "event_action e = Some (k, a)"
  shows "ledger_act parse lg k a lg'"
proof -
  have acts: "actions_on k' (history_records lg') = actions_on k' (history_records lg) @ (if k = k' then [a] else [])" for k'
    unfolding assms(3) actions_on_append by (simp add: actions_on_def assms(4))
  have run: "Some (ledger_phase lg' k') = Option.bind (Some (ledger_phase lg k')) (run_acts (if k = k' then [a] else []))" for k'
    using ledger_ok_run [OF assms(1), of k'] ledger_ok_run [OF assms(2), of k'] unfolding acts run_acts_append by simp
  have "phase_act a (ledger_phase lg k) = Some (ledger_phase lg' k)"
    using run [of k] by (auto simp: bind_eq_Some_conv dest!: sym [of "Some _"])
  moreover have "ledger_phase lg' k' = ledger_phase lg k'" if "k' \<noteq> k" for k' using run [of k'] that by simp
  ultimately show ?thesis using assms(1,2) unfolding ledger_act_def by blast
qed

subsection \<open>Saving an attempt\<close>

lemma put_attempt_absent: "\<forall>a\<in>set xs. dget a ''attempt_id'' \<noteq> aid \<Longrightarrow> put_attempt aid c xs = xs"
  unfolding put_attempt_def by (induction xs) auto

lemma put_attempt_append: "put_attempt aid c (xs @ ys) = put_attempt aid c xs @ put_attempt aid c ys"
  by (simp add: put_attempt_def)

lemma put_attempt_eq_replace:
  assumes "distinct (map (\<lambda>a. dget a ''attempt_id'') xs)" "list_all is_dict xs"
  shows "replace_first (\<lambda>item. is_dict item \<and> dget item ''attempt_id'' = aid) c xs = put_attempt aid c xs"
  using assms
proof (induction xs)
  case (Cons x xs)
  then have "put_attempt aid c xs = xs" if "dget x ''attempt_id'' = aid"
  proof (intro put_attempt_absent ballI)
    fix a assume "a \<in> set xs"
    then have "dget a ''attempt_id'' \<in> (\<lambda>a. dget a ''attempt_id'') ` set xs" by (rule imageI)
    with Cons.prems(1) that show "dget a ''attempt_id'' \<noteq> aid" by auto
  qed
  with Cons show ?case by (auto simp: put_attempt_def)
qed (simp add: put_attempt_def)

lemma unique_lineage_eq:
  "require_unique_mission_attempt_lineage xs = Inr () \<longleftrightarrow>
     distinct (map (\<lambda>a. dget a ''attempt_id'') xs) \<and> distinct (map (\<lambda>a. dget a ''dispatch_key'') xs)
     \<and> distinct (filter (\<lambda>c. c \<noteq> PNone) (map (\<lambda>a. dget a ''admission_claim_id'') xs))
     \<and> distinct (map (\<lambda>a. dget a ''mission_id'') (filter is_active_attempt xs))"
proof -
  have "list_ex (\<lambda>m. count_list ms m > 1) ms \<longleftrightarrow> \<not> distinct ms" for ms :: "pyval list"
  proof (induction ms)
    case (Cons m ms)
    have "count_list ms m > 0 \<longleftrightarrow> m \<in> set ms" by (metis count_list_0_iff gr0I neq0_conv)
    with Cons show ?case by (cases "m \<in> set ms") (auto simp: list_ex_iff)
  qed simp
  then show ?thesis by (auto simp: require_unique_mission_attempt_lineage_def Let_def res_simps)
qed

text \<open>One element of a list replaced by one with the same identities.\<close>

definition successor :: "pyval \<Rightarrow> pyval \<Rightarrow> pyval list \<Rightarrow> bool" where
  "successor persisted candidate others \<longleftrightarrow>
     (\<forall>k\<in>{''attempt_id'', ''dispatch_key'', ''mission_id'', ''step_id''}. dget candidate k = dget persisted k)
     \<and> (is_active_attempt candidate \<longrightarrow> is_active_attempt persisted)
     \<and> (dget candidate ''admission_claim_id'' \<in> {PNone, dget persisted ''admission_claim_id''}
        \<or> dget candidate ''admission_claim_id'' \<notin> (\<lambda>a. dget a ''admission_claim_id'') ` set others)"

lemma single_match_split:
  assumes "filter P xs = [x]"
  obtains ys zs where "xs = ys @ x # zs" "\<forall>a\<in>set ys \<union> set zs. \<not> P a" "P x"
proof -
  obtain ys zs where h: "xs = ys @ x # zs" "\<forall>u\<in>set ys. \<not> P u" "P x" "[] = filter P zs"
    using filter_eq_Cons_iff [of P xs x "[]"] assms by (metis filter_eq_ConsD)
  then have "\<forall>a\<in>set ys \<union> set zs. \<not> P a" by (auto simp: filter_empty_conv dest: sym)
  with that h show ?thesis by blast
qed

lemma distinct_filter_replace:
  "distinct (filter P (map f (ys @ p # zs))) \<Longrightarrow> f c = f p \<or> \<not> P (f c) \<or> f c \<notin> f ` (set ys \<union> set zs) \<Longrightarrow>
     distinct (filter P (map f (ys @ c # zs)))"
  by (auto split: if_splits) (metis image_eqI)+

lemma distinct_map_filter_replace:
  "distinct (map f (filter Q (ys @ p # zs))) \<Longrightarrow> Q c \<longrightarrow> Q p \<Longrightarrow> f c = f p \<Longrightarrow> distinct (map f (filter Q (ys @ c # zs)))"
  by (auto split: if_splits)

lemma unique_lineage_put:
  assumes u: "require_unique_mission_attempt_lineage xs = Inr ()" and m: "filter (\<lambda>a. dget a ''attempt_id'' = aid) xs = [p]"
    and s: "successor p c xs"
  shows "require_unique_mission_attempt_lineage (put_attempt aid c xs) = Inr ()"
proof -
  obtain ys zs where xs: "xs = ys @ p # zs" and o: "\<forall>a\<in>set ys \<union> set zs. dget a ''attempt_id'' \<noteq> aid" and p: "dget p ''attempt_id'' = aid"
    by (rule single_match_split [OF m])
  have put: "put_attempt aid c xs = ys @ c # zs"
    using o p put_attempt_absent [of ys aid c] put_attempt_absent [of zs aid c]
    unfolding xs put_attempt_append by (simp add: put_attempt_def)
  have same: "dget c ''attempt_id'' = dget p ''attempt_id''" "dget c ''dispatch_key'' = dget p ''dispatch_key''" "dget c ''mission_id'' = dget p ''mission_id''"
    and act: "is_active_attempt c \<Longrightarrow> is_active_attempt p"
    and cl: "dget c ''admission_claim_id'' = PNone \<or> dget c ''admission_claim_id'' = dget p ''admission_claim_id''
       \<or> dget c ''admission_claim_id'' \<notin> (\<lambda>a. dget a ''admission_claim_id'') ` (set ys \<union> set zs)"
    using s unfolding successor_def xs by auto
  note u' = u [unfolded unique_lineage_eq xs]
  note u1 = conjunct1 [OF u'] and u2 = conjunct1 [OF conjunct2 [OF u']]
    and u3 = conjunct1 [OF conjunct2 [OF conjunct2 [OF u']]] and u4 = conjunct2 [OF conjunct2 [OF conjunct2 [OF u']]]
  have "distinct (filter (\<lambda>c. c \<noteq> PNone) (map (\<lambda>a. dget a ''admission_claim_id'') (ys @ c # zs)))"
    by (rule distinct_filter_replace [OF u3]) (use cl in blast)
  moreover have "distinct (map (\<lambda>a. dget a ''mission_id'') (filter is_active_attempt (ys @ c # zs)))"
    by (rule distinct_map_filter_replace [OF u4]) (use act same(3) in blast)+
  moreover have "distinct (map (\<lambda>a. dget a ''attempt_id'') (ys @ c # zs))" using u1 same(1) by (simp only: map_append list.map)
  moreover have "distinct (map (\<lambda>a. dget a ''dispatch_key'') (ys @ c # zs))" using u2 same(2) by (simp only: map_append list.map)
  ultimately show ?thesis unfolding put unique_lineage_eq by blast
qed

lemma history_records_snoc:
  assumes "lg_outbox lg = Some outbox" "lg_journal lg' = lg_journal lg" "lg_outbox lg' = Some (outbox @ [e])"
  shows "history_records lg' = history_records lg @ (if record_id e \<in> record_id ` set (lg_journal lg) then [] else [e])"
  using assms by (simp add: history_records_def)

text \<open>The end of an operation: the saved ledger opens, and the event is the next of its history.\<close>

lemma close_ledger_acts:
  assumes o: "open_ledger parse lg = Inr (validated, book)"
    and m: "filter (\<lambda>a. dget a ''attempt_id'' = aid) validated = [p]"
    and c: "validate_mission_attempt_record parse c = Inr c" "successor p c validated"
    and cl: "close_ledger validated aid c e lg = Inr (lg', r)"
  shows "r = c" "ledger_ok parse lg" "ledger_ok parse lg'" "fits (ledger_phase lg (attempt_key p)) p"
    "fits (ledger_phase lg' (attempt_key p)) c"
    "history_records lg' = history_records lg @ (if record_id e \<in> record_id ` set (lg_journal lg) then [] else [e])"
proof -
  obtain outbox where ob: "lg_outbox lg = Some outbox"
    using o by (cases "lg_outbox lg")
      (auto simp: open_ledger_eq_Inr protocol_admission_claim_history_def validated_protocol_event_outbox_ids_def)
  have l: "lg_attempts lg = PList validated" "list_all (\<lambda>a. validate_mission_attempt_record parse a = Inr a) validated"
      "require_unique_mission_attempt_lineage validated = Inr ()"
    using o by (simp_all add: open_ledger_eq_Inr)
  have cl': "rbind (protocol_admission_claim_history (Some (outbox @ [e])) (lg_journal lg) (put_attempt aid c validated))
      (\<lambda>_. Inr (save_attempt aid c e lg, c)) = Inr (lg', r)"
    using cl by (simp add: close_ledger_def ob)
  then obtain book' where b': "protocol_admission_claim_history (Some (outbox @ [e])) (lg_journal lg) (put_attempt aid c validated) = Inr book'"
    by (cases "protocol_admission_claim_history (Some (outbox @ [e])) (lg_journal lg) (put_attempt aid c validated)") simp_all
  have lg': "lg' = save_attempt aid c e lg" and "r = c" using cl' unfolding b' by auto
  show "r = c" by fact
  show ok: "ledger_ok parse lg" using o by (simp add: ledger_ok_def)
  have "list_all is_dict validated" using l(2) valid_attemptD(2) by (auto simp: list_all_iff)
  then have "replace_first (\<lambda>item. is_dict item \<and> dget item ''attempt_id'' = aid) c validated = put_attempt aid c validated"
    using l(3) put_attempt_eq_replace by (simp add: unique_lineage_eq)
  then have sv: "lg_attempts lg' = PList (put_attempt aid c validated)" "lg_outbox lg' = Some (outbox @ [e])" "lg_journal lg' = lg_journal lg"
    by (simp_all add: lg' save_attempt_def l(1) ob)
  have va: "list_all (\<lambda>a. validate_mission_attempt_record parse a = Inr a) (put_attempt aid c validated)"
    using l(2) c(1) by (auto simp: list_all_iff put_attempt_def)
  have op': "open_ledger parse lg' = Inr (put_attempt aid c validated, book')"
    using va unique_lineage_put [OF l(3) m c(2)] b' by (simp add: open_ledger_eq_Inr sv)
  then show "ledger_ok parse lg'" by (simp add: ledger_ok_def)
  have "p \<in> set (filter (\<lambda>a. dget a ''attempt_id'' = aid) validated)" unfolding m by simp
  then have p: "p \<in> set validated" and pid: "dget p ''attempt_id'' = aid" by simp_all
  show "fits (ledger_phase lg (attempt_key p)) p" by (rule open_ledger_phase(3) [OF o p])
  have "c \<in> set (put_attempt aid c validated)" using p pid unfolding put_attempt_def by force
  moreover have "attempt_key c = attempt_key p" using c(2) by (simp add: successor_def attempt_key_def)
  ultimately show "fits (ledger_phase lg' (attempt_key p)) c" using open_ledger_phase(3) [OF op', of c] by simp
  show "history_records lg' = history_records lg @ (if record_id e \<in> record_id ` set (lg_journal lg) then [] else [e])"
    by (rule history_records_snoc [OF ob sv(3,2)])
qed

subsection \<open>The operations as actions\<close>

lemma matching_attempt_eq_Inr [res_simps]:
  "matching_attempt aid xs = Inr p \<longleftrightarrow> filter (\<lambda>a. dget a ''attempt_id'' = aid) xs = [p]"
  by (auto simp: matching_attempt_def split: list.splits)

lemma valid_record_id: "validate_daemon_event_record r = Inr i \<Longrightarrow> record_id r = i"
  by (auto simp: validate_daemon_event_record_def record_id_def res_simps Let_def split: event_record.splits pyval.splits sum.splits)

lemma rmap_record_ids: "rmap validate_daemon_event_record rs = Inr ids \<Longrightarrow> ids = map record_id rs"
  by (induction rs arbitrary: ids) (auto simp: res_simps valid_record_id)

lemma unused_event_new:
  assumes "unused_event e lg = Inr ()"
  shows "record_id e \<notin> record_id ` set (lg_journal lg)"
proof -
  obtain ids jids i where h: "strict_protocol_journal_event_ids (lg_journal lg) = Inr jids" "validate_daemon_event_record e = Inr i" "i \<notin> set jids"
    using assms by (cases "validate_daemon_event_record e") (auto simp: unused_event_def res_simps)
  have "jids = map record_id (lg_journal lg)"
    using h(1) rmap_record_ids [of "lg_journal lg"] by (auto simp: strict_protocol_journal_event_ids_def res_simps split: sum.splits)
  with h valid_record_id show ?thesis by fastforce
qed

lemma active_states:
  "dget p ''state'' \<in> {PS ''prepared'', PS ''admitting'', PS ''submitted'', PS ''running''} \<Longrightarrow> is_active_attempt p"
  by (auto simp: is_active_attempt_def MISSION_ATTEMPT_ACTIVE_STATES_def)

lemma successor_dputs:
  assumes "set (map fst kvs) \<inter> {''attempt_id'', ''dispatch_key'', ''mission_id'', ''step_id''} = {}" "is_active_attempt p"
    and "dget (dputs kvs p) ''admission_claim_id'' \<in> {PNone, dget p ''admission_claim_id''}
      \<or> dget (dputs kvs p) ''admission_claim_id'' \<notin> (\<lambda>a. dget a ''admission_claim_id'') ` set others"
  shows "successor p (dputs kvs p) others"
proof -
  have "dget (dputs kvs p) k = dget p k" if "k \<in> {''attempt_id'', ''dispatch_key'', ''mission_id'', ''step_id''}" for k
  proof -
    have "k \<notin> set (map fst kvs)" using assms(1) that by blast
    then have "map_of (rev kvs) k = None" by (simp add: map_of_eq_None_iff)
    then show ?thesis by (simp add: dget_dputs)
  qed
  with assms(2,3) show ?thesis unfolding successor_def by blast
qed

lemma single_match: "filter P xs = [x] \<Longrightarrow> P x \<and> x \<in> set xs"
proof -
  assume "filter P xs = [x]"
  then have "x \<in> set (filter P xs)" by simp
  then show ?thesis by simp
qed

lemma claim_kind_of_simps [simp]:
  "claim_kind_of (u ''mission_attempt_admission_claimed'') = Some Ev_claimed"
  "claim_kind_of (u ''mission_attempt_admission_released'') = Some Ev_released"
  "claim_kind_of (u ''mission_attempt_submitted'') = Some Ev_submitted"
  "claim_kind_of (u ''mission_attempt_ambiguous'') = Some Ev_ambiguous"
  by (simp_all add: claim_kind_of.simps)

fun admission_act :: "admission_target \<Rightarrow> pstr \<Rightarrow> act" where
  "admission_act To_admitting c = Act Ev_claimed c"
| "admission_act To_prepared c = Act Ev_released c"

lemma admission_event_action:
  "event_action (protocol_event fe (admission_event t) now (claim_payload (PStr a) (PStr d) v (PStr c))) = Some ((a, d), admission_act t c)"
  by (cases t) (simp_all add: event_action_def protocol_event_def claim_payload_def attempt_key_def)

lemma admission_acts:
  assumes "transition_mission_attempt_admission parse isof fc fe now aid dk target ec lg = Inr (lg', r)"
  obtains a d c where "aid = PStr a" "dk = PStr d" "PStr c = (if target = To_admitting then PStr fc else ec)"
    "ledger_act parse lg (a, d) (admission_act target c) lg'" "attempt_key r = (a, d)"
    "dget r ''state'' = PS (target_name target)" "dget r ''admission_claim_id'' = (if target = To_admitting then PStr fc else PNone)"
    "validate_mission_attempt_record parse r = Inr r"
proof -
  let ?upd = "\<lambda>p. dputs [(''state'', PS (target_name target)),
         (''updated_at'', if target = To_admitting then PStr (isof now) else dget p ''created_at''),
         (''admission_claim_id'', if target = To_admitting then PStr fc else PNone)] p"
  let ?ev = "\<lambda>v. protocol_event fe (admission_event target) now (claim_payload aid dk v (if target = To_admitting then PStr fc else ec))"
  have args: "str_matches ATTEMPT_ID aid" "str_matches DISPATCH_KEY dk" "target = To_prepared \<Longrightarrow> str_matches CLAIM_ID ec"
    using assms unfolding transition_mission_attempt_admission_def Let_def by (auto simp: rfail_if_eq_Inr)
  obtain validated book p v where o: "open_ledger parse lg = Inr (validated, book)"
      and m: "filter (\<lambda>a. dget a ''attempt_id'' = aid) validated = [p]"
      and p: "dget p ''dispatch_key'' = dk" "dget p ''state'' = PS (source_name target)"
      and fresh: "target = To_admitting \<Longrightarrow> PStr fc \<notin> (\<lambda>a. dget a ''admission_claim_id'') ` set validated"
      and v: "validate_mission_attempt_record parse (?upd p) = Inr v"
      and un: "unused_event (?ev v) lg = Inr ()" and cl: "close_ledger validated aid v (?ev v) lg = Inr (lg', r)"
  proof -
    note A = assms [unfolded transition_mission_attempt_admission_def Let_def rfail_if_eq_Inr rbind_eq_Inr case_prod_beta
        matching_attempt_eq_Inr]
    obtain x p v y where h: "open_ledger parse lg = Inr x" "filter (\<lambda>a. dget a ''attempt_id'' = aid) (fst x) = [p]"
        "\<not> dget p ''dispatch_key'' \<noteq> dk" "\<not> dget p ''state'' \<noteq> PS (source_name target)"
        "\<not> (target = To_admitting \<and> (fc \<in> dom (cb_lineage (snd x)) \<or> PStr fc \<in> (\<lambda>a. dget a ''admission_claim_id'') ` set (fst x)))"
        "validate_mission_attempt_record parse (?upd p) = Inr v" "unused_event (?ev v) lg = Inr y"
        "close_ledger (fst x) aid v (?ev v) lg = Inr (lg', r)"
      using A by (elim conjE exE) blast
    then show ?thesis by (cases x) (auto intro!: that)
  qed
  have veq: "v = ?upd p" using valid_attemptD(1) [OF v] .
  have vv: "validate_mission_attempt_record parse v = Inr v" using v veq by simp
  have suc: "successor p v validated"
    unfolding veq
  proof (rule successor_dputs)
    show "is_active_attempt p" using p(2) by (intro active_states) (cases target; simp)
    show "dget (?upd p) ''admission_claim_id'' \<in> {PNone, dget p ''admission_claim_id''}
      \<or> dget (?upd p) ''admission_claim_id'' \<notin> (\<lambda>a. dget a ''admission_claim_id'') ` set validated"
      using fresh by (cases target) (simp_all add: dget_dputs)
  qed simp
  note close = close_ledger_acts [OF o m vv suc cl]
  obtain a d where ad: "aid = PStr a" "dk = PStr d" using args by (auto simp: str_matches_eq)
  obtain c where c: "PStr c = (if target = To_admitting then PStr fc else ec)"
    using args(3) by (cases target) (auto simp: str_matches_eq)
  have "dget p ''attempt_id'' = aid" using single_match [OF m] by simp
  then have key: "attempt_key p = (a, d)" "attempt_key v = (a, d)" using p(1) ad by (simp_all add: attempt_key_def veq py_simps)
  have hr: "history_records lg' = history_records lg @ [?ev v]" using close(6) unused_event_new [OF un] by simp
  have "event_action (?ev v) = Some ((a, d), admission_act target c)" unfolding ad c [symmetric] by (rule admission_event_action)
  then have "ledger_act parse lg (a, d) (admission_act target c) lg'" using ledger_act_snoc [OF close(2,3) hr] by simp
  moreover have "dget v ''state'' = PS (target_name target)" "dget v ''admission_claim_id'' = (if target = To_admitting then PStr fc else PNone)"
    by (simp_all add: veq py_simps)
  ultimately show ?thesis using that [OF ad c] key(2) vv unfolding close(1) by simp
qed

fun receipt_kind :: "receipt_target \<Rightarrow> claim_kind" where
  "receipt_kind To_submitted = Ev_submitted"
| "receipt_kind To_ambiguous = Ev_ambiguous"

fun receipt_phase :: "receipt_target \<Rightarrow> pstr \<Rightarrow> phase" where
  "receipt_phase To_submitted c = Sent c"
| "receipt_phase To_ambiguous c = Lost c"

lemma receipt_event_action:
  "event_action (receipt_event fe now t (PStr a) (PStr d) v (PStr c) observed reason) = Some ((a, d), Act (receipt_kind t) c)"
  by (cases t) (simp_all add: event_action_def receipt_event_def protocol_event_def claim_payload_def attempt_key_def)

lemma phase_act_receipt: "phase_act (Act (receipt_kind t) c) p = Some q \<Longrightarrow> q = receipt_phase t c"
  by (cases t; cases p) (auto split: if_splits)

lemma fits_receipt:
  "fits p v \<Longrightarrow> dget v ''state'' = PS (receipt_state t) \<Longrightarrow> dget v ''admission_claim_id'' = PStr c \<Longrightarrow> p = receipt_phase t c"
  by (cases t; cases p) auto

text \<open>A receipt leaves its attempt submitted or ambiguous under the claim it names, and no other attempt changes.\<close>

lemma receipt_acts:
  assumes "transition_mission_attempt_receipt parse isof fe now aid dk ec observed summary target reason lg = Inr (lg', r)"
  obtains a d c where "aid = PStr a" "dk = PStr d" "ec = PStr c" "ledger_ok parse lg" "ledger_ok parse lg'"
    "ledger_phase lg (a, d) \<in> {Held c, Sent c, Lost c}" "ledger_phase lg' (a, d) = receipt_phase target c"
    "\<And>k. k \<noteq> (a, d) \<Longrightarrow> ledger_phase lg' k = ledger_phase lg k" "attempt_key r = (a, d)"
    "dget r ''state'' = PS (receipt_state target)"
proof -
  let ?er = "if target = To_ambiguous then reason else PNone"
  let ?upd = "\<lambda>p. dputs [(''state'', PS (receipt_state target)), (''updated_at'', PStr (isof now)), (''receipt_summary'', summary),
           (''blocker'', ?er), (''terminal_reason'', ?er)] p"
  let ?ev = "\<lambda>v. receipt_event fe now target aid dk v ec observed reason"
  note A = assms [unfolded transition_mission_attempt_receipt_def Let_def rfail_if_eq_Inr rbind_eq_Inr case_prod_beta
      matching_attempt_eq_Inr]
  obtain z x p where args: "receipt_arguments_ok aid dk ec observed summary target reason = Inr z"
      and x: "open_ledger parse lg = Inr x" and m: "filter (\<lambda>a. dget a ''attempt_id'' = aid) (fst x) = [p]"
      and p: "\<not> dget p ''dispatch_key'' \<noteq> dk" "\<not> dget p ''admission_claim_id'' \<noteq> ec"
      and rest: "(if dget p ''state'' = PS (receipt_state target) then
        (if dget p ''receipt_summary'' = summary \<and> dget p ''blocker'' = ?er \<and> dget p ''terminal_reason'' = ?er
         then Inr (lg, p) else Inl (ValueError ''mission attempt receipt conflict''))
      else
        rfail_if (dget p ''state'' \<notin> set (map PS (receipt_source_states target reason)))
          (ValueError ''mission attempt receipt transition is invalid'')
        (rfail_if (target = To_ambiguous \<and> dget p ''state'' = PS ''submitted''
            \<and> dget p ''receipt_summary'' \<noteq> summary) (ValueError ''mission attempt receipt conflict'')
        (rbind (validate_mission_attempt_record parse (?upd p)) (\<lambda>v.
         rbind (unused_event (?ev v) lg) (\<lambda>_.
         close_ledger (fst x) aid v (?ev v) lg))))) = Inr (lg', r)"
    using A by (elim conjE exE) blast
  obtain validated book where xx: "x = (validated, book)" by (cases x)
  note o = x [unfolded xx] and m = m [unfolded xx fst_conv]
  obtain a d c where adc: "aid = PStr a" "dk = PStr d" "ec = PStr c"
    using args by (auto simp: receipt_arguments_ok_def rfail_if_eq_Inr str_matches_eq)
  have pm: "p \<in> set validated" "dget p ''attempt_id'' = aid" using single_match [OF m] by simp_all
  have key: "attempt_key p = (a, d)" using pm(2) p(1) adc by (simp add: attempt_key_def)
  have fp: "fits (ledger_phase lg (a, d)) p" using open_ledger_phase(3) [OF o pm(1)] key by simp
  have ok: "ledger_ok parse lg" using o by (simp add: ledger_ok_def)
  show ?thesis
  proof (cases "dget p ''state'' = PS (receipt_state target)")
    case True
    then have e: "lg' = lg" "r = p" using rest by (simp_all split: if_splits)
    have ph: "ledger_phase lg (a, d) = receipt_phase target c" using fits_receipt [OF fp True] p(2) adc(3) by simp
    then have "ledger_phase lg (a, d) \<in> {Held c, Sent c, Lost c}" by (cases target) simp_all
    with that [OF adc] ok ph key True show ?thesis unfolding e by simp
  next
    case False
    obtain v where st: "dget p ''state'' \<in> set (map PS (receipt_source_states target reason))"
        and v: "validate_mission_attempt_record parse (?upd p) = Inr v"
        and un: "unused_event (?ev v) lg = Inr ()" and cl: "close_ledger validated aid v (?ev v) lg = Inr (lg', r)"
      using rest [unfolded if_not_P [OF False] rfail_if_eq_Inr rbind_eq_Inr xx fst_conv] by auto
    have veq: "v = ?upd p" using valid_attemptD(1) [OF v] .
    have vv: "validate_mission_attempt_record parse v = Inr v" using v veq by simp
    have "dget p ''state'' \<in> {PS ''admitting'', PS ''submitted''}"
      using st unfolding receipt_source_states_def by (auto split: if_splits)
    then have "is_active_attempt p" by (intro active_states) blast
    then have suc: "successor p v validated" unfolding veq by (rule successor_dputs [rotated]) (simp_all add: dget_dputs)
    note close = close_ledger_acts [OF o m vv suc cl]
    have hr: "history_records lg' = history_records lg @ [?ev v]" using close(6) unused_event_new [OF un] by simp
    have "event_action (?ev v) = Some ((a, d), Act (receipt_kind target) c)" unfolding adc by (rule receipt_event_action)
    from ledger_act_snoc [OF close(2,3) hr this] have la: "ledger_act parse lg (a, d) (Act (receipt_kind target) c) lg'" .
    then have ph: "phase_act (Act (receipt_kind target) c) (ledger_phase lg (a, d)) = Some (ledger_phase lg' (a, d))"
        and oth: "\<And>k. k \<noteq> (a, d) \<Longrightarrow> ledger_phase lg' k = ledger_phase lg k"
      unfolding ledger_act_def by blast+
    have "ledger_phase lg (a, d) \<in> {Held c, Sent c, Lost c}"
      using ph by (cases target; cases "ledger_phase lg (a, d)") (auto split: if_splits)
    moreover have "attempt_key v = (a, d)" using key by (simp add: attempt_key_def veq py_simps)
    moreover have "dget v ''state'' = PS (receipt_state target)" by (simp add: veq py_simps)
    ultimately show ?thesis using that [OF adc close(2,3)] phase_act_receipt [OF ph] oth unfolding close(1) by blast
  qed
qed

lemma interrupt_acts:
  assumes "interrupt_prepared_mission_attempt parse isof fe now aid dk ts reason lg = Inr (lg', r)"
  obtains a d s where "aid = PStr a" "dk = PStr d" "ts = PStr s" "ledger_act parse lg (a, d) (Act_stop s) lg'" "attempt_key r = (a, d)"
proof -
  let ?upd = "\<lambda>p. dputs [(''state'', ts), (''updated_at'', PStr (isof now)), (''terminal_reason'', reason)] p"
  let ?ev = "\<lambda>v. protocol_event fe ''mission_attempt_pre_dispatch_stopped'' now
                [(''attempt_id'', aid), (''mission_id'', dget v ''mission_id''), (''step_id'', dget v ''step_id''),
                 (''dispatch_key'', dk), (''state'', ts), (''reason'', reason)]"
  note A = assms [unfolded interrupt_prepared_mission_attempt_def Let_def rfail_if_eq_Inr rbind_eq_Inr case_prod_beta in_names_eq_Inr]
  obtain x where args: "str_matches ATTEMPT_ID aid" "str_matches DISPATCH_KEY dk" "ts \<in> set (map PS [''cancelled'', ''interrupted''])"
      and x: "open_ledger parse lg = Inr x"
      and rest: "(case filter (\<lambda>a. dget a ''attempt_id'' = aid) (fst x) of
         [p] \<Rightarrow>
           rfail_if (dget p ''dispatch_key'' \<noteq> dk \<or> dget p ''state'' \<noteq> PS ''prepared''
             \<or> dget p ''admission_claim_id'' \<noteq> PNone \<or> dget p ''receipt_summary'' \<noteq> PNone) (ValueError ''mission attempt pre-dispatch stop is invalid'')
           (rbind (validate_mission_attempt_record parse (?upd p)) (\<lambda>v. close_ledger (fst x) aid v (?ev v) lg))
       | _ \<Rightarrow> Inl KeyError) = Inr (lg', r)"
    using A by (elim conjE exE) blast
  obtain validated book where xx: "x = (validated, book)" by (cases x)
  note o = x [unfolded xx]
  obtain p v where m: "filter (\<lambda>a. dget a ''attempt_id'' = aid) validated = [p]"
      and p: "dget p ''dispatch_key'' = dk" "dget p ''state'' = PS ''prepared''"
      and v: "validate_mission_attempt_record parse (?upd p) = Inr v" and cl: "close_ledger validated aid v (?ev v) lg = Inr (lg', r)"
    using rest unfolding xx fst_conv by (auto simp: res_simps split: list.splits)
  obtain a d where ad: "aid = PStr a" "dk = PStr d" using args(1,2) by (auto simp: str_matches_eq)
  obtain s where s: "ts = PStr s" "ts \<in> {PS ''cancelled'', PS ''interrupted''}" using args(3) by auto
  have veq: "v = ?upd p" using valid_attemptD(1) [OF v] .
  have vv: "validate_mission_attempt_record parse v = Inr v" using v veq by simp
  have "is_active_attempt p" using p(2) by (intro active_states) simp
  then have suc: "successor p v validated" unfolding veq by (rule successor_dputs [rotated]) (simp_all add: dget_dputs)
  note close = close_ledger_acts [OF o m vv suc cl]
  have "dget p ''attempt_id'' = aid" using single_match [OF m] by simp
  then have key: "attempt_key p = (a, d)" "attempt_key v = (a, d)" using p(1) ad by (simp_all add: attempt_key_def veq py_simps)
  have "record_id (?ev v) \<notin> record_id ` set (lg_journal lg)"
  proof
    assume "record_id (?ev v) \<in> record_id ` set (lg_journal lg)"
    then have "ledger_phase lg' (a, d) = ledger_phase lg (a, d)" using close(6) by (simp add: ledger_phase_def)
    moreover have "fits (ledger_phase lg (a, d)) p" "fits (ledger_phase lg' (a, d)) v" using close(4,5) key by simp_all
    moreover have "dget v ''state'' = ts" by (simp add: veq py_simps)
    ultimately show False using p(2) s(2) by (cases "ledger_phase lg (a, d)") auto
  qed
  then have hr: "history_records lg' = history_records lg @ [?ev v]" using close(6) by simp
  have "event_action (?ev v) = Some ((a, d), Act_stop s)"
    by (simp add: event_action_def protocol_event_def attempt_key_def ad s(1))
  from ledger_act_snoc [OF close(2,3) hr this] that [OF ad s(1)] key(2) show ?thesis unfolding close(1) by blast
qed

section \<open>The history shows at most one open claim\<close>

definition claims_taken :: "act list \<Rightarrow> nat" where
  "claims_taken acts = length (filter (\<lambda>a. case a of Act Ev_claimed _ \<Rightarrow> True | _ \<Rightarrow> False) acts)"

definition claims_released :: "act list \<Rightarrow> nat" where
  "claims_released acts = length (filter (\<lambda>a. case a of Act Ev_released _ \<Rightarrow> True | _ \<Rightarrow> False) acts)"

text \<open>An attempt whose Worker may have been asked: its claim is held, submitted or lost.\<close>

fun engaged :: "phase \<Rightarrow> bool" where
  "engaged (Held _) = True"
| "engaged (Sent _) = True"
| "engaged (Lost _) = True"
| "engaged _ = False"

lemma phase_act_counts:
  assumes "phase_act a p = Some q"
  shows "claims_taken [a] + (if engaged p then 1 else 0) = claims_released [a] + (if engaged q then 1 else 0)"
  using assms by (induction a p rule: phase_act.induct) (auto simp: claims_taken_def claims_released_def split: if_splits)

lemma run_acts_counts:
  "run_acts acts p = Some q \<Longrightarrow>
     claims_taken acts + (if engaged p then 1 else 0) = claims_released acts + (if engaged q then 1 else 0)"
proof (induction acts arbitrary: p)
  case (Cons a acts)
  then obtain p' where p': "phase_act a p = Some p'" "run_acts acts p' = Some q" by (auto simp: bind_eq_Some_conv)
  have "claims_taken (a # acts) = claims_taken [a] + claims_taken acts"
    "claims_released (a # acts) = claims_released [a] + claims_released acts"
    by (simp_all add: claims_taken_def claims_released_def)
  with phase_act_counts [OF p'(1)] Cons.IH [OF p'(2)] show ?case by linarith
qed (simp add: claims_taken_def claims_released_def)

text \<open>
  C12: (Refinement.) When \<^verbatim>\<open>_validate_mission_admission_claim_history\<close> accepts a history for a list
  of valid attempt records, the events of every attempt, taken out of the interleaving, are a run of the
  admission automaton: a claim is taken only when none is open, a submission and an unknown outcome
  need the open claim, and nothing follows a stop before dispatch. Along that run the claims taken are
  those released, plus one exactly when the attempt is engaged at the end; and the state and the claim
  id of every attempt record are those of the phase its events end in.
\<close>

theorem claim_history_refines_automaton:
  assumes "validate_mission_admission_claim_history records attempts = Inr book"
    and "\<forall>a\<in>set attempts. validate_mission_attempt_record parse a = Inr a"
  shows "(\<forall>key. run_acts (actions_on key records) Idle = Some (phase_of book key)
           \<and> claims_taken (actions_on key records)
             = claims_released (actions_on key records) + (if engaged (phase_of book key) then 1 else 0))
         \<and> (\<forall>a\<in>set attempts. fits (phase_of book (attempt_key a)) a)"
proof (intro conjI)
  have "run_acts (actions_on key records) Idle = Some (phase_of book key)" for key by (rule history_refines(2) [OF assms(1)])
  then show "\<forall>key. run_acts (actions_on key records) Idle = Some (phase_of book key)
           \<and> claims_taken (actions_on key records)
             = claims_released (actions_on key records) + (if engaged (phase_of book key) then 1 else 0)"
    using run_acts_counts [of _ Idle] by fastforce
  show "\<forall>a\<in>set attempts. fits (phase_of book (attempt_key a)) a"
    using agreeing_attempt_fits history_refines(1,3) [OF assms(1)] assms(2) by (metis list_all_iff)
qed

section \<open>A concrete ledger\<close>

text \<open>Identifiers for examples, and a clock that reads every time as the same instant.\<close>

definition ex_id :: "string \<Rightarrow> nat \<Rightarrow> pstr" where
  "ex_id p n = u p @ replicate n 48"

definition ex_parse :: "pstr \<Rightarrow> int option" where
  "ex_parse s = Some 1"

definition ex_isof :: "int \<Rightarrow> pstr" where
  "ex_isof n = u ''t''"

lemma ex_ids [simp]:
  "ATTEMPT_ID (ex_id ''mat_'' 12)" "MISSION_ID (ex_id ''mis_'' 12)" "DISPATCH_KEY (ex_id ''dsp_'' 32)"
  "CLAIM_ID (ex_id ''adm_'' 12)" "SNAPSHOT_HASH (ex_id ''sha256:'' 64)"
  "STEP_ID (u ''step_1'')"
  by (simp_all add: ATTEMPT_ID_def MISSION_ID_def STEP_ID_def DISPATCH_KEY_def CLAIM_ID_def SNAPSHOT_HASH_def SHA256_def
      ex_id_def u_def is_hex_def is_digit_def list_all_length)

lemma ex_event_id [simp]: "0 < n \<Longrightarrow> n \<le> 128 \<Longrightarrow> EVENT_ID (ex_id ''evt_'' n)"
  by (cases n) (simp_all add: EVENT_ID_def CLIENT_ID_def ex_id_def u_def is_digit_def list_all_length)

lemma ex_id_eq [simp]: "ex_id p m = ex_id p n \<longleftrightarrow> m = n"
  by (simp add: ex_id_def)

definition ex_attempt :: pyval where
  "ex_attempt = pdict
    [(''attempt_id'', PStr (ex_id ''mat_'' 12)), (''mission_id'', PStr (ex_id ''mis_'' 12)), (''step_id'', PS ''step_1''),
     (''agent_id'', PS ''coder''), (''configured_transport'', PS ''tmux''), (''dispatch_key'', PStr (ex_id ''dsp_'' 32)),
     (''admission_claim_id'', PNone), (''snapshot_hash'', PStr (ex_id ''sha256:'' 64)), (''state'', PS ''prepared''),
     (''created_at'', PS ''t''), (''updated_at'', PS ''t''), (''receipt_summary'', PNone), (''blocker'', PNone), (''terminal_reason'', PNone)]"

definition ex_ledger :: ledger where
  "ex_ledger = \<lparr>lg_attempts = PList [ex_attempt], lg_outbox = Some [], lg_journal = []\<rparr>"

lemma ex_attempt_get [simp]:
  "dget ex_attempt ''attempt_id'' = PStr (ex_id ''mat_'' 12)" "dget ex_attempt ''mission_id'' = PStr (ex_id ''mis_'' 12)"
  "dget ex_attempt ''step_id'' = PS ''step_1''" "dget ex_attempt ''agent_id'' = PS ''coder''"
  "dget ex_attempt ''configured_transport'' = PS ''tmux''" "dget ex_attempt ''dispatch_key'' = PStr (ex_id ''dsp_'' 32)"
  "dget ex_attempt ''admission_claim_id'' = PNone" "dget ex_attempt ''snapshot_hash'' = PStr (ex_id ''sha256:'' 64)"
  "dget ex_attempt ''state'' = PS ''prepared''" "dget ex_attempt ''created_at'' = PS ''t''" "dget ex_attempt ''updated_at'' = PS ''t''"
  "dget ex_attempt ''receipt_summary'' = PNone" "dget ex_attempt ''blocker'' = PNone" "dget ex_attempt ''terminal_reason'' = PNone"
  "is_dict ex_attempt" "dkeys ex_attempt = MISSION_ATTEMPT_FIELDS" "\<not> dhas ex_attempt ''semantic_step_hash''"
  by (simp_all add: ex_attempt_def MISSION_ATTEMPT_FIELDS_def)

lemma dkeys_dputs: "set (map fst kvs) \<subseteq> K \<Longrightarrow> dkeys d = u ` K \<Longrightarrow> dkeys (dputs kvs d) = u ` K"
proof (induction kvs d rule: dputs.induct)
  case (2 k v kvs d)
  then have "dkeys (dput k v d) = u ` K" by (auto simp: dkeys_def dput_def keys_dict_put)
  with 2 show ?case by simp
qed simp

lemma dhas_dputs: "dhas (dputs kvs d) k \<longleftrightarrow> k \<in> fst ` set kvs \<or> dhas d k"
  by (induction kvs d rule: dputs.induct) auto

lemma ex_attempt_valid [simp]: "validate_mission_attempt_record ex_parse ex_attempt = Inr ex_attempt"
  unfolding validate_mission_attempt_record_def Let_def
  by (simp add: in_names_def MISSION_ATTEMPT_STATES_def attempt_state_consistent_def pre_dispatch_stopped_def ex_parse_def)


definition ex_claimed :: pyval where
  "ex_claimed = dputs [(''state'', PS ''admitting''), (''updated_at'', PS ''t''), (''admission_claim_id'', PStr (ex_id ''adm_'' 12))] ex_attempt"

definition ex_claim_event :: event_record where
  "ex_claim_event = protocol_event (ex_id ''evt_'' 12) ''mission_attempt_admission_claimed'' 7
     (claim_payload (PStr (ex_id ''mat_'' 12)) (PStr (ex_id ''dsp_'' 32)) ex_claimed (PStr (ex_id ''adm_'' 12)))"

lemma ex_claimed_get [simp]:
  "dget ex_claimed k = (if k = ''state'' then PS ''admitting'' else if k = ''updated_at'' then PS ''t''
     else if k = ''admission_claim_id'' then PStr (ex_id ''adm_'' 12) else dget ex_attempt k)"
  "is_dict ex_claimed" "dkeys ex_claimed = MISSION_ATTEMPT_FIELDS" "\<not> dhas ex_claimed ''semantic_step_hash''"
proof -
  show "dkeys ex_claimed = MISSION_ATTEMPT_FIELDS"
    unfolding ex_claimed_def MISSION_ATTEMPT_FIELDS_def
    by (rule dkeys_dputs) (simp_all only: ex_attempt_get MISSION_ATTEMPT_FIELDS_def, simp)
qed (simp_all add: ex_claimed_def dget_dputs dhas_dputs)

lemma ex_claimed_valid [simp]: "validate_mission_attempt_record ex_parse ex_claimed = Inr ex_claimed"
  unfolding validate_mission_attempt_record_def Let_def
  by (simp add: in_names_def MISSION_ATTEMPT_STATES_def attempt_state_consistent_def pre_dispatch_stopped_def ex_parse_def)

lemma no_surrogate_u [simp]: "no_surrogate (u s)"
proof -
  have "\<not> 55296 \<le> (of_char c :: nat)" for c
  proof -
    have "of_char c < (256 :: nat)" by simp
    then show ?thesis by linarith
  qed
  then show ?thesis by (auto simp: no_surrogate_def u_def list_all_iff)
qed

lemma no_surrogate_ex_id [simp]: "no_surrogate (ex_id p n)"
  using no_surrogate_u [of p] by (auto simp: ex_id_def no_surrogate_def list_all_iff)

text \<open>An event with a flat payload of strings and nulls is storable.\<close>

definition flat_text :: "(string \<times> pyval) list \<Rightarrow> bool" where
  "flat_text payload \<longleftrightarrow> list_all (\<lambda>(k, v). v = PNone \<or> str_matches no_surrogate v) payload"

lemma freeze_items_flat: "flat_text payload \<Longrightarrow> is_ok (freeze_items 1 (map (\<lambda>(k, v). (u k, v)) payload))"
proof (induction payload)
  case (Cons kv payload)
  obtain k v where kv: "kv = (k, v)" by (cases kv)
  have "is_ok (freeze_json 1 v)" using Cons.prems by (auto simp: kv flat_text_def str_matches_eq)
  moreover have "is_ok (freeze_items 1 (map (\<lambda>(k, v). (u k, v)) payload))" using Cons by (simp add: flat_text_def)
  ultimately show ?case by (auto simp: kv is_ok_iff)
qed simp

lemma protocol_event_valid:
  assumes "EVENT_ID fe" "EVENT_TYPE (u ty)" "flat_text payload"
  shows "validate_daemon_event_record (protocol_event fe ty now payload) = Inr fe"
proof -
  have "list_all (\<lambda>(k, _). no_surrogate k) (map (\<lambda>(k, v). (u k, v)) payload)" by (induction payload) auto
  moreover obtain ys where "freeze_items 1 (map (\<lambda>(k, v). (u k, v)) payload) = Inr ys"
    using freeze_items_flat [OF assms(3)] by (auto simp: is_ok_iff)
  ultimately have "freeze_json 0 (pdict payload) = Inr (FProxy ys)" by (simp add: pdict_def)
  with assms(1,2) show ?thesis
    by (simp add: protocol_event_def validate_daemon_event_record_def pdict_def parse_timestamp_def Let_def)
qed

lemma event_types [simp]:
  "EVENT_TYPE (u ''mission_attempt_admission_claimed'')" "EVENT_TYPE (u ''mission_attempt_submitted'')"
  "EVENT_TYPE (u ''mission_attempt_ambiguous'')" "EVENT_TYPE (u ''mission_attempt_admission_released'')"
  by (simp_all add: EVENT_TYPE_def u_def is_lower_def)

lemma ex_claim_event_valid [simp]: "validate_daemon_event_record ex_claim_event = Inr (ex_id ''evt_'' 12)"
  unfolding ex_claim_event_def by (rule protocol_event_valid) (simp_all add: flat_text_def claim_payload_def)

lemma attempt_by_lineage_single [simp]: "attempt_by_lineage [a] k = (if k = attempt_key a then Some a else None)"
  by (simp add: attempt_by_lineage_def)

lemma ex_claim_history:
  obtains book where "validate_mission_admission_claim_history [ex_claim_event] [ex_claimed] = Inr book"
proof -
  let ?k = "(ex_id ''mat_'' 12, ex_id ''dsp_'' 32)" and ?c = "ex_id ''adm_'' 12"
  have key: "attempt_key ex_claimed = ?k" by (simp add: attempt_key_def)
  have "claim_step [ex_claimed] Ev_claimed (pdict (claim_payload (PStr (ex_id ''mat_'' 12)) (PStr (ex_id ''dsp_'' 32)) ex_claimed (PStr ?c))) empty_book
    = Inr (book_put ?c ?k Claimed (empty_book\<lparr>cb_claims := (\<lambda>_. [])(?k := [?c])\<rparr>))"
    by (simp add: claim_step_def claim_payload_def MISSION_CLAIM_EVENT_FIELDS.simps key attempt_key_def Let_def empty_book_def
        open_claim_def book_put_def)
  then have "history_step [ex_claimed] ex_claim_event empty_book = Inr (book_put ?c ?k Claimed (empty_book\<lparr>cb_claims := (\<lambda>_. [])(?k := [?c])\<rparr>))"
    unfolding history_step_def ex_claim_event_valid
    by (simp add: ex_claim_event_def protocol_event_def)
  then show ?thesis
    using that by (simp add: validate_mission_admission_claim_history_def attempt_agrees_def key expected_stage_def Let_def)
qed

theorem claim_history_refines_automaton_witness:
  "\<exists>book. validate_mission_admission_claim_history [ex_claim_event] [ex_claimed] = Inr book
     \<and> engaged (phase_of book (attempt_key ex_claimed))
     \<and> claims_taken (actions_on (attempt_key ex_claimed) [ex_claim_event]) = 1"
proof -
  obtain book where b: "validate_mission_admission_claim_history [ex_claim_event] [ex_claimed] = Inr book"
    by (rule ex_claim_history)
  note t = claim_history_refines_automaton [OF b, of ex_parse]
  have "fits (phase_of book (attempt_key ex_claimed)) ex_claimed" using t by simp
  then have "engaged (phase_of book (attempt_key ex_claimed))" by (cases "phase_of book (attempt_key ex_claimed)") simp_all
  moreover have "claims_taken (actions_on (attempt_key ex_claimed) [ex_claim_event]) = 1"
    by (simp add: actions_on_def ex_claim_event_def protocol_event_def event_action_def claim_payload_def attempt_key_def claims_taken_def)
  ultimately show ?thesis using b by blast
qed

end
