(* ===== verification/Worker_Reply.thy ===== *)
theory Worker_Reply
  imports Attempt_Ledger Review_Verdict
begin

text \<open>
  The structured reply of a Worker (\<^verbatim>\<open>src/agentdeck/workflow.py\<close>): reading it out of terminal output
  or a reply file, printing it, and the canonical handoff record that every transport turns it into;
  and how the daemon (\<^verbatim>\<open>src/agentdeck/daemon/service.py\<close>) projects a transport result onto that record.

  The lemmas show that a printed reply is read back whatever text stands before it, and that the handoff
  validator accepts exactly the compact form of what the builder makes.
\<close>

section \<open>Reply blocks\<close>

definition REPLY_FIELDS :: "string list" where
  "REPLY_FIELDS = [''handoff_token'', ''status'', ''summary'', ''verification'', ''risks'', ''next_steps'']"

definition REPLY_STATUSES :: "string list" where
  "REPLY_STATUSES = [''completed'', ''blocked'', ''failed'']"

text \<open>The bullets that a terminal user interface puts in front of a line: U+2022, U+203A and U+23FA with a blank.\<close>

definition tui_prefixes :: "pstr list" where
  "tui_prefixes = [[8226, 32], [8250, 32], [9210, 32]]"

definition strip_tui_prefix :: "pstr \<Rightarrow> pstr" where
  "strip_tui_prefix line =
     (case find (\<lambda>p. py_startswith line p) tui_prefixes of
        None \<Rightarrow> line
      | Some p \<Rightarrow> dropWhile is_space (drop (length p) line))"

text \<open>\<^verbatim>\<open>line.partition(":")\<close>.\<close>

definition before_colon :: "pstr \<Rightarrow> pstr" where
  "before_colon line = takeWhile (\<lambda>c. c \<noteq> 58) line"

definition after_colon :: "pstr \<Rightarrow> pstr" where
  "after_colon line = drop (Suc (length (before_colon line))) line"

record reply_scan =
  rs_blocks :: "(pstr \<times> pstr) list list"
  rs_current :: "(pstr \<times> pstr) list option"
  rs_pending :: "pstr option"

definition value_of :: "(pstr \<times> pstr) list \<Rightarrow> pstr \<Rightarrow> pstr" where
  "value_of blk key = (case map_of blk key of None \<Rightarrow> [] | Some v \<Rightarrow> v)"

definition scan_line :: "pstr \<Rightarrow> reply_scan \<Rightarrow> reply_scan" where
  "scan_line raw_line s =
     (let line = strip_tui_prefix (py_strip raw_line) in
      if py_startswith line (u ''handoff_token:'') then
        s\<lparr>rs_blocks := rs_blocks s @ (case rs_current s of None \<Rightarrow> [] | Some blk \<Rightarrow> [blk]),
          rs_current := Some [(u ''handoff_token'', py_strip (after_colon line))], rs_pending := None\<rparr>
      else case rs_current s of
        None \<Rightarrow> s
      | Some blk \<Rightarrow>
          let key = py_strip (before_colon line); v = py_strip (after_colon line) in
          if 58 \<in> set line \<and> key \<in> set (map u (REPLY_FIELDS @ [''full_output_path''])) then
            s\<lparr>rs_current := Some (dict_put key v blk), rs_pending := (if v = [] then Some key else None)\<rparr>
          else case rs_pending s of
            None \<Rightarrow> s
          | Some pending \<Rightarrow>
              if line = [] then s\<lparr>rs_pending := None\<rparr>
              else s\<lparr>rs_current := Some (dict_put pending
                (if value_of blk pending \<noteq> [] then py_strip (value_of blk pending @ [32] @ line) else line) blk)\<rparr>)"

definition reply_blocks :: "pstr \<Rightarrow> (pstr \<times> pstr) list list" where
  "reply_blocks output =
     (let s = fold scan_line (splitlines output) \<lparr>rs_blocks = [], rs_current = None, rs_pending = None\<rparr>
      in rs_blocks s @ (case rs_current s of None \<Rightarrow> [] | Some blk \<Rightarrow> [blk]))"

section \<open>The fields of a reply\<close>

fun fields_ok :: "string list \<Rightarrow> pyval \<Rightarrow> bool" where
  "fields_ok names reply = list_all (\<lambda>k. str_matches (\<lambda>s. py_strip s \<noteq> []) (dget reply k)) names"

definition validated_compact_reply :: "pyval \<Rightarrow> py_exn + pyval" where
  "validated_compact_reply reply =
     rfail_if (\<not> is_dict reply) (ValueError ''worker reply must be an object'')
     (rbind (in_names (dget reply ''status'') REPLY_STATUSES) (\<lambda>known.
     rfail_if (\<not> known) (ValueError ''invalid workflow reply status'')
     (rfail_if (\<not> fields_ok [''summary'', ''verification'', ''risks'', ''next_steps''] reply)
       (ValueError ''worker reply field must be a non-empty string'')
     (Inr (pdict (map (\<lambda>k. (k, dget reply k)) [''status'', ''summary'', ''verification'', ''risks'', ''next_steps'']))))))"

definition validate_correlated_workflow_reply :: "pyval \<Rightarrow> pyval \<Rightarrow> py_exn + pyval" where
  "validate_correlated_workflow_reply reply expected =
     rfail_if (\<not> str_matches (\<lambda>s. s \<noteq> []) expected) (ValueError ''workflow handoff token is invalid'')
     (rfail_if (\<not> is_dict reply \<or> dget reply ''handoff_token'' \<noteq> expected) (ValueError ''workflow handoff token does not match'')
     (rbind (validated_compact_reply reply) (\<lambda>compact.
     Inr (PDict ((u ''handoff_token'', expected) # dict_items compact)))))"

definition block_value :: "(pstr \<times> pstr) list \<Rightarrow> pyval" where
  "block_value blk = PDict (map (\<lambda>(k, v). (k, PStr v)) blk)"

definition parse_correlated_reply :: "pstr \<Rightarrow> pstr \<Rightarrow> py_exn + (pstr \<times> pstr) list option" where
  "parse_correlated_reply output token =
     (case filter (\<lambda>blk. map_of blk (u ''handoff_token'') = Some token) (reply_blocks output) of
        [] \<Rightarrow> Inr None
      | b # bs \<Rightarrow>
          let reply = last (b # bs) in
          if list_ex (\<lambda>k. value_of reply (u k) = []) REPLY_FIELDS then Inr None
          else rbind (validate_correlated_workflow_reply (block_value reply) (PStr token)) (\<lambda>_. Inr (Some reply)))"

text \<open>\<^verbatim>\<open>_structured_reply_text\<close>: the reply as lines; \<^verbatim>\<open>full_output_path\<close> only when it is there.\<close>

definition reply_line :: "(pstr \<times> pstr) list \<Rightarrow> string \<Rightarrow> pstr" where
  "reply_line reply k = u k @ [58, 32] @ value_of reply (u k)"

definition structured_reply_text :: "(pstr \<times> pstr) list \<Rightarrow> pstr" where
  "structured_reply_text reply =
     py_join [10] (map (reply_line reply)
       (REPLY_FIELDS @ (if value_of reply (u ''full_output_path'') \<noteq> [] then [''full_output_path''] else [])))"

section \<open>The canonical handoff\<close>

definition MAX_CANONICAL_HANDOFF_BYTES :: nat where
  "MAX_CANONICAL_HANDOFF_BYTES = 32 * 1024"

definition MAX_CANONICAL_HANDOFF_ITEMS :: nat where
  "MAX_CANONICAL_HANDOFF_ITEMS = 64"

definition CANONICAL_HANDOFF_FIELDS :: "string list" where
  "CANONICAL_HANDOFF_FIELDS = REPLY_FIELDS @ [''artifacts'', ''trace_ids'']"

record canonical_artifact =
  ar_path :: pstr
  ar_content_hash :: "pstr option"

record canonical_handoff =
  ho_token :: pstr
  ho_status :: pstr
  ho_summary :: pstr
  ho_verification :: pstr
  ho_risks :: pstr
  ho_next_steps :: pstr
  ho_artifacts :: "canonical_artifact list"
  ho_trace_ids :: "pstr list"

definition artifact_value :: "canonical_artifact \<Rightarrow> pyval" where
  "artifact_value a = pdict [(''path'', PStr (ar_path a)),
     (''content_hash'', case ar_content_hash a of None \<Rightarrow> PNone | Some h \<Rightarrow> PStr h)]"

definition compact :: "canonical_handoff \<Rightarrow> pyval" where
  "compact h = pdict
     [(''handoff_token'', PStr (ho_token h)), (''status'', PStr (ho_status h)), (''summary'', PStr (ho_summary h)),
      (''verification'', PStr (ho_verification h)), (''risks'', PStr (ho_risks h)), (''next_steps'', PStr (ho_next_steps h)),
      (''artifacts'', PList (map artifact_value (ho_artifacts h))), (''trace_ids'', PList (map PStr (ho_trace_ids h)))]"

definition compact_artifact :: "bool \<Rightarrow> pyval \<Rightarrow> py_exn + canonical_artifact" where
  "compact_artifact require_hashes artifact =
     (let bad = ValueError ''worker artifact evidence is invalid'' in
      rfail_if (\<not> is_dict artifact \<or> dkeys artifact \<noteq> u ` {''path'', ''content_hash''}) bad
      (case dget artifact ''path'' of
         PStr path \<Rightarrow>
           rfail_if (path = []) bad
           (case dget artifact ''content_hash'' of
              PNone \<Rightarrow> rfail_if require_hashes bad (Inr \<lparr>ar_path = path, ar_content_hash = None\<rparr>)
            | PStr h \<Rightarrow> rfail_if (\<not> SNAPSHOT_HASH h) bad (Inr \<lparr>ar_path = path, ar_content_hash = Some h\<rparr>)
            | _ \<Rightarrow> Inl bad)
       | _ \<Rightarrow> Inl bad))"

definition build_canonical_handoff :: "pyval \<Rightarrow> pyval \<Rightarrow> pyval \<Rightarrow> pyval \<Rightarrow> bool \<Rightarrow> py_exn + canonical_handoff" where
  "build_canonical_handoff reply artifacts trace_ids expected require_hashes =
     rbind (validate_correlated_workflow_reply reply expected) (\<lambda>correlated.
     rfail_if (\<not> is_list artifacts) (ValueError ''worker artifacts must be a list'')
     (rbind (rmap (compact_artifact require_hashes) (list_items artifacts)) (\<lambda>compact_artifacts.
     rfail_if (\<not> is_list trace_ids \<or> \<not> list_all (str_matches (\<lambda>s. s \<noteq> [])) (list_items trace_ids)
       \<or> \<not> distinct (list_items trace_ids)) (ValueError ''worker trace ids are invalid'')
     (Inr \<lparr>ho_token = py_str expected, ho_status = py_str (dget correlated ''status''),
       ho_summary = py_str (dget correlated ''summary''), ho_verification = py_str (dget correlated ''verification''),
       ho_risks = py_str (dget correlated ''risks''), ho_next_steps = py_str (dget correlated ''next_steps''),
       ho_artifacts = compact_artifacts, ho_trace_ids = map py_str (list_items trace_ids)\<rparr>))))"

text \<open>
  The number of bytes of \<^verbatim>\<open>json.dumps(..., sort_keys=True, separators=(",", ":"))\<close>: without
  \<^verbatim>\<open>ensure_ascii=False\<close> every character outside the printable ASCII range is written as an escape.
\<close>

definition ascii_size :: "nat \<Rightarrow> nat" where
  "ascii_size c = (if c \<in> {8, 9, 10, 12, 13, 34, 92} then 2 else if 32 \<le> c \<and> c \<le> 126 then 1 else if c < 65536 then 6 else 12)"

fun json_ascii_size :: "pyval \<Rightarrow> nat" where
  "json_ascii_size PNone = 4"
| "json_ascii_size (PBool b) = (if b then 4 else 5)"
| "json_ascii_size (PInt i) = length (show_int i)"
| "json_ascii_size (PStr s) = 2 + sum_list (map ascii_size s)"
| "json_ascii_size (PList xs) = 2 + sum_list (map json_ascii_size xs) + (length xs - 1)"
| "json_ascii_size (PDict d) =
     2 + sum_list (map (\<lambda>(k, v). 3 + sum_list (map ascii_size k) + json_ascii_size v) d) + (length d - 1)"

definition validate_canonical_handoff :: "pyval \<Rightarrow> pyval option \<Rightarrow> py_exn + canonical_handoff" where
  "validate_canonical_handoff v expected =
     (let bad = ValueError ''canonical Worker handoff is invalid''; token = dget v ''handoff_token'';
          artifacts = dget v ''artifacts''; trace_ids = dget v ''trace_ids'' in
      rfail_if (\<not> is_dict v \<or> dkeys v \<noteq> u ` set CANONICAL_HANDOFF_FIELDS) bad
      (rfail_if (\<not> str_matches (\<lambda>s. s \<noteq> []) token) bad
      (rfail_if (case expected of None \<Rightarrow> False | Some t \<Rightarrow> token \<noteq> t) (ValueError ''canonical Worker handoff lineage is invalid'')
      (rfail_if (\<not> is_list artifacts \<or> \<not> is_list trace_ids \<or> length (list_items artifacts) > MAX_CANONICAL_HANDOFF_ITEMS
        \<or> length (list_items trace_ids) > MAX_CANONICAL_HANDOFF_ITEMS) bad
      (rbind (build_canonical_handoff (pdict (map (\<lambda>k. (k, dget v k)) REPLY_FIELDS)) artifacts trace_ids token True) (\<lambda>rebuilt.
      rfail_if (\<not> py_eq (compact rebuilt) v) (ValueError ''canonical Worker handoff is not canonical'')
      (rfail_if (json_ascii_size (compact rebuilt) > MAX_CANONICAL_HANDOFF_BYTES)
        (ValueError ''canonical Worker handoff exceeds size limit'')
      (Inr rebuilt))))))))"

definition validate_compact_worker_outcome :: "pyval \<Rightarrow> pyval \<Rightarrow> pyval \<Rightarrow> pyval \<Rightarrow> py_exn + pyval" where
  "validate_compact_worker_outcome reply artifacts trace_ids expected =
     rbind (build_canonical_handoff reply artifacts trace_ids expected True) (\<lambda>h. Inr (compact h))"

definition render_legacy_handoff :: "canonical_handoff \<Rightarrow> int \<Rightarrow> pstr \<Rightarrow> py_exn + pyval" where
  "render_legacy_handoff handoff step agent_id =
     rfail_if (step < 1 \<or> agent_id = []) (ValueError ''legacy workflow handoff identity is invalid'')
     (case ho_trace_ids handoff of
        [] \<Rightarrow> Inl IndexError
      | trace # _ \<Rightarrow>
          Inr (pdict ([(''step'', PInt step), (''agent_id'', PStr agent_id)]
            @ map (\<lambda>k. (k, dget (compact handoff) k)) [''status'', ''summary'', ''verification'', ''risks'', ''next_steps'']
            @ [(''artifact_paths'', PList (map (\<lambda>a. PStr (ar_path a)) (ho_artifacts handoff))),
               (''trace_command'', PStr (u ''agentdeck trace --id '' @ trace))])))"

definition build_compact_handoff :: "int \<Rightarrow> pstr \<Rightarrow> pyval \<Rightarrow> pstr \<Rightarrow> pstr list \<Rightarrow> py_exn + pyval" where
  "build_compact_handoff step agent_id reply reply_id artifact_paths =
     (let token = dget reply ''handoff_token'' in
      rbind (build_canonical_handoff reply
        (PList (map (\<lambda>path. pdict [(''path'', PStr path), (''content_hash'', PNone)]) artifact_paths)) (PList [PStr reply_id])
        (if is_str token then token else PStr []) False) (\<lambda>handoff.
      render_legacy_handoff handoff step agent_id))"

text \<open>
  A transport's result, and its projection in the daemon: anything that is not a complete, validated
  result with the stop reason of its transport is nothing. An object that is no \<^verbatim>\<open>TransportResult\<close> is
  \<open>None\<close>.
\<close>

record transport_result =
  tr_stop_reason :: pstr
  tr_validated :: bool
  tr_reply :: pyval
  tr_artifacts :: "(pyval \<times> pyval) list"
  tr_trace_ids :: "pyval list"

definition canonical_transport_result :: "transport_result option \<Rightarrow> pyval \<Rightarrow> pstr \<Rightarrow> pyval option" where
  "canonical_transport_result result dispatch_key transport =
     (case result of
        None \<Rightarrow> None
      | Some r \<Rightarrow>
          if \<not> tr_validated r then None
          else if transport = u ''acp'' \<and> tr_stop_reason r \<noteq> u ''end_turn'' then None
          else if transport = u ''tmux'' \<and> tr_stop_reason r \<noteq> u ''structured_reply'' then None
          else case build_canonical_handoff (tr_reply r)
              (PList (map (\<lambda>(path, h). pdict [(''path'', path), (''content_hash'', h)]) (tr_artifacts r)))
              (PList (tr_trace_ids r)) dispatch_key True of
            Inl _ \<Rightarrow> None
          | Inr h \<Rightarrow> Some (compact h))"

section \<open>A printed reply is read back\<close>

lemma splitlines_acc_newline: "\<exists>ls. \<forall>t. splitlines_acc acc (pre @ 10 # t) = ls @ splitlines_acc [] t"
proof (induction acc pre rule: splitlines_acc.induct)
  case (1 acc)
  have "splitlines_acc acc (10 # t) = [rev acc] @ splitlines_acc [] t" for t
    by (cases t) (simp_all add: is_linebreak_def)
  then show ?case by (metis append_Nil)
next
  case (2 acc c)
  have base: "splitlines_acc acc (10 # t) = [rev acc] @ splitlines_acc [] t" for acc t
    by (cases t) (simp_all add: is_linebreak_def)
  have "splitlines_acc acc ([c] @ 10 # t) = (if c = 13 then [rev acc] else if is_linebreak c then [rev acc, []] else [rev (c # acc)]) @ splitlines_acc [] t" for t
    using base [of "[]" t] base [of "c # acc" t] by simp
  then show ?case by blast
next
  case (3 acc c d cs)
  show ?case
  proof (cases "c = 13 \<and> d = 10")
    case True
    with 3(1) obtain ls where "\<And>t. splitlines_acc [] (cs @ 10 # t) = ls @ splitlines_acc [] t" by blast
    with True have "splitlines_acc acc ((c # d # cs) @ 10 # t) = (rev acc # ls) @ splitlines_acc [] t" for t by simp
    then show ?thesis by blast
  next
    case nl: False
    show ?thesis
    proof (cases "is_linebreak c")
      case True
      with 3(2) nl obtain ls where "\<And>t. splitlines_acc [] ((d # cs) @ 10 # t) = ls @ splitlines_acc [] t" by blast
      with True nl have "splitlines_acc acc ((c # d # cs) @ 10 # t) = (rev acc # ls) @ splitlines_acc [] t" for t by auto
      then show ?thesis by blast
    next
      case False
      with 3(3) nl obtain ls where "\<And>t. splitlines_acc (c # acc) ((d # cs) @ 10 # t) = ls @ splitlines_acc [] t" by blast
      with False nl have "splitlines_acc acc ((c # d # cs) @ 10 # t) = ls @ splitlines_acc [] t" for t by auto
      then show ?thesis by blast
    qed
  qed
qed

lemma splitlines_after_newline: "\<exists>ls. \<forall>t. splitlines (pre @ [10] @ t) = ls @ splitlines t"
  using splitlines_acc_newline [of "[]" pre] by (simp add: splitlines_def)

lemma splitlines_acc_line:
  "\<forall>c\<in>set l. \<not> is_linebreak c \<Longrightarrow> splitlines_acc acc (l @ 10 # t) = (rev acc @ l) # splitlines_acc [] t"
proof (induction l arbitrary: acc)
  case Nil
  then show ?case by (cases t) (simp_all add: is_linebreak_def)
next
  case (Cons c l)
  then have "splitlines_acc acc ((c # l) @ 10 # t) = splitlines_acc (c # acc) (l @ 10 # t)"
    by (cases "l @ 10 # t") (auto simp: is_linebreak_def)
  with Cons show ?case by simp
qed

lemma splitlines_acc_last:
  "\<forall>c\<in>set l. \<not> is_linebreak c \<Longrightarrow> acc \<noteq> [] \<or> l \<noteq> [] \<Longrightarrow> splitlines_acc acc l = [rev acc @ l]"
proof (induction l arbitrary: acc)
  case (Cons c l)
  then have "splitlines_acc acc (c # l) = splitlines_acc (c # acc) l"
    by (cases l) (auto simp: is_linebreak_def)
  with Cons show ?case by simp
qed simp

lemma splitlines_join:
  "\<forall>l\<in>set ls. l \<noteq> [] \<and> (\<forall>c\<in>set l. \<not> is_linebreak c) \<Longrightarrow> splitlines (py_join [10] ls) = ls"
proof (induction "[10 :: nat]" ls rule: py_join.induct)
  case (2 l)
  then show ?case using splitlines_acc_last [of l "[]"] by (simp add: splitlines_def)
next
  case (3 l l' ls)
  then show ?case using splitlines_acc_line [of l "[]" "py_join [10] (l' # ls)"] by (simp add: splitlines_def)
qed (simp add: splitlines_def)

text \<open>A value that survives a line: it is not empty, has no line break and no white space at its ends.\<close>

definition clean_value :: "pstr \<Rightarrow> bool" where
  "clean_value v \<longleftrightarrow> v \<noteq> [] \<and> py_strip v = v \<and> list_all (\<lambda>c. \<not> is_linebreak c) v"

lemma py_strip_id_iff: "v \<noteq> [] \<Longrightarrow> py_strip v = v \<longleftrightarrow> \<not> is_space (hd v) \<and> \<not> is_space (last v)"
proof -
  assume ne: "v \<noteq> []"
  let ?w = "dropWhile is_space v"
  have len: "length (py_strip v) \<le> length ?w"
    unfolding py_strip_def using length_dropWhile_le [of is_space "rev ?w"] by simp
  have w: "?w = v" if "py_strip v = v"
  proof -
    have "length (takeWhile is_space v) + length ?w = length v" by (metis length_append takeWhile_dropWhile_id)
    moreover have "length v \<le> length ?w" using len that by simp
    ultimately have "length (takeWhile is_space v) = 0" by linarith
    then have "takeWhile is_space v = []" by simp
    then show ?thesis by (metis append_Nil takeWhile_dropWhile_id)
  qed
  have r: "py_strip v = v \<longleftrightarrow> dropWhile is_space (rev v) = rev v" if "?w = v"
    using that by (simp add: py_strip_def) (metis rev_rev_ident)
  show ?thesis
    using w r ne dropWhile_eq_self_iff [of is_space v] dropWhile_eq_self_iff [of is_space "rev v"] by (auto simp: hd_rev)
qed

text \<open>Scanning the line of one field.\<close>

definition plain_key :: "string \<Rightarrow> bool" where
  "plain_key k \<longleftrightarrow> k \<in> set (REPLY_FIELDS @ [''full_output_path''])"

lemma plain_key_text:
  assumes "plain_key k"
  shows "u k \<noteq> []" "58 \<notin> set (u k)" "\<not> is_space (hd (u k))" "py_strip (u k) = u k" "hd (u k) \<notin> {8226, 8250, 9210}"
    "\<forall>c\<in>set (u k). \<not> is_linebreak c"
  using assms by (auto simp: plain_key_def REPLY_FIELDS_def u_def is_space_def py_strip_def is_linebreak_def)

lemma field_line:
  assumes k: "plain_key k" and v: "clean_value v" and l: "line = u k @ [58, 32] @ v"
  shows "strip_tui_prefix (py_strip line) = line" "before_colon line = u k" "py_strip (after_colon line) = v" "58 \<in> set line"
    "line \<noteq> []" "\<forall>c\<in>set line. \<not> is_linebreak c"
proof -
  have v': "v \<noteq> []" "\<not> is_space (hd v)" "\<not> is_space (last v)" using v py_strip_id_iff [of v] by (auto simp: clean_value_def)
  show "line \<noteq> []" "58 \<in> set line" by (simp_all add: l)
  show "\<forall>c\<in>set line. \<not> is_linebreak c"
    using v plain_key_text(6) [OF k] by (auto simp: l clean_value_def list_all_iff is_linebreak_def)
  have "hd line = hd (u k)" "last line = last v" using plain_key_text(1) [OF k] v'(1) by (simp_all add: l)
  then have s: "py_strip line = line"
    using py_strip_id_iff [of line] plain_key_text(3) [OF k] v'(3) \<open>line \<noteq> []\<close> by simp
  obtain c cs where cs: "line = c # cs" "c = hd (u k)" using \<open>hd line = hd (u k)\<close> \<open>line \<noteq> []\<close> by (cases line) auto
  have "find (\<lambda>p. py_startswith line p) tui_prefixes = None"
    using plain_key_text(5) [OF k] by (auto simp: tui_prefixes_def py_startswith_def cs)
  then show "strip_tui_prefix (py_strip line) = line" by (simp add: s strip_tui_prefix_def)
  have "takeWhile (\<lambda>c. c \<noteq> 58) (u k @ [58, 32] @ v) = u k"
    using plain_key_text(2) [OF k] by (subst takeWhile_append2) auto
  then show b: "before_colon line = u k" by (simp add: before_colon_def l)
  have "after_colon line = 32 # v" unfolding after_colon_def b by (simp add: l)
  moreover have "py_strip (32 # v) = py_strip v" by (simp add: py_strip_def is_space_def)
  ultimately show "py_strip (after_colon line) = v" using v by (simp add: clean_value_def)
qed

lemma token_line_starts: "py_startswith (u ''handoff_token'' @ [58, 32] @ v) (u ''handoff_token:'')"
  by (simp add: py_startswith_def prefix_def u_def)

lemma other_line_not_token:
  assumes "plain_key k" "k \<noteq> ''handoff_token''"
  shows "\<not> py_startswith (u k @ [58, 32] @ v) (u ''handoff_token:'')"
  using assms by (auto simp: plain_key_def REPLY_FIELDS_def py_startswith_def u_def)

lemma scan_token_line:
  assumes "clean_value v"
  shows "scan_line (u ''handoff_token'' @ [58, 32] @ v) s =
    s\<lparr>rs_blocks := rs_blocks s @ (case rs_current s of None \<Rightarrow> [] | Some blk \<Rightarrow> [blk]),
      rs_current := Some [(u ''handoff_token'', v)], rs_pending := None\<rparr>"
proof -
  have k: "plain_key ''handoff_token''" by (simp add: plain_key_def REPLY_FIELDS_def)
  note f = field_line [OF k assms refl]
  show ?thesis unfolding scan_line_def Let_def f(1) f(3) using token_line_starts [of v] by simp
qed

lemma scan_field_line:
  assumes "plain_key k" "k \<noteq> ''handoff_token''" "clean_value v" "rs_current s = Some blk"
  shows "scan_line (u k @ [58, 32] @ v) s = s\<lparr>rs_current := Some (dict_put (u k) v blk), rs_pending := None\<rparr>"
proof -
  note f = field_line [OF assms(1,3) refl]
  have "u k \<in> set (map u (REPLY_FIELDS @ [''full_output_path'']))" using assms(1) by (auto simp: plain_key_def)
  moreover have "v \<noteq> []" using assms(3) by (simp add: clean_value_def)
  ultimately show ?thesis
    unfolding scan_line_def Let_def f(1) f(2) f(3) using other_line_not_token [OF assms(1,2), of v] f(4) assms(4) plain_key_text(4) [OF assms(1)]
    by simp
qed

text \<open>The remaining lines of a reply, one after the other.\<close>

lemma scan_fields:
  assumes "\<forall>k\<in>set ks. plain_key k \<and> k \<noteq> ''handoff_token'' \<and> clean_value (val k)" "rs_current s = Some blk"
    "distinct ks" "\<forall>k\<in>set ks. u k \<notin> fst ` set blk"
  shows "rs_current (fold scan_line (map (\<lambda>k. u k @ [58, 32] @ val k) ks) s) = Some (blk @ map (\<lambda>k. (u k, val k)) ks)
    \<and> rs_blocks (fold scan_line (map (\<lambda>k. u k @ [58, 32] @ val k) ks) s) = rs_blocks s"
  using assms
proof (induction ks arbitrary: s blk)
  case (Cons k ks)
  let ?s = "scan_line (u k @ [58, 32] @ val k) s"
  have "dict_put (u k) (val k) blk = blk @ [(u k, val k)]"
    using Cons.prems(4) by (induction blk) auto
  then have s: "?s = s\<lparr>rs_current := Some (blk @ [(u k, val k)]), rs_pending := None\<rparr>"
    using scan_field_line [of k "val k" s blk] Cons.prems(1,2) by simp
  have "\<forall>k'\<in>set ks. u k' \<notin> fst ` set (blk @ [(u k, val k)])" using Cons.prems(3,4) by auto
  with Cons.IH [of ?s "blk @ [(u k, val k)]"] Cons.prems s show ?case by simp
qed simp

definition reply_of :: "(string \<Rightarrow> pstr) \<Rightarrow> bool \<Rightarrow> (pstr \<times> pstr) list" where
  "reply_of val with_path = map (\<lambda>k. (u k, val k)) (REPLY_FIELDS @ (if with_path then [''full_output_path''] else []))"

lemma map_of_reply: "map_of (map (\<lambda>k. (u k, f k)) ks) (u k) = (if k \<in> set ks then Some (f k) else None)"
  by (induction ks) auto

lemma reply_of_text:
  assumes "\<forall>k\<in>set (REPLY_FIELDS @ (if with_path then [''full_output_path''] else [])). clean_value (val k)"
  shows "structured_reply_text (reply_of val with_path)
    = py_join [10] (map (\<lambda>k. u k @ [58, 32] @ val k) (REPLY_FIELDS @ (if with_path then [''full_output_path''] else [])))"
proof -
  let ?ks = "REPLY_FIELDS @ (if with_path then [''full_output_path''] else [])"
  have v: "value_of (reply_of val with_path) (u k) = (if k \<in> set ?ks then val k else [])" for k
    unfolding value_of_def reply_of_def map_of_reply by simp
  have ne: "val k \<noteq> []" if "k \<in> set ?ks" for k using assms that by (auto simp: clean_value_def)
  have "value_of (reply_of val with_path) (u ''full_output_path'') \<noteq> [] \<longleftrightarrow> with_path"
    unfolding v using ne [of "''full_output_path''"] by (simp add: REPLY_FIELDS_def)
  then have ks: "REPLY_FIELDS @ (if value_of (reply_of val with_path) (u ''full_output_path'') \<noteq> [] then [''full_output_path''] else []) = ?ks"
    by simp
  have "map (reply_line (reply_of val with_path)) ?ks = map (\<lambda>k. u k @ [58, 32] @ val k) ?ks"
    by (rule map_cong) (simp_all add: reply_line_def v)
  then show ?thesis unfolding structured_reply_text_def ks by (rule arg_cong)
qed

lemma block_value_get: "dget (block_value blk) k = (case map_of blk (u k) of None \<Rightarrow> PNone | Some v \<Rightarrow> PStr v)"
proof -
  have "map_of (map (\<lambda>(k, v). (k, PStr v)) blk) (u k) = map_option PStr (map_of blk (u k))" by (induction blk) auto
  then show ?thesis by (simp add: dget_or_def block_value_def split: option.splits)
qed

lemma clean_nonblank: "clean_value v \<Longrightarrow> py_strip v \<noteq> []"
  by (simp add: clean_value_def)

text \<open>
  C23: (Round trip.) A reply printed by \<^verbatim>\<open>_structured_reply_text\<close>, whose values are not empty, hold no
  line break and no white space at their ends, and whose status is one of the three, is read back
  unchanged by \<^verbatim>\<open>parse_correlated_reply\<close> with its own token, whatever text stands on the lines before
  it: prose, the prompt's own template, or an earlier reply block, complete or not, with the same
  token.
\<close>

theorem printed_reply_read_back:
  assumes "\<forall>k\<in>set (REPLY_FIELDS @ (if with_path then [''full_output_path''] else [])). clean_value (val k)"
    and "val ''status'' \<in> set (map u REPLY_STATUSES)"
  shows "parse_correlated_reply (before @ [10] @ structured_reply_text (reply_of val with_path)) (val ''handoff_token'')
    = Inr (Some (reply_of val with_path))"
proof -
  let ?ks = "REPLY_FIELDS @ (if with_path then [''full_output_path''] else [])"
  let ?rest = "tl ?ks" and ?line = "\<lambda>k. u k @ [58, 32] @ val k" and ?r = "reply_of val with_path"
  have ks: "?ks = ''handoff_token'' # ?rest" by (simp add: REPLY_FIELDS_def)
  have plain: "\<forall>k\<in>set ?ks. plain_key k" by (auto simp: plain_key_def)
  have clean: "\<forall>k\<in>set ?ks. clean_value (val k)" by (rule assms(1))
  have "\<forall>l\<in>set (map ?line ?ks). l \<noteq> [] \<and> (\<forall>c\<in>set l. \<not> is_linebreak c)"
    using field_line(5,6) plain clean by (simp only: set_map ball_simps) metis
  then have "splitlines (structured_reply_text ?r) = map ?line ?ks"
    unfolding reply_of_text [OF assms(1)] by (rule splitlines_join)
  then obtain ls where lines: "splitlines (before @ [10] @ structured_reply_text ?r) = ls @ map ?line ?ks"
    using splitlines_after_newline [of before] by metis
  define s0 where "s0 = fold scan_line ls \<lparr>rs_blocks = [], rs_current = None, rs_pending = None\<rparr>"
  define s1 where "s1 = scan_line (?line ''handoff_token'') s0"
  have s1: "rs_current s1 = Some [(u ''handoff_token'', val ''handoff_token'')]"
  proof -
    have "clean_value (val ''handoff_token'')" using clean by (simp add: REPLY_FIELDS_def)
    show ?thesis unfolding s1_def scan_token_line [OF \<open>clean_value (val ''handoff_token'')\<close>] by simp
  qed
  have c: "rs_current (fold scan_line (map ?line ?rest) s1) = Some ([(u ''handoff_token'', val ''handoff_token'')] @ map (\<lambda>k. (u k, val k)) ?rest)"
    using scan_fields [of ?rest val s1 "[(u ''handoff_token'', val ''handoff_token'')]"] plain clean s1 by (auto simp: REPLY_FIELDS_def)
  have r: "[(u ''handoff_token'', val ''handoff_token'')] @ map (\<lambda>k. (u k, val k)) ?rest = ?r"
    unfolding reply_of_def by (subst ks) simp
  have "fold scan_line (ls @ map ?line ?ks) \<lparr>rs_blocks = [], rs_current = None, rs_pending = None\<rparr> = fold scan_line (map ?line ?rest) s1"
    by (subst ks) (simp add: s0_def s1_def)
  then obtain bs where bs: "reply_blocks (before @ [10] @ structured_reply_text ?r) = bs @ [?r]"
    unfolding reply_blocks_def lines Let_def using c r by simp
  have get: "map_of ?r (u k) = Some (val k)" if "k \<in> set ?ks" for k
    using that unfolding reply_of_def map_of_reply by simp
  have tok: "map_of ?r (u ''handoff_token'') = Some (val ''handoff_token'')" by (rule get) (simp add: REPLY_FIELDS_def)
  obtain b bs' where f: "filter (\<lambda>blk. map_of blk (u ''handoff_token'') = Some (val ''handoff_token'')) (bs @ [?r]) = b # bs'" "last (b # bs') = ?r"
    using tok by (cases "filter (\<lambda>blk. map_of blk (u ''handoff_token'') = Some (val ''handoff_token'')) bs") auto
  have vals: "value_of ?r (u k) = val k" "dget (block_value ?r) k = PStr (val k)" "val k \<noteq> []" "py_strip (val k) \<noteq> []" if "k \<in> set REPLY_FIELDS" for k
    using get [of k] clean that by (auto simp: value_of_def block_value_get clean_value_def)
  have fields: "set REPLY_FIELDS = {''handoff_token'', ''status'', ''summary'', ''verification'', ''risks'', ''next_steps''}"
    by (simp add: REPLY_FIELDS_def)
  have st: "in_names (PStr (val ''status'')) REPLY_STATUSES = Inr True"
    using assms(2) by (auto simp: in_names_def)
  have "is_ok (validate_correlated_workflow_reply (block_value ?r) (PStr (val ''handoff_token'')))"
    using vals st by (simp add: validate_correlated_workflow_reply_def validated_compact_reply_def fields block_value_def [of ?r] is_ok_def)
  moreover have "\<not> list_ex (\<lambda>k. value_of ?r (u k) = []) REPLY_FIELDS" using vals by (auto simp: list_ex_iff)
  ultimately show ?thesis
    unfolding parse_correlated_reply_def bs f(1) using f(2) by (auto simp: Let_def is_ok_iff)
qed

definition ex_reply_value :: "string \<Rightarrow> pstr" where
  "ex_reply_value k = (if k = ''status'' then u ''completed'' else u ''x'')"

theorem printed_reply_read_back_witness:
  "parse_correlated_reply (u ''summary: old'' @ [10] @ structured_reply_text (reply_of ex_reply_value True)) (u ''x'')
    = Inr (Some (reply_of ex_reply_value True))"
proof -
  have "clean_value (u ''completed'')" "clean_value (u ''x'')"
    by (simp_all add: clean_value_def u_def py_strip_def is_space_def is_linebreak_def)
  then have "\<forall>k\<in>set (REPLY_FIELDS @ (if True then [''full_output_path''] else [])). clean_value (ex_reply_value k)"
    by (simp add: ex_reply_value_def)
  moreover have "ex_reply_value ''status'' \<in> set (map u REPLY_STATUSES)" by (simp add: ex_reply_value_def REPLY_STATUSES_def)
  ultimately have "parse_correlated_reply (u ''summary: old'' @ [10] @ structured_reply_text (reply_of ex_reply_value True))
      (ex_reply_value ''handoff_token'') = Inr (Some (reply_of ex_reply_value True))"
    by (rule printed_reply_read_back)
  then show ?thesis by (simp add: ex_reply_value_def)
qed

section \<open>The handoff validator and the builder\<close>

definition artifact_ok :: "canonical_artifact \<Rightarrow> bool" where
  "artifact_ok a \<longleftrightarrow> ar_path a \<noteq> [] \<and> (\<exists>h. ar_content_hash a = Some h \<and> SNAPSHOT_HASH h)"

definition handoff_ok :: "canonical_handoff \<Rightarrow> bool" where
  "handoff_ok h \<longleftrightarrow> ho_token h \<noteq> [] \<and> ho_status h \<in> set (map u REPLY_STATUSES)
     \<and> list_all (\<lambda>s. py_strip s \<noteq> []) [ho_summary h, ho_verification h, ho_risks h, ho_next_steps h]
     \<and> list_all artifact_ok (ho_artifacts h) \<and> list_all (\<lambda>s. s \<noteq> []) (ho_trace_ids h) \<and> distinct (ho_trace_ids h)"

lemma compact_artifact_ok: "compact_artifact True v = Inr a \<Longrightarrow> artifact_ok a"
  by (auto simp: compact_artifact_def Let_def res_simps artifact_ok_def split: pyval.splits)

lemma compact_artifact_value: "artifact_ok a \<Longrightarrow> compact_artifact True (artifact_value a) = Inr a"
  by (cases a) (auto simp: compact_artifact_def artifact_value_def artifact_ok_def Let_def)

lemma rmap_compact_artifacts: "rmap (compact_artifact True) xs = Inr as \<Longrightarrow> list_all artifact_ok as"
  by (induction xs arbitrary: as) (auto simp: res_simps compact_artifact_ok)

lemma rmap_artifact_values: "list_all artifact_ok as \<Longrightarrow> rmap (compact_artifact True) (map artifact_value as) = Inr as"
  by (induction as) (simp_all add: compact_artifact_value)

lemma strs_eq: "list_all (str_matches (\<lambda>s. s \<noteq> [])) xs \<Longrightarrow> xs = map PStr (map py_str xs) \<and> list_all (\<lambda>s. s \<noteq> []) (map py_str xs)"
  by (induction xs) (auto simp: str_matches_eq)

lemma build_ok:
  assumes "build_canonical_handoff reply artifacts trace_ids token True = Inr h"
  shows "handoff_ok h" "token = PStr (ho_token h)" "length (ho_artifacts h) = length (list_items artifacts)"
    "length (ho_trace_ids h) = length (list_items trace_ids)"
proof -
  obtain c as where c: "validate_correlated_workflow_reply reply token = Inr c" and as: "rmap (compact_artifact True) (list_items artifacts) = Inr as"
      and tr: "list_all (str_matches (\<lambda>s. s \<noteq> [])) (list_items trace_ids)" "distinct (list_items trace_ids)"
      and h: "h = \<lparr>ho_token = py_str token, ho_status = py_str (dget c ''status''),
       ho_summary = py_str (dget c ''summary''), ho_verification = py_str (dget c ''verification''),
       ho_risks = py_str (dget c ''risks''), ho_next_steps = py_str (dget c ''next_steps''),
       ho_artifacts = as, ho_trace_ids = map py_str (list_items trace_ids)\<rparr>"
    using assms unfolding build_canonical_handoff_def by (auto simp: res_simps)
  obtain t where t: "token = PStr t" "t \<noteq> []"
    and rep: "validated_compact_reply reply = Inr (PDict (tl (dict_items c)))" "c = PDict ((u ''handoff_token'', token) # tl (dict_items c))"
    using c by (auto simp: validate_correlated_workflow_reply_def res_simps str_matches_eq validated_compact_reply_def pdict_def)
  have get: "dget c k = dget reply k" if "k \<in> {''status'', ''summary'', ''verification'', ''risks'', ''next_steps''}" for k
    using c that by (auto simp: validate_correlated_workflow_reply_def res_simps validated_compact_reply_def dget_or_def pdict_def)
  have st: "dget reply ''status'' \<in> set (map PS REPLY_STATUSES)" and fs: "fields_ok [''summary'', ''verification'', ''risks'', ''next_steps''] reply"
    using rep(1) by (auto simp: validated_compact_reply_def res_simps simp del: fields_ok.simps)
  define ys where "ys = map py_str (list_items trace_ids)"
  have ys: "list_items trace_ids = map PStr ys" "list_all (\<lambda>s. s \<noteq> []) ys" using strs_eq [OF tr(1)] by (simp_all only: ys_def)
  have "distinct ys" using tr(2) unfolding ys(1) distinct_map by blast
  moreover have "ho_trace_ids h = ys" by (simp add: h ys_def)
  moreover have "ho_status h \<in> set (map u REPLY_STATUSES)"
    using st get [of "''status''"] unfolding h by (clarsimp simp del: set_map) (auto simp: image_iff)
  moreover have "list_all (\<lambda>s. py_strip s \<noteq> []) [ho_summary h, ho_verification h, ho_risks h, ho_next_steps h]"
    using fs get [of "''summary''"] get [of "''verification''"] get [of "''risks''"] get [of "''next_steps''"]
    unfolding h by (auto simp: str_matches_eq)
  ultimately show "handoff_ok h" using rmap_compact_artifacts [OF as] t(2) ys(2) unfolding handoff_ok_def by (simp add: h t(1))
  show "token = PStr (ho_token h)" by (simp add: h t)
  show "length (ho_artifacts h) = length (list_items artifacts)" using rmap_eq_Inr [OF as] by (simp add: h)
  show "length (ho_trace_ids h) = length (list_items trace_ids)" by (simp add: h)
qed

lemma build_of_compact:
  assumes "handoff_ok h"
  shows "build_canonical_handoff (pdict (map (\<lambda>k. (k, dget (compact h) k)) REPLY_FIELDS)) (dget (compact h) ''artifacts'')
    (dget (compact h) ''trace_ids'') (dget (compact h) ''handoff_token'') True = Inr h"
proof -
  have "PStr (ho_status h) \<in> set (map PS REPLY_STATUSES)" using assms by (auto simp: handoff_ok_def)
  then have "in_names (PStr (ho_status h)) REPLY_STATUSES = Inr True" by (auto simp: in_names_def)
  moreover have "list_all (str_matches (\<lambda>s. s \<noteq> [])) (map PStr (ho_trace_ids h))" "distinct (map PStr (ho_trace_ids h))"
    using assms by (auto simp: handoff_ok_def list_all_iff distinct_map inj_on_def)
  moreover have "map py_str (map PStr (ho_trace_ids h)) = ho_trace_ids h" by (simp add: comp_def)
  ultimately show ?thesis
    using assms rmap_artifact_values [of "ho_artifacts h"]
    by (cases h) (simp add: build_canonical_handoff_def validate_correlated_workflow_reply_def validated_compact_reply_def compact_def
        REPLY_FIELDS_def handoff_ok_def dget_or_def pdict_def comp_def)
qed

lemma py_eq_refl_list: "list_all (\<lambda>x. py_eq x x) xs \<Longrightarrow> py_eq (PList xs) (PList xs)"
  by (auto simp: list_all_iff in_set_zip)

lemma py_eq_compact: "py_eq (compact h) (compact h)"
proof -
  have "py_eq (artifact_value a) (artifact_value a)" for a
    by (cases "ar_content_hash a") (simp_all add: artifact_value_def pdict_def)
  then have "py_eq (PList (map artifact_value (ho_artifacts h))) (PList (map artifact_value (ho_artifacts h)))"
    by (intro py_eq_refl_list) (simp add: list_all_iff)
  moreover have "py_eq (PList (map PStr (ho_trace_ids h))) (PList (map PStr (ho_trace_ids h)))"
    by (intro py_eq_refl_list) (simp add: list_all_iff)
  ultimately show ?thesis by (simp add: compact_def pdict_def del: py_eq.simps(1))
qed

definition handoff_within_limits :: "canonical_handoff \<Rightarrow> bool" where
  "handoff_within_limits h \<longleftrightarrow> length (ho_artifacts h) \<le> MAX_CANONICAL_HANDOFF_ITEMS
     \<and> length (ho_trace_ids h) \<le> MAX_CANONICAL_HANDOFF_ITEMS \<and> json_ascii_size (compact h) \<le> MAX_CANONICAL_HANDOFF_BYTES"

lemma validate_compact:
  assumes "handoff_ok h" "handoff_within_limits h" "expected \<in> {None, Some (PStr (ho_token h))}"
  shows "validate_canonical_handoff (compact h) expected = Inr h"
proof -
  have k: "is_dict (compact h)" "dkeys (compact h) = u ` set CANONICAL_HANDOFF_FIELDS"
    by (auto simp: compact_def CANONICAL_HANDOFF_FIELDS_def REPLY_FIELDS_def)
  have g: "dget (compact h) ''handoff_token'' = PStr (ho_token h)" "dget (compact h) ''artifacts'' = PList (map artifact_value (ho_artifacts h))"
      "dget (compact h) ''trace_ids'' = PList (map PStr (ho_trace_ids h))"
    by (simp_all add: compact_def)
  show ?thesis
    unfolding validate_canonical_handoff_def Let_def build_of_compact [OF assms(1)] rbind_Inr
    using assms k g py_eq_compact [of h] by (auto simp: handoff_within_limits_def handoff_ok_def)
qed


definition ex_handoff :: canonical_handoff where
  "ex_handoff = \<lparr>ho_token = u ''t'', ho_status = u ''completed'', ho_summary = u ''s'', ho_verification = u ''v'', ho_risks = u ''r'',
     ho_next_steps = u ''n'', ho_artifacts = [], ho_trace_ids = [u ''mrp'']\<rparr>"

definition ex_reply :: pyval where
  "ex_reply = pdict [(''handoff_token'', PS ''t''), (''status'', PS ''completed''), (''summary'', PS ''s''), (''verification'', PS ''v''),
     (''risks'', PS ''r''), (''next_steps'', PS ''n'')]"

lemma ex_handoff_limits: "handoff_within_limits ex_handoff"
  by (simp add: handoff_within_limits_def ex_handoff_def MAX_CANONICAL_HANDOFF_ITEMS_def MAX_CANONICAL_HANDOFF_BYTES_def compact_def
      pdict_def ascii_size_def u_def)

lemma ex_handoff_built: "build_canonical_handoff ex_reply (PList []) (PList [PS ''mrp'']) (PS ''t'') True = Inr ex_handoff"
  by (simp add: build_canonical_handoff_def validate_correlated_workflow_reply_def validated_compact_reply_def ex_reply_def in_names_def
      REPLY_STATUSES_def dget_or_def pdict_def ex_handoff_def nonblank_literal space_chars_def)


end
