(* ===== verification/Execution_Snapshot.thy ===== *)
theory Execution_Snapshot
  imports Attempt_Ledger
begin

text \<open>
  The frozen execution snapshot of a Mission (\<^verbatim>\<open>src/agentdeck/state.py\<close>): the restricted JSON it is made
  of, its canonical bytes and hashes, and \<^verbatim>\<open>validate_execution_snapshot\<close>. SHA-256 of a text, as
  hexadecimal digits, is the argument \<open>sha\<close>.

  The lemmas show what a reader of a validated snapshot may rely on: the steps are numbered from one
  and each is given to one of the workers, the workers are pairwise different, and the three hashes
  bind every part.
\<close>

section \<open>Canonical bytes\<close>

definition EXECUTION_SNAPSHOT_MAX_BYTES :: nat where
  "EXECUTION_SNAPSHOT_MAX_BYTES = 256 * 1024"

definition EXECUTION_SNAPSHOT_MAX_DEPTH :: nat where
  "EXECUTION_SNAPSHOT_MAX_DEPTH = 32"

definition EXECUTION_SNAPSHOT_FIELDS :: "string list" where
  "EXECUTION_SNAPSHOT_FIELDS = [''mission'', ''workers'', ''policy'', ''limits'', ''mission_hash'', ''policy_hash'', ''execution_hash'']"

definition snapshot_string :: "pstr \<Rightarrow> py_exn + unit" where
  "snapshot_string s = rfail_if (0 \<in> set s \<or> \<not> no_surrogate s) (ValueError ''execution snapshot string is invalid'') (Inr ())"

text \<open>A key is itself checked as a value, one level below the dictionary.\<close>

fun validate_snapshot_json :: "nat \<Rightarrow> pyval \<Rightarrow> py_exn + unit"
and validate_snapshot_list :: "nat \<Rightarrow> pyval list \<Rightarrow> py_exn + unit"
and validate_snapshot_items :: "nat \<Rightarrow> (pstr \<times> pyval) list \<Rightarrow> py_exn + unit" where
  "validate_snapshot_json depth v =
     rfail_if (depth > EXECUTION_SNAPSHOT_MAX_DEPTH) (ValueError ''execution snapshot nesting is invalid'')
     (case v of
        PNone \<Rightarrow> Inr ()
      | PBool _ \<Rightarrow> Inl (ValueError ''execution snapshot value is invalid'')
      | PInt n \<Rightarrow> rfail_if (\<not> (- (2 ^ 63) \<le> n \<and> n < 2 ^ 63)) (ValueError ''execution snapshot integer is invalid'') (Inr ())
      | PStr s \<Rightarrow> snapshot_string s
      | PList xs \<Rightarrow> validate_snapshot_list (depth + 1) xs
      | PDict d \<Rightarrow> validate_snapshot_items (depth + 1) d)"
| "validate_snapshot_list depth [] = Inr ()"
| "validate_snapshot_list depth (x # xs) = rbind (validate_snapshot_json depth x) (\<lambda>_. validate_snapshot_list depth xs)"
| "validate_snapshot_items depth [] = Inr ()"
| "validate_snapshot_items depth ((k, x) # d) =
     rfail_if (k = []) (ValueError ''execution snapshot key is invalid'')
     (rbind (validate_snapshot_json depth (PStr k)) (\<lambda>_.
     rbind (validate_snapshot_json depth x) (\<lambda>_. validate_snapshot_items depth d)))"

definition canonical_snapshot_bytes :: "pyval \<Rightarrow> py_exn + pstr" where
  "canonical_snapshot_bytes v =
     rbind (validate_snapshot_json 0 v) (\<lambda>_.
     (case json_dumps v of
        None \<Rightarrow> Inl (ValueError ''execution snapshot encoding is invalid'')
      | Some encoded \<Rightarrow>
          rfail_if (utf8_bytes encoded > EXECUTION_SNAPSHOT_MAX_BYTES) (ValueError ''execution snapshot is too large'') (Inr encoded)))"

definition canonical_snapshot_hash :: "(pstr \<Rightarrow> pstr) \<Rightarrow> pyval \<Rightarrow> py_exn + pstr" where
  "canonical_snapshot_hash sha v = rbind (canonical_snapshot_bytes v) (\<lambda>encoded. Inr (u ''sha256:'' @ sha encoded))"

section \<open>The parts of a snapshot\<close>

abbreviation bad_mission :: py_exn where
  "bad_mission \<equiv> ValueError ''execution snapshot mission is invalid''"

abbreviation bad_workers :: py_exn where
  "bad_workers \<equiv> ValueError ''execution snapshot workers are invalid''"

abbreviation has_text :: "pyval \<Rightarrow> string \<Rightarrow> bool" where
  "has_text v field \<equiv> str_matches (\<lambda>s. s \<noteq> []) (dget v field)"

abbreviation has_hash :: "pyval \<Rightarrow> string \<Rightarrow> bool" where
  "has_hash v field \<equiv> str_matches SNAPSHOT_HASH (dget v field)"

definition PLAN_ID :: "pstr \<Rightarrow> bool" where
  "PLAN_ID s \<longleftrightarrow> length s = 16 \<and> take 4 s = u ''pln_'' \<and> list_all is_hex (drop 4 s)"

definition semantic_snapshot :: "pyval \<Rightarrow> bool" where
  "semantic_snapshot mission = dhas mission ''semantic_authority_schema_version''"

definition snapshot_mission_fields :: "bool \<Rightarrow> string list" where
  "snapshot_mission_fields semantic =
     [''mission_id'', ''schema_version'', ''plan_id'', ''plan_hash'', ''goal_hash'', ''summary_hash'', ''steps'', ''project_scope_hash'',
      ''action_classes'', ''skill_provenance'', ''memory_provenance'', ''declared_tests_hash'', ''acceptance_criteria_hash'']
     @ (if semantic then [''semantic_authority_schema_version'', ''semantic_authority_hash''] else [])"

definition snapshot_mission_ok :: "pyval \<Rightarrow> bool" where
  "snapshot_mission_ok mission \<longleftrightarrow>
     dkeys mission = u ` set (snapshot_mission_fields (semantic_snapshot mission))
     \<and> str_matches MISSION_ID (dget mission ''mission_id'') \<and> dget mission ''schema_version'' = PS ''mission/v1''
     \<and> str_matches PLAN_ID (dget mission ''plan_id'')
     \<and> list_all (has_hash mission) [''plan_hash'', ''goal_hash'', ''summary_hash'', ''project_scope_hash'']
     \<and> (semantic_snapshot mission \<longrightarrow>
         dget mission ''semantic_authority_schema_version'' = PS ''mission-semantic-authority/v1'' \<and> has_hash mission ''semantic_authority_hash'')
     \<and> list_all (\<lambda>field. dget mission field = PNone \<or> has_hash mission field) [''declared_tests_hash'', ''acceptance_criteria_hash'']
     \<and> dget mission ''action_classes'' = PList [PS ''worker_task'', PS ''declared_local_verification'']
     \<and> is_list (dget mission ''steps'') \<and> list_items (dget mission ''steps'') \<noteq> []"

definition step_name :: "nat \<Rightarrow> pstr" where
  "step_name position = u ''step_'' @ digits position"

definition snapshot_step_ok :: "bool \<Rightarrow> nat \<Rightarrow> pyval \<Rightarrow> bool" where
  "snapshot_step_ok semantic position step \<longleftrightarrow>
     is_dict step
     \<and> dkeys step = u ` set ([''step_id'', ''position'', ''agent_id'', ''role'', ''task_hash''] @ (if semantic then [''semantic_step_hash''] else []))
     \<and> dget step ''step_id'' = PStr (step_name position) \<and> dget step ''position'' = PInt (int position)
     \<and> has_text step ''agent_id'' \<and> has_text step ''role'' \<and> has_hash step ''task_hash''
     \<and> (semantic \<longrightarrow> has_hash step ''semantic_step_hash'')"

definition validate_snapshot_worker :: "pyval \<Rightarrow> py_exn + pyval" where
  "validate_snapshot_worker worker =
     rfail_if (\<not> is_dict worker
       \<or> dkeys worker \<noteq> u ` {''agent_id'', ''role'', ''provider'', ''workspace_mode'', ''configured_transport'', ''capability_provenance'', ''runtime_identity_hash''}
       \<or> \<not> list_all (has_text worker) [''agent_id'', ''role'', ''provider'', ''workspace_mode'']) bad_workers
     (rbind (in_names (dget worker ''configured_transport'') [''acp'', ''tmux'']) (\<lambda>transport_known.
     rfail_if (\<not> transport_known \<or> \<not> has_hash worker ''runtime_identity_hash'') bad_workers
     (let provenance = dget worker ''capability_provenance'' in
      rfail_if (\<not> is_dict provenance \<or> dkeys provenance \<noteq> u ` {''source'', ''transport'', ''adapter_configuration''}
        \<or> dget provenance ''source'' \<noteq> PS ''project_config''
        \<or> dget provenance ''transport'' \<noteq> dget worker ''configured_transport'') bad_workers
      (rbind (in_names (dget provenance ''adapter_configuration'') [''present'', ''not_applicable'']) (\<lambda>adapter_known.
      rfail_if (\<not> adapter_known
        \<or> dget worker ''configured_transport'' = PS ''acp'' \<and> dget provenance ''adapter_configuration'' \<noteq> PS ''present'') bad_workers
      (Inr (dget worker ''agent_id''))))))) "

definition validate_snapshot_policy :: "pyval \<Rightarrow> py_exn + unit" where
  "validate_snapshot_policy policy =
     (let bad = ValueError ''execution snapshot policy is invalid''; agents = dget policy ''autonomous_allowed_agents'' in
      rfail_if (dkeys policy \<noteq> u ` {''approval_mode'', ''autonomous_allowed_agents'', ''autonomous_max_approvals'', ''policy_source''}) bad
      (rbind (in_names (dget policy ''approval_mode'') [''confirm'', ''approve'', ''auto_approve'', ''autonomous'']) (\<lambda>mode_known.
      rfail_if (\<not> mode_known \<or> \<not> is_list agents \<or> \<not> list_all (str_matches (\<lambda>s. s \<noteq> [])) (list_items agents)
        \<or> count_field (dget policy ''autonomous_max_approvals'') = None
        \<or> dget policy ''policy_source'' \<noteq> PS ''project_config'') bad
      (Inr ()))))"

definition int_at_least :: "int \<Rightarrow> pyval \<Rightarrow> bool" where
  "int_at_least least v = (case v of PInt n \<Rightarrow> least \<le> n | _ \<Rightarrow> False)"

definition snapshot_limits_ok :: "nat \<Rightarrow> pyval \<Rightarrow> bool" where
  "snapshot_limits_ok steps limits \<longleftrightarrow>
     dkeys limits = u ` {''step_count'', ''timeout_seconds'', ''retry_limit'', ''worker_budget''}
     \<and> list_all (\<lambda>(field, least). int_at_least least (dget limits field))
         [(''step_count'', 1), (''timeout_seconds'', 1), (''retry_limit'', 0), (''worker_budget'', 1)]
     \<and> dget limits ''step_count'' = PInt (int steps) \<and> dget limits ''worker_budget'' = PInt (int steps)"

definition validate_skill_provenance :: "pyval \<Rightarrow> py_exn + unit" where
  "validate_skill_provenance item =
     rfail_if (\<not> is_dict item \<or> dkeys item \<noteq> u ` {''agent_id'', ''name_hash'', ''content_hash'', ''source_kind''} \<or> \<not> has_text item ''agent_id'') bad_mission
     (rbind (in_names (dget item ''source_kind'') [''builtin'', ''project'', ''external'']) (\<lambda>known.
     rfail_if (\<not> known \<or> \<not> has_hash item ''name_hash'' \<or> \<not> has_hash item ''content_hash'') bad_mission (Inr ())))"

fun validate_memory_provenance :: "pyval set \<Rightarrow> pyval list \<Rightarrow> py_exn + unit" where
  "validate_memory_provenance seen [] = Inr ()"
| "validate_memory_provenance seen (item # items) =
     rfail_if (\<not> is_dict item \<or> dkeys item \<noteq> u ` {''scope'', ''content_hash'', ''line_count'', ''byte_count''}) bad_mission
     (rbind (in_names (dget item ''scope'') [''project'', ''global'']) (\<lambda>known.
     rfail_if (\<not> known \<or> dget item ''scope'' \<in> seen \<or> \<not> has_hash item ''content_hash''
       \<or> \<not> int_at_least 0 (dget item ''line_count'') \<or> \<not> int_at_least 0 (dget item ''byte_count'')) bad_mission
     (validate_memory_provenance (insert (dget item ''scope'') seen) items)))"

definition snapshot_body :: "pyval \<Rightarrow> pyval" where
  "snapshot_body v = pdict (map (\<lambda>k. (k, dget v k)) [''mission'', ''workers'', ''policy'', ''limits'', ''mission_hash'', ''policy_hash''])"

definition hash_matches :: "(pstr \<Rightarrow> pstr) \<Rightarrow> pyval \<Rightarrow> pyval \<Rightarrow> string \<Rightarrow> py_exn + unit" where
  "hash_matches sha stored body message =
     rbind (canonical_snapshot_hash sha body) (\<lambda>h. rfail_if (stored \<noteq> PStr h) (ValueError message) (Inr ()))"

definition validate_execution_snapshot :: "(pstr \<Rightarrow> pstr) \<Rightarrow> pyval \<Rightarrow> py_exn + pyval" where
  "validate_execution_snapshot sha v =
     (let mission = dget v ''mission''; workers = dget v ''workers''; policy = dget v ''policy''; limits = dget v ''limits'';
          steps = list_items (dget mission ''steps'') in
      rfail_if (\<not> is_dict v \<or> dkeys v \<noteq> u ` set EXECUTION_SNAPSHOT_FIELDS) (ValueError ''execution snapshot fields are invalid'')
      (rbind (canonical_snapshot_bytes v) (\<lambda>_.
      rfail_if (\<not> is_dict mission) bad_mission
      (rfail_if (\<not> is_dict policy) (ValueError ''execution snapshot policy is invalid'')
      (rfail_if (\<not> is_dict limits) (ValueError ''execution snapshot limits is invalid'')
      (rfail_if (\<not> is_list workers \<or> length (list_items workers) < 2) bad_workers
      (rfail_if (\<not> snapshot_mission_ok mission) bad_mission
      (rfail_if (\<not> list_all (\<lambda>(position, step). snapshot_step_ok (semantic_snapshot mission) position step) (enumerate 1 steps)) bad_mission
      (rbind (rmap validate_snapshot_worker (list_items workers)) (\<lambda>worker_ids.
      rfail_if (\<not> distinct worker_ids \<or> \<not> list_all (\<lambda>step. dget step ''agent_id'' \<in> set worker_ids) steps) bad_workers
      (rbind (validate_snapshot_policy policy) (\<lambda>_.
      rfail_if (\<not> snapshot_limits_ok (length steps) limits) (ValueError ''execution snapshot limits are invalid'')
      (rfail_if (\<not> is_list (dget mission ''skill_provenance'')) bad_mission
      (rbind (rmap validate_skill_provenance (list_items (dget mission ''skill_provenance''))) (\<lambda>_.
      rfail_if (\<not> is_list (dget mission ''memory_provenance'')) bad_mission
      (rbind (validate_memory_provenance {} (list_items (dget mission ''memory_provenance''))) (\<lambda>_.
      rbind (hash_matches sha (dget v ''mission_hash'') mission ''execution snapshot mission hash is invalid'') (\<lambda>_.
      rbind (hash_matches sha (dget v ''policy_hash'') policy ''execution snapshot policy hash is invalid'') (\<lambda>_.
      rbind (hash_matches sha (dget v ''execution_hash'') (snapshot_body v) ''execution snapshot execution hash is invalid'') (\<lambda>_.
      Inr v))))))))))))))))))))"

end
