(* ===== verification/Recovery.thy ===== *)
theory Recovery
  imports Execution_Snapshot Worker_Reply Conversation "HOL-Library.Product_Lexorder"
begin

text \<open>
  Crash recovery of the project daemon (\<^verbatim>\<open>src/agentdeck/daemon/recovery.py\<close>): the facts read from the
  persisted state of one Mission, the gate that classifies them, the durable evidence records, and the
  start-up routine that flushes the outboxes, classifies every Mission that has not ended, persists the
  decisions and only then enables the scheduler.

  \<^verbatim>\<open>RecoveryError\<close> is a subclass of \<^verbatim>\<open>ValueError\<close> and is written as one. \<open>parse\<close> and \<open>sha\<close> are as in
  the theories of the attempt ledger and of the execution snapshot.

  The lemmas show that the gate is total, exactly when it lets work go on, and that an attempt whose claim
  may have reached its Worker is never dispatched again by a restarted daemon.
\<close>

section \<open>Facts\<close>

datatype receipt_fact = C_none | C_recorded

datatype transport_state = T_ready | T_missing | T_invalid

datatype lineage_fact = LF_valid | LF_missing | LF_conflict

datatype ownership_fact = OF_agentdeck_owned | OF_human_owned | OF_conflict

datatype configured_transport = K_acp | K_tmux | K_none

text \<open>\<^verbatim>\<open>_STATE_DOMAINS\<close>; a Mission is never idle here and a reply never pending.\<close>

definition MISSION_STATUSES :: "(string \<times> mission_state) list" where
  "MISSION_STATUSES =
     [(''pending_confirmation'', M_pending_confirmation), (''preparing'', M_preparing), (''running'', M_running),
      (''completed'', M_completed), (''stopped'', M_stopped), (''interrupted'', M_interrupted)]"

definition RECEIPT_DOMAIN :: "(string \<times> receipt_fact) list" where
  "RECEIPT_DOMAIN = [(''none'', C_none), (''recorded'', C_recorded)]"

definition REPLY_DOMAIN :: "(string \<times> reply_state) list" where
  "REPLY_DOMAIN = [(''none'', R_none), (''received'', R_received), (''validated'', R_validated), (''invalid'', R_invalid)]"

definition CONFIGURED_TRANSPORTS :: "(string \<times> configured_transport) list" where
  "CONFIGURED_TRANSPORTS = [(''acp'', K_acp), (''tmux'', K_tmux), (''none'', K_none)]"

definition TRANSPORT_DOMAIN :: "(string \<times> transport_state) list" where
  "TRANSPORT_DOMAIN = [(''ready'', T_ready), (''missing'', T_missing), (''invalid'', T_invalid)]"

definition LINEAGE_DOMAIN :: "(string \<times> lineage_fact) list" where
  "LINEAGE_DOMAIN = [(''valid'', LF_valid), (''missing'', LF_missing), (''conflict'', LF_conflict)]"

definition OWNERSHIP_DOMAIN :: "(string \<times> ownership_fact) list" where
  "OWNERSHIP_DOMAIN = [(''agentdeck_owned'', OF_agentdeck_owned), (''human_owned'', OF_human_owned), (''conflict'', OF_conflict)]"

lemmas recovery_tables =
  MISSION_STATUSES_def RECEIPT_DOMAIN_def REPLY_DOMAIN_def CONFIGURED_TRANSPORTS_def TRANSPORT_DOMAIN_def
  LINEAGE_DOMAIN_def OWNERSHIP_DOMAIN_def

definition RECOVERY_FACT_FIELDS :: "string list" where
  "RECOVERY_FACT_FIELDS =
     [''mission_id'', ''mission_state'', ''attempt_id'', ''attempt_state'', ''receipt_state'', ''reply_state'', ''handoff_state'',
      ''permission_state'', ''configured_transport'', ''transport_state'', ''snapshot_state'', ''lineage_state'', ''ownership_state'']"

record recovery_facts =
  rf_mission_id :: pstr
  rf_mission_state :: mission_state
  rf_attempt_id :: "pstr option"
  rf_attempt_state :: attempt_state
  rf_receipt_state :: receipt_fact
  rf_reply_state :: reply_state
  rf_handoff_state :: handoff_state
  rf_permission_state :: permission_state
  rf_configured_transport :: configured_transport
  rf_transport_state :: transport_state
  rf_snapshot_state :: snapshot_state
  rf_lineage_state :: lineage_fact
  rf_ownership_state :: ownership_fact

text \<open>The constructor: \<open>kw\<close> gives the value of each keyword argument.\<close>

definition recovery_facts_init :: "(string \<Rightarrow> pyval) \<Rightarrow> py_exn + recovery_facts" where
  "recovery_facts_init kw =
     (let bad = (\<lambda>what. ValueError (''invalid recovery facts: '' @ what)) in
      rfail_if (\<not> str_matches MISSION_ID (kw ''mission_id'')) (bad ''mission identity'')
      (case (state_of MISSION_STATUSES (kw ''mission_state''), state_of ATTEMPT_STATES (kw ''attempt_state''),
             state_of RECEIPT_DOMAIN (kw ''receipt_state''), state_of REPLY_DOMAIN (kw ''reply_state''),
             state_of HANDOFF_STATES (kw ''handoff_state''), state_of PERMISSION_STATES (kw ''permission_state''),
             state_of CONFIGURED_TRANSPORTS (kw ''configured_transport''), state_of TRANSPORT_DOMAIN (kw ''transport_state''),
             state_of SNAPSHOT_STATES (kw ''snapshot_state''), state_of LINEAGE_DOMAIN (kw ''lineage_state''),
             state_of OWNERSHIP_DOMAIN (kw ''ownership_state'')) of
         (Some m, Some a, Some c, Some r, Some h, Some p, Some k, Some t, Some sn, Some l, Some ow) \<Rightarrow>
           (case optional_identity (kw ''attempt_id'') ATTEMPT_ID of
              None \<Rightarrow> Inl (bad ''attempt identity'')
            | Some aid \<Rightarrow>
                rfail_if ((a = A_none) \<noteq> (aid = None)) (bad ''attempt lineage'')
                (rfail_if (a = A_none \<and> (c \<noteq> C_none \<or> r \<noteq> R_none \<or> h \<noteq> H_none)) (bad ''attempt lineage'')
                (Inr \<lparr>rf_mission_id = py_str (kw ''mission_id''), rf_mission_state = m, rf_attempt_id = aid, rf_attempt_state = a,
                   rf_receipt_state = c, rf_reply_state = r, rf_handoff_state = h, rf_permission_state = p,
                   rf_configured_transport = k, rf_transport_state = t, rf_snapshot_state = sn, rf_lineage_state = l,
                   rf_ownership_state = ow\<rparr>)))
       | _ \<Rightarrow> Inl (bad ''unknown state'')))"

definition recovery_facts_from_mapping :: "pyval \<Rightarrow> py_exn + recovery_facts" where
  "recovery_facts_from_mapping v =
     rfail_if (\<not> is_dict v \<or> dkeys v \<noteq> u ` set RECOVERY_FACT_FIELDS) (ValueError ''invalid recovery facts: exact fields required'')
     (recovery_facts_init (dget v))"

definition recovery_facts_summary :: "recovery_facts \<Rightarrow> pyval" where
  "recovery_facts_summary f = pdict
     [(''mission_id'', PStr (rf_mission_id f)),
      (''mission_state'', PS (state_name MISSION_STATUSES (rf_mission_state f))),
      (''attempt_id'', opt_str (rf_attempt_id f)),
      (''attempt_state'', PS (state_name ATTEMPT_STATES (rf_attempt_state f))),
      (''receipt_state'', PS (state_name RECEIPT_DOMAIN (rf_receipt_state f))),
      (''reply_state'', PS (state_name REPLY_DOMAIN (rf_reply_state f))),
      (''handoff_state'', PS (state_name HANDOFF_STATES (rf_handoff_state f))),
      (''permission_state'', PS (state_name PERMISSION_STATES (rf_permission_state f))),
      (''configured_transport'', PS (state_name CONFIGURED_TRANSPORTS (rf_configured_transport f))),
      (''transport_state'', PS (state_name TRANSPORT_DOMAIN (rf_transport_state f))),
      (''snapshot_state'', PS (state_name SNAPSHOT_STATES (rf_snapshot_state f))),
      (''lineage_state'', PS (state_name LINEAGE_DOMAIN (rf_lineage_state f))),
      (''ownership_state'', PS (state_name OWNERSHIP_DOMAIN (rf_ownership_state f)))]"

section \<open>Decisions\<close>

datatype classification = Resumable | Waiting_human | Ambiguous | Blocked | Terminal

definition CLASSIFICATIONS :: "(string \<times> classification) list" where
  "CLASSIFICATIONS =
     [(''resumable'', Resumable), (''waiting_human'', Waiting_human), (''ambiguous'', Ambiguous), (''blocked'', Blocked), (''terminal'', Terminal)]"

text \<open>The transitions a decision may name are a part of the scheduler's decisions.\<close>

definition ALLOWED_RECOVERY_TRANSITIONS :: "(string \<times> decision_kind) list" where
  "ALLOWED_RECOVERY_TRANSITIONS =
     [(''prepare_dispatch'', D_prepare_dispatch), (''dispatch_prepared'', D_dispatch_prepared), (''await_worker'', D_await_worker),
      (''validate_reply'', D_validate_reply), (''record_handoff'', D_record_handoff), (''activate_next'', D_activate_next)]"

record recovery_decision =
  rd_classification :: classification
  rd_reason :: pstr
  rd_mission_id :: pstr
  rd_attempt_id :: "pstr option"
  rd_next :: "decision_kind option"

text \<open>
  The constructor. The look-up of the classification, and for a resumable decision that of the
  transition, raises \<^verbatim>\<open>TypeError\<close> on a list or dictionary.
\<close>

definition decision_next :: "classification \<Rightarrow> pyval \<Rightarrow> py_exn + decision_kind option" where
  "decision_next c v =
     (if c = Resumable then
        rfail_if (\<not> py_hashable v) TypeError
        (case state_of ALLOWED_RECOVERY_TRANSITIONS v of
           None \<Rightarrow> Inl (ValueError ''resumable recovery decision requires an allowed transition'')
         | Some t \<Rightarrow> Inr (Some t))
      else rfail_if (v \<noteq> PNone) (ValueError ''non-resumable recovery decision has a transition'') (Inr None))"

definition recovery_decision_init :: "(string \<Rightarrow> pyval) \<Rightarrow> py_exn + recovery_decision" where
  "recovery_decision_init kw =
     rfail_if (\<not> py_hashable (kw ''classification'')) TypeError
     (case state_of CLASSIFICATIONS (kw ''classification'') of
        None \<Rightarrow> Inl (ValueError ''invalid recovery decision classification'')
      | Some c \<Rightarrow>
          rfail_if (\<not> str_matches (\<lambda>s. s \<noteq> []) (kw ''reason'')) (ValueError ''invalid recovery decision reason'')
          (rfail_if (\<not> str_matches MISSION_ID (kw ''mission_id'')) (ValueError ''invalid recovery decision Mission identity'')
          (case optional_identity (kw ''attempt_id'') ATTEMPT_ID of
             None \<Rightarrow> Inl (ValueError ''invalid recovery decision attempt identity'')
           | Some aid \<Rightarrow>
               rbind (decision_next c (kw ''next_transition'')) (\<lambda>t.
               Inr \<lparr>rd_classification = c, rd_reason = py_str (kw ''reason''), rd_mission_id = py_str (kw ''mission_id''),
                  rd_attempt_id = aid, rd_next = t\<rparr>))))"

definition transition_value :: "decision_kind option \<Rightarrow> pyval" where
  "transition_value t = (case t of None \<Rightarrow> PNone | Some k \<Rightarrow> PS (state_name ALLOWED_RECOVERY_TRANSITIONS k))"

definition recovery_decision_of ::
    "recovery_facts \<Rightarrow> classification \<Rightarrow> string \<Rightarrow> decision_kind option \<Rightarrow> py_exn + recovery_decision" where
  "recovery_decision_of f c reason t = recovery_decision_init (dget (pdict
     [(''classification'', PS (state_name CLASSIFICATIONS c)), (''reason'', PS reason), (''mission_id'', PStr (rf_mission_id f)),
      (''attempt_id'', opt_str (rf_attempt_id f)), (''next_transition'', transition_value t)]))"

abbreviation rblock :: "string \<Rightarrow> recovery_facts \<Rightarrow> py_exn + recovery_decision" where
  "rblock reason f \<equiv> recovery_decision_of f Blocked reason None"

abbreviation rambiguous :: "string \<Rightarrow> recovery_facts \<Rightarrow> py_exn + recovery_decision" where
  "rambiguous reason f \<equiv> recovery_decision_of f Ambiguous reason None"

abbreviation rresume :: "decision_kind \<Rightarrow> string \<Rightarrow> recovery_facts \<Rightarrow> py_exn + recovery_decision" where
  "rresume t reason f \<equiv> recovery_decision_of f Resumable reason (Some t)"

section \<open>The gate\<close>

definition failed_attempt_states :: "attempt_state list" where
  "failed_attempt_states = [A_failed, A_cancelled, A_interrupted]"

text \<open>The last section of the gate: what the current attempt of a live, unobstructed Mission needs next.\<close>

definition reconcile_progress :: "recovery_facts \<Rightarrow> py_exn + recovery_decision" where
  "reconcile_progress f =
     (if rf_attempt_state f = A_none then rresume D_prepare_dispatch ''Mission has no active Worker attempt'' f
      else if rf_attempt_state f = A_prepared then
        (if rf_receipt_state f \<noteq> C_none \<or> rf_reply_state f \<noteq> R_none then rblock ''prepared attempt has external evidence'' f
         else rresume D_dispatch_prepared ''prepared Worker attempt has not been dispatched'' f)
      else if rf_attempt_state f \<in> {A_submitted, A_running} then
        (if rf_reply_state f \<noteq> R_none then rblock ''Worker reply precedes a terminal successful attempt'' f
         else rresume D_await_worker ''submitted Worker receipt is waiting for a reply'' f)
      else if rf_attempt_state f \<in> set failed_attempt_states then
        rblock (''Worker attempt ended as '' @ state_name ATTEMPT_STATES (rf_attempt_state f)) f
      else if rf_attempt_state f \<in> set successful_attempt_states then
        (if rf_receipt_state f \<noteq> C_recorded then rblock ''terminal Worker result lacks a receipt'' f
         else if rf_reply_state f = R_none then rblock ''terminal Worker result has no reply evidence'' f
         else if rf_reply_state f = R_invalid then rblock ''Worker reply is invalid'' f
         else if rf_reply_state f = R_received then
           (if rf_handoff_state f \<noteq> H_none then rblock ''handoff precedes reply validation'' f
            else rresume D_validate_reply ''terminal Worker reply awaits validation'' f)
         else if rf_handoff_state f = H_none then rresume D_record_handoff ''validated Worker reply awaits compact handoff'' f
         else if rf_handoff_state f = H_pending then rblock ''Mission handoff state is incomplete'' f
         else rresume D_activate_next ''validated compact handoff can activate the next step'' f)
      else rblock ''Mission recovery evidence is incomplete'' f)"

text \<open>The middle section: Missions that have ended or are not confirmed, transport and permission.\<close>

definition reconcile_obstacles :: "recovery_facts \<Rightarrow> py_exn + recovery_decision" where
  "reconcile_obstacles f =
     (if rf_mission_state f \<in> set terminal_mission_states then
        (if rf_attempt_state f \<in> {A_prepared, A_submitted, A_running} then rblock ''terminal Mission retains an active Worker attempt'' f
         else if rf_attempt_state f \<in> set successful_attempt_states \<and> rf_receipt_state f \<noteq> C_recorded then
           rblock ''terminal Worker result lacks a receipt'' f
         else if rf_attempt_state f \<in> set successful_attempt_states \<and> rf_reply_state f = R_none then
           rblock ''terminal Worker result has no reply evidence'' f
         else if rf_attempt_state f \<in> set successful_attempt_states \<and> (rf_reply_state f \<noteq> R_validated \<or> rf_handoff_state f \<noteq> H_recorded) then
           rblock ''terminal Mission result is not fully validated'' f
         else recovery_decision_of f Terminal (''Mission is '' @ state_name MISSION_STATUSES (rf_mission_state f)) None)
      else if rf_mission_state f = M_pending_confirmation then
        recovery_decision_of f Waiting_human ''Mission confirmation is pending'' None
      else if rf_transport_state f = T_missing then rblock ''Worker transport is missing'' f
      else if rf_transport_state f = T_invalid then rblock ''Worker transport is invalid'' f
      else if rf_permission_state f = P_pending then recovery_decision_of f Waiting_human ''Worker permission is pending'' None
      else if rf_permission_state f \<in> {P_denied, P_expired} then
        rblock (''Worker permission is '' @ state_name PERMISSION_STATES (rf_permission_state f)) f
      else reconcile_progress f)"

text \<open>The whole gate; its first section is integrity, then the attempts whose outcome is unknown.\<close>

definition reconcile_gate :: "recovery_facts \<Rightarrow> py_exn + recovery_decision" where
  "reconcile_gate f =
     (if rf_snapshot_state f = N_drift then rblock ''frozen Mission snapshot drift'' f
      else if rf_snapshot_state f = N_missing then rblock ''frozen Mission snapshot is missing'' f
      else if rf_lineage_state f = LF_missing then rblock ''Mission recovery lineage is incomplete'' f
      else if rf_lineage_state f = LF_conflict then rblock ''Mission recovery lineage conflicts'' f
      else if rf_ownership_state f = OF_human_owned then rblock ''Worker is human-owned'' f
      else if rf_ownership_state f = OF_conflict then rblock ''Worker ownership conflicts'' f
      else if rf_handoff_state f \<noteq> H_none \<and> rf_reply_state f \<noteq> R_validated then
        rblock ''Mission handoff lacks validated reply lineage'' f
      else if rf_reply_state f \<noteq> R_none \<and> rf_receipt_state f \<noteq> C_recorded then rblock ''Worker reply lacks receipt lineage'' f
      else if rf_attempt_state f = A_admitting then rambiguous ''Worker admission outcome is unknown'' f
      else if rf_attempt_state f = A_ambiguous then rambiguous ''Worker attempt outcome is ambiguous'' f
      else if rf_configured_transport f = K_acp \<and> rf_attempt_state f \<in> {A_submitted, A_running} then
        rambiguous ''ACP Worker connection was lost across daemon restart'' f
      else if rf_attempt_state f \<in> {A_submitted, A_running} \<and> rf_receipt_state f = C_none then
        rambiguous ''Worker dispatch outcome lacks a receipt'' f
      else reconcile_obstacles f)"

section \<open>Durable records\<close>

definition RECOVERY_RECORD_FIELDS :: "string list" where
  "RECOVERY_RECORD_FIELDS = [''classification'', ''reason'', ''mission_id'', ''attempt_id'', ''next_transition'', ''classified_at'']"

definition recovery_record :: "recovery_decision \<Rightarrow> pyval \<Rightarrow> pyval" where
  "recovery_record d stamp = pdict
     [(''classification'', PS (state_name CLASSIFICATIONS (rd_classification d))), (''reason'', PStr (rd_reason d)),
      (''mission_id'', PStr (rd_mission_id d)), (''attempt_id'', opt_str (rd_attempt_id d)),
      (''next_transition'', transition_value (rd_next d)), (''classified_at'', stamp)]"

definition validate_recovery_record :: "(pstr \<Rightarrow> int option) \<Rightarrow> pyval \<Rightarrow> py_exn + pyval" where
  "validate_recovery_record parse v =
     (let bad = ValueError ''recovery_decisions record is invalid'' in
      rfail_if (\<not> is_dict v \<or> dkeys v \<noteq> u ` set RECOVERY_RECORD_FIELDS) bad
      (rbind (recovery_decision_init (dget v)) (\<lambda>d.
      rfail_if (aware_time parse (dget v ''classified_at'') = None) bad
      (Inr (recovery_record d (dget v ''classified_at''))))))"

definition REPLY_ID :: "pstr \<Rightarrow> bool" where
  "REPLY_ID s \<longleftrightarrow> length s = 16 \<and> take 4 s = u ''mrp_'' \<and> list_all is_hex (drop 4 s)"

definition HANDOFF_ID :: "pstr \<Rightarrow> bool" where
  "HANDOFF_ID s \<longleftrightarrow> length s = 16 \<and> take 4 s = u ''hof_'' \<and> list_all is_hex (drop 4 s)"

definition PERMISSION_ID :: "pstr \<Rightarrow> bool" where
  "PERMISSION_ID s \<longleftrightarrow> length s = 16 \<and> take 4 s = u ''prm_'' \<and> list_all is_hex (drop 4 s)"

definition validate_mission_recovery_evidence_record :: "pyval \<Rightarrow> py_exn + pyval" where
  "validate_mission_recovery_evidence_record v =
     (let attempt_id = dget v ''attempt_id''; agent_id = dget v ''agent_id'' in
      rfail_if (\<not> is_dict v \<or> dkeys v \<noteq> u ` {''mission_id'', ''attempt_id'', ''agent_id''}) (ValueError ''durable recovery evidence is invalid'')
      (rfail_if (\<not> str_matches MISSION_ID (dget v ''mission_id'') \<or> attempt_id \<noteq> PNone \<and> \<not> str_matches ATTEMPT_ID attempt_id)
        (ValueError ''durable recovery evidence is invalid'')
      (rfail_if (if attempt_id = PNone then agent_id \<noteq> PNone else \<not> str_matches (\<lambda>s. s \<noteq> []) agent_id)
        (ValueError ''durable recovery attempt lineage is invalid'')
      (Inr (pdict [(''mission_id'', dget v ''mission_id''), (''attempt_id'', attempt_id), (''agent_id'', agent_id)])))))"

text \<open>The part the reply and handoff records share; \<open>names\<close> are the field names and \<open>ids\<close> the identity fields with their patterns.\<close>

definition evidence_record_ok ::
    "string list \<Rightarrow> (string \<times> (pstr \<Rightarrow> bool)) list \<Rightarrow> string list \<Rightarrow> pyval \<Rightarrow> py_exn + bool" where
  "evidence_record_ok names ids states v =
     (if \<not> is_dict v \<or> dkeys v \<notin> {u ` set names, u ` set (names @ [''semantic_step_hash''])}
         \<or> \<not> list_all (\<lambda>(k, pattern). str_matches pattern (dget v k)) ids then Inr False
      else rbind (in_names (dget v ''state'') states) (\<lambda>known.
        Inr (known \<and> (dhas v ''semantic_step_hash'' \<longrightarrow> has_hash v ''semantic_step_hash''))))"

definition validate_mission_reply_evidence_record :: "pyval \<Rightarrow> py_exn + pyval" where
  "validate_mission_reply_evidence_record v =
     (let bad = ValueError ''durable recovery reply evidence is invalid'' in
      rbind (evidence_record_ok [''mission_id'', ''attempt_id'', ''reply_id'', ''dispatch_key'', ''state'', ''canonical_handoff'']
        [(''mission_id'', MISSION_ID), (''attempt_id'', ATTEMPT_ID), (''reply_id'', REPLY_ID), (''dispatch_key'', DISPATCH_KEY)]
        [''received'', ''validated'', ''invalid''] v) (\<lambda>ok.
      rfail_if (\<not> ok) bad
      (case validate_canonical_handoff (dget v ''canonical_handoff'') (Some (dget v ''dispatch_key'')) of
         Inl _ \<Rightarrow> Inl bad
       | Inr h \<Rightarrow> Inr (dput ''canonical_handoff'' (compact h) v))))"

definition validate_mission_handoff_evidence_record :: "pyval \<Rightarrow> py_exn + pyval" where
  "validate_mission_handoff_evidence_record v =
     (let bad = ValueError ''durable recovery handoff evidence is invalid'' in
      rbind (evidence_record_ok [''mission_id'', ''attempt_id'', ''handoff_id'', ''reply_id'', ''state'', ''canonical_handoff'']
        [(''mission_id'', MISSION_ID), (''attempt_id'', ATTEMPT_ID), (''handoff_id'', HANDOFF_ID), (''reply_id'', REPLY_ID)]
        [''pending'', ''recorded''] v) (\<lambda>ok.
      rfail_if (\<not> ok) bad
      (case validate_canonical_handoff (dget v ''canonical_handoff'') None of
         Inl _ \<Rightarrow> Inl bad
       | Inr h \<Rightarrow> Inr (dput ''canonical_handoff'' (compact h) v))))"

definition validate_mission_permission_binding :: "pyval \<Rightarrow> py_exn + pyval" where
  "validate_mission_permission_binding v =
     rfail_if (\<not> is_dict v \<or> dkeys v \<noteq> u ` {''mission_id'', ''attempt_id'', ''permission_id''}
       \<or> \<not> str_matches MISSION_ID (dget v ''mission_id'') \<or> \<not> str_matches ATTEMPT_ID (dget v ''attempt_id'')
       \<or> \<not> str_matches PERMISSION_ID (dget v ''permission_id'')) (ValueError ''durable recovery permission binding is invalid'')
     (Inr v)"

section \<open>Facts of a persisted state\<close>

text \<open>\<^verbatim>\<open>for item in v\<close>: a dictionary gives its keys, a string its characters, a number or \<^verbatim>\<open>None\<close> raises.\<close>

fun py_iter :: "pyval \<Rightarrow> py_exn + pyval list" where
  "py_iter (PList xs) = Inr xs"
| "py_iter (PDict d) = Inr (map (\<lambda>(k, _). PStr k) d)"
| "py_iter (PStr s) = Inr (map (\<lambda>c. PStr [c]) s)"
| "py_iter _ = Inl TypeError"

text \<open>The dictionaries of a collection whose field is a given value; a missing collection is empty.\<close>

definition items_with :: "pyval \<Rightarrow> string \<Rightarrow> string \<Rightarrow> pyval \<Rightarrow> py_exn + pyval list" where
  "items_with state collection field v =
     rbind (py_iter (dget_or state collection (PList []))) (\<lambda>items.
     Inr (filter (\<lambda>item. is_dict item \<and> py_eq (dget item field) v) items))"

definition attempt_order :: "nat \<times> pyval \<Rightarrow> pstr \<times> pstr" where
  "attempt_order a = (py_str (dget (snd a) ''created_at''), py_str (dget (snd a) ''attempt_id''))"

text \<open>\<^verbatim>\<open>max\<close> with a key: the first of the greatest.\<close>

fun latest :: "nat \<times> pyval \<Rightarrow> (nat \<times> pyval) list \<Rightarrow> nat \<times> pyval" where
  "latest cur [] = cur"
| "latest cur (a # as) = latest (if attempt_order cur < attempt_order a then a else cur) as"

definition current_attempt :: "pyval list \<Rightarrow> pyval \<Rightarrow> py_exn + pyval option" where
  "current_attempt attempts mission_id =
     (let mission_attempts = enumerate 0 (filter (\<lambda>item. is_dict item \<and> py_eq (dget item ''mission_id'') mission_id) attempts);
          active = filter (\<lambda>(_, item). is_active_attempt item) mission_attempts;
          cur = (case mission_attempts of [] \<Rightarrow> None | a # as \<Rightarrow> Some (latest a as)) in
      rfail_if (\<not> list_all (\<lambda>(_, item). py_hashable (dget item ''state'')) mission_attempts) TypeError
      (rfail_if (length active > 1) (ValueError ''multiple active Mission attempts'')
      (rfail_if (active \<noteq> [] \<and> map_option fst cur \<noteq> Some (fst (hd active))) (ValueError ''active Mission attempt is not current'')
      (Inr (map_option snd cur)))))"

definition field_of :: "pyval option \<Rightarrow> string \<Rightarrow> pyval" where
  "field_of cur k = (case cur of None \<Rightarrow> PNone | Some a \<Rightarrow> dget a k)"

text \<open>The binding of the Mission to its current attempt and agent.\<close>

definition check_binding :: "pyval list \<Rightarrow> pyval \<Rightarrow> pyval option \<Rightarrow> py_exn + unit" where
  "check_binding evidence_items mission_id cur =
     rbind (rmap validate_mission_recovery_evidence_record
       (filter (\<lambda>item. is_dict item \<and> py_eq (dget item ''mission_id'') mission_id) evidence_items)) (\<lambda>bindings.
     (case bindings of
        [binding] \<Rightarrow>
          rfail_if (dget binding ''attempt_id'' \<noteq> field_of cur ''attempt_id'') (ValueError ''durable recovery evidence mismatch'')
          (rfail_if (dget binding ''agent_id'' \<noteq> field_of cur ''agent_id'') (ValueError ''durable recovery attempt binding mismatch'')
          (Inr ()))
      | _ \<Rightarrow> Inl (ValueError ''durable recovery evidence mismatch'')))"

text \<open>The Worker the Mission is at: its agent, or nothing, and whether the snapshot and the attempt agree on it.\<close>

definition target_of :: "pyval \<Rightarrow> pyval option \<Rightarrow> pyval \<times> lineage_fact" where
  "target_of snapshot cur =
     (let steps = list_items (dget (dget snapshot ''mission'') ''steps'') in
      case cur of
        None \<Rightarrow> (case steps of [] \<Rightarrow> PNone | s # _ \<Rightarrow> dget s ''agent_id'', LF_valid)
      | Some a \<Rightarrow>
          (case filter (\<lambda>s. py_eq (dget s ''step_id'') (dget a ''step_id'')) steps of
             [s] \<Rightarrow>
               if dget s ''agent_id'' \<noteq> dget a ''agent_id'' then (PNone, LF_conflict)
               else (dget a ''agent_id'',
                 if dget s ''semantic_step_hash'' = PNone then (if dhas a ''semantic_step_hash'' then LF_conflict else LF_valid)
                 else if dget a ''semantic_step_hash'' \<noteq> dget s ''semantic_step_hash'' then LF_conflict else LF_valid)
           | _ \<Rightarrow> (PNone, LF_conflict)))"

definition transport_of :: "pyval \<Rightarrow> pyval option \<Rightarrow> pyval \<Rightarrow> pyval \<times> transport_state" where
  "transport_of snapshot cur target =
     (case find (\<lambda>w. dget w ''agent_id'' = target) (rev (list_items (dget snapshot ''workers''))) of
        None \<Rightarrow> (PS ''none'', T_missing)
      | Some w \<Rightarrow>
          (dget w ''configured_transport'',
           if cur \<noteq> None \<and> dget w ''configured_transport'' \<noteq> field_of cur ''configured_transport'' then T_invalid else T_ready))"

definition single_record :: "(pyval \<Rightarrow> py_exn + pyval) \<Rightarrow> pyval list \<Rightarrow> string \<Rightarrow> py_exn + pyval option" where
  "single_record validate items message =
     rbind (rmap validate items) (\<lambda>records.
     (case records of [] \<Rightarrow> Inr None | [r] \<Rightarrow> Inr (Some r) | _ \<Rightarrow> Inl (ValueError message)))"

definition reply_evidence :: "pyval \<Rightarrow> pyval \<Rightarrow> pyval option \<Rightarrow> py_exn + pyval option" where
  "reply_evidence state mission_id cur =
     rbind (items_with state ''mission_worker_replies'' ''attempt_id'' (field_of cur ''attempt_id'')) (\<lambda>items.
     rbind (single_record validate_mission_reply_evidence_record items ''duplicate durable recovery reply evidence'') (\<lambda>reply.
     (case reply of
        None \<Rightarrow> Inr None
      | Some r \<Rightarrow>
          rfail_if (cur = None \<or> dget r ''mission_id'' \<noteq> mission_id
            \<or> dget r ''dispatch_key'' \<noteq> field_of cur ''dispatch_key''
            \<or> dget r ''semantic_step_hash'' \<noteq> field_of cur ''semantic_step_hash'')
            (ValueError ''durable recovery reply lineage is invalid'')
          (Inr (Some r)))))"

definition handoff_evidence :: "pyval \<Rightarrow> pyval \<Rightarrow> pyval option \<Rightarrow> pyval option \<Rightarrow> py_exn + pyval option" where
  "handoff_evidence state mission_id cur reply =
     rbind (items_with state ''mission_handoffs'' ''attempt_id'' (field_of cur ''attempt_id'')) (\<lambda>items.
     rbind (single_record validate_mission_handoff_evidence_record items ''duplicate durable recovery handoff evidence'') (\<lambda>handoff.
     (case handoff of
        None \<Rightarrow> Inr None
      | Some h \<Rightarrow>
          rfail_if (case reply of
              None \<Rightarrow> True
            | Some r \<Rightarrow> dget h ''mission_id'' \<noteq> mission_id \<or> dget h ''reply_id'' \<noteq> dget r ''reply_id''
                \<or> dget r ''state'' \<noteq> PS ''validated''
                \<or> \<not> py_eq (dget h ''canonical_handoff'') (dget r ''canonical_handoff'')
                \<or> dget h ''semantic_step_hash'' \<noteq> dget r ''semantic_step_hash'')
            (ValueError ''durable recovery handoff reply lineage is invalid'')
          (Inr (Some h)))))"

text \<open>The permission a binding names: its session and turn must be those of the attempt, over ACP.\<close>

abbreviation bad_scope :: py_exn where
  "bad_scope \<equiv> ValueError ''durable recovery permission agent scope mismatch''"

definition session_in_scope :: "(pstr \<Rightarrow> pstr) \<Rightarrow> pyval option \<Rightarrow> pyval \<Rightarrow> pyval \<Rightarrow> py_exn + unit" where
  "session_in_scope sha snapshot a session =
     (case snapshot of
        None \<Rightarrow> Inl bad_scope
      | Some s \<Rightarrow>
          (case filter (\<lambda>w. dget w ''agent_id'' = dget a ''agent_id'') (list_items (dget s ''workers'')) of
             [w] \<Rightarrow>
               let caps = dget session ''capabilities''; workspace = dget session ''workspace'' in
               rfail_if (dget a ''configured_transport'' \<noteq> PS ''acp'' \<or> dget w ''configured_transport'' \<noteq> PS ''acp''
                 \<or> dget session ''provider'' \<noteq> dget w ''provider'' \<or> dget session ''transport'' \<noteq> PS ''acp-adapter''
                 \<or> \<not> is_str workspace) bad_scope
               (rbind (canonical_snapshot_hash sha (pdict [(''project_root'', workspace)])) (\<lambda>h.
               rfail_if (PStr h \<noteq> dget (dget s ''mission'') ''project_scope_hash'' \<or> \<not> is_str (dget session ''native_session_id'')
                 \<or> \<not> is_dict caps
                 \<or> \<not> list_all (\<lambda>name. dget caps name = PBool True)
                     [''structured_sessions'', ''streaming_updates'', ''structured_tools'', ''permission_requests'']
                 \<or> dget caps ''observable_terminal'' \<noteq> PBool False) bad_scope
               (Inr ())))
           | _ \<Rightarrow> Inl bad_scope))"

fun permission_walk :: "pyval \<Rightarrow> pyval \<Rightarrow> pyval list \<Rightarrow> py_exn + pyval" where
  "permission_walk permission_id cur [] = Inr cur"
| "permission_walk permission_id cur (t # ts) =
     (if is_dict t \<and> dget t ''entity_type'' = PS ''permission'' \<and> dget t ''entity_id'' = permission_id
      then rfail_if (\<not> py_eq (dget t ''from_state'') cur) (ValueError ''durable recovery permission history is invalid'')
        (permission_walk permission_id (dget t ''to_state'') ts)
      else permission_walk permission_id cur ts)"

definition update_sequences :: "pyval \<Rightarrow> pyval list \<Rightarrow> int list" where
  "update_sequences permission_id items =
     List.map_filter (\<lambda>item.
       if is_dict item \<and> dget item ''kind'' = PS ''permission_request'' \<and> is_dict (dget item ''payload'')
          \<and> dget (dget item ''payload'') ''permission_id'' = permission_id
       then (case dget item ''sequence'' of PInt n \<Rightarrow> Some n | _ \<Rightarrow> None) else None) items"

type_synonym derived_permission = "nat \<times> int \<times> pstr \<times> pstr \<times> pstr"

definition derive_permission ::
    "(pstr \<Rightarrow> pstr) \<Rightarrow> pyval \<Rightarrow> pyval option \<Rightarrow> pyval \<Rightarrow> pyval \<Rightarrow> py_exn + derived_permission" where
  "derive_permission sha state snapshot a binding =
     (let permission_id = dget binding ''permission_id'' in
      rbind (items_with state ''permission_requests'' ''permission_id'' permission_id) (\<lambda>permissions.
      (case permissions of
         [permission] \<Rightarrow>
      rbind (items_with state ''agent_sessions'' ''session_id'' (dget permission ''session_id'')) (\<lambda>sessions.
      (case sessions of
         [session] \<Rightarrow>
      rfail_if (dget session ''agent_id'' \<noteq> dget a ''agent_id'') bad_scope
      (rbind (session_in_scope sha snapshot a session) (\<lambda>_.
      rbind (items_with state ''protocol_turns'' ''turn_id'' (dget permission ''turn_id'')) (\<lambda>turns.
      rfail_if (case turns of
          [turn] \<Rightarrow> \<not> py_eq (dget turn ''session_id'') (dget session ''session_id'') \<or> dget turn ''kind'' \<noteq> PS ''prompt''
            \<or> \<not> py_eq (dget turn ''message_id'') (dget a ''dispatch_key'')
        | _ \<Rightarrow> True) (ValueError ''durable recovery permission turn scope mismatch'')
      (rbind (rbind (py_iter (dget_or state ''protocol_state_transitions'' (PList [])))
        (permission_walk permission_id (dget permission ''status''))) (\<lambda>status.
      rbind (py_iter (dget_or state ''transport_updates'' (PList []))) (\<lambda>updates.
      Inr (case update_sequences permission_id updates of
          [n] \<Rightarrow> (1, n, py_str (dget permission ''created_at''), py_str permission_id, py_str status)
        | _ \<Rightarrow> (0, - 1, py_str (dget permission ''created_at''), py_str permission_id, py_str status))))))))
       | _ \<Rightarrow> Inl bad_scope))
       | _ \<Rightarrow> Inl (ValueError ''durable recovery permission record is missing''))))"

definition permission_evidence :: "(pstr \<Rightarrow> pstr) \<Rightarrow> pyval \<Rightarrow> pyval \<Rightarrow> pyval option \<Rightarrow> pyval option \<Rightarrow> py_exn + pstr" where
  "permission_evidence sha state mission_id snapshot cur =
     rbind (items_with state ''mission_permission_bindings'' ''attempt_id'' (field_of cur ''attempt_id'')) (\<lambda>items.
     rbind (rmap validate_mission_permission_binding items) (\<lambda>bindings.
     if bindings = [] then Inr (u ''none'')
     else case cur of
        None \<Rightarrow> Inl (ValueError ''durable recovery permission lineage is invalid'')
      | Some a \<Rightarrow>
          rfail_if (list_ex (\<lambda>b. dget b ''mission_id'' \<noteq> mission_id) bindings)
            (ValueError ''durable recovery permission lineage is invalid'')
          (rbind (rmap (derive_permission sha state snapshot a) bindings) (\<lambda>derived.
          Inr (snd (snd (snd (snd (last (sort derived)))))))))) "

definition ownership_of :: "pyval \<Rightarrow> pyval \<Rightarrow> py_exn + ownership_fact" where
  "ownership_of state target =
     (case validate_conversation_history
         (pdict (map (\<lambda>k. (k, dget_or state k (PList []))) [''conversation_sessions'', ''conversation_turns'', ''conversation_preview_bindings'']))
         (dget_or state ''conversation_state_transitions'' (PList [])) of
        Inl _ \<Rightarrow> Inl (ValueError ''durable recovery ownership history is invalid'')
      | Inr history \<Rightarrow>
          (let raw = (case (case target of PStr agent \<Rightarrow> map_of (ch_states history Ownership) agent | _ \<Rightarrow> None) of
               None \<Rightarrow> u ''agentdeck_owned'' | Some s \<Rightarrow> s) in
           Inr (if raw = u ''agentdeck_owned'' then OF_agentdeck_owned
                else if raw = u ''human_owned'' then OF_human_owned else OF_conflict)))"

definition snapshot_fact :: "pyval option \<Rightarrow> pyval \<Rightarrow> pyval option \<Rightarrow> snapshot_state" where
  "snapshot_fact snapshot mission_hash cur =
     (if cur \<noteq> None \<and> \<not> py_eq (field_of cur ''snapshot_hash'') mission_hash then N_drift
      else case snapshot of
        None \<Rightarrow> N_missing
      | Some s \<Rightarrow> if \<not> is_str mission_hash then N_missing else if dget s ''execution_hash'' \<noteq> mission_hash then N_drift else N_valid)"

definition recovery_facts_from_persisted_state :: "(pstr \<Rightarrow> pstr) \<Rightarrow> pyval \<Rightarrow> pyval \<Rightarrow> py_exn + recovery_facts" where
  "recovery_facts_from_persisted_state sha state mission_id =
     rfail_if (\<not> is_dict state \<or> \<not> str_matches MISSION_ID mission_id) (ValueError ''persisted recovery state is invalid'')
     (rfail_if (\<not> is_list (dget state ''missions'') \<or> \<not> is_list (dget state ''mission_attempts'')
        \<or> \<not> is_list (dget state ''mission_recovery_evidence'')) (ValueError ''persisted recovery state is invalid'')
     (case filter (\<lambda>item. is_dict item \<and> dget item ''mission_id'' = mission_id) (list_items (dget state ''missions'')) of
        [mission] \<Rightarrow>
     rfail_if (state_of MISSION_STATUSES (dget mission ''status'') = None) (ValueError ''persisted Mission evidence is invalid'')
     (rbind (current_attempt (list_items (dget state ''mission_attempts'')) mission_id) (\<lambda>cur.
     rbind (check_binding (list_items (dget state ''mission_recovery_evidence'')) mission_id cur) (\<lambda>_.
     let snapshot = (case validate_execution_snapshot sha (dget mission ''execution_snapshot'') of Inl _ \<Rightarrow> None | Inr s \<Rightarrow> Some s);
         (target, lineage) = (case snapshot of None \<Rightarrow> (PNone, LF_valid) | Some s \<Rightarrow> target_of s cur);
         (transport, ready) = (case snapshot of None \<Rightarrow> (PS ''none'', T_missing) | Some s \<Rightarrow> transport_of s cur target) in
     rbind (reply_evidence state mission_id cur) (\<lambda>reply.
     rbind (handoff_evidence state mission_id cur reply) (\<lambda>handoff.
     rbind (permission_evidence sha state mission_id snapshot cur) (\<lambda>permission.
     rbind (ownership_of state target) (\<lambda>owner.
     recovery_facts_init (dget (pdict
       [(''mission_id'', mission_id), (''mission_state'', dget mission ''status''), (''attempt_id'', field_of cur ''attempt_id''),
        (''attempt_state'', case cur of None \<Rightarrow> PS ''none'' | Some a \<Rightarrow> dget a ''state''),
        (''receipt_state'', if field_of cur ''receipt_summary'' \<noteq> PNone then PS ''recorded'' else PS ''none''),
        (''reply_state'', case reply of None \<Rightarrow> PS ''none'' | Some r \<Rightarrow> dget r ''state''),
        (''handoff_state'', case handoff of None \<Rightarrow> PS ''none'' | Some h \<Rightarrow> dget h ''state''),
        (''permission_state'', PStr permission), (''configured_transport'', transport),
        (''transport_state'', PS (state_name TRANSPORT_DOMAIN ready)),
        (''snapshot_state'', PS (state_name SNAPSHOT_STATES (snapshot_fact snapshot (dget mission ''snapshot_hash'') cur))),
        (''lineage_state'', PS (state_name LINEAGE_DOMAIN lineage)),
        (''ownership_state'', PS (state_name OWNERSHIP_DOMAIN owner))])))))))))
      | _ \<Rightarrow> Inl (ValueError ''persisted Mission evidence is invalid'')))"

section \<open>The gate is total\<close>

lemma recovery_state_of_name:
  "state_of RECEIPT_DOMAIN (PS (state_name RECEIPT_DOMAIN c)) = Some c"
  "r \<noteq> R_pending \<Longrightarrow> state_of REPLY_DOMAIN (PS (state_name REPLY_DOMAIN r)) = Some r"
  "m \<noteq> M_idle \<Longrightarrow> state_of MISSION_STATUSES (PS (state_name MISSION_STATUSES m)) = Some m"
  "state_of CONFIGURED_TRANSPORTS (PS (state_name CONFIGURED_TRANSPORTS k)) = Some k"
  "state_of TRANSPORT_DOMAIN (PS (state_name TRANSPORT_DOMAIN t)) = Some t"
  "state_of LINEAGE_DOMAIN (PS (state_name LINEAGE_DOMAIN l)) = Some l"
  "state_of OWNERSHIP_DOMAIN (PS (state_name OWNERSHIP_DOMAIN w)) = Some w"
  "state_of CLASSIFICATIONS (PS (state_name CLASSIFICATIONS z)) = Some z"
  by (cases c, simp_all add: recovery_tables)
     (cases r, simp_all add: recovery_tables,
      cases m, simp_all add: recovery_tables,
      cases k, simp_all add: recovery_tables,
      cases t, simp_all add: recovery_tables,
      cases l, simp_all add: recovery_tables,
      cases w, simp_all add: recovery_tables,
      cases z, simp_all add: CLASSIFICATIONS_def)

lemma recovery_domains:
  "state_of MISSION_STATUSES v = Some m \<Longrightarrow> m \<noteq> M_idle" "state_of REPLY_DOMAIN v = Some r \<Longrightarrow> r \<noteq> R_pending"
  by (auto simp: recovery_tables split: if_splits)

text \<open>What the constructor accepts.\<close>

definition valid_recovery_facts :: "recovery_facts \<Rightarrow> bool" where
  "valid_recovery_facts f \<longleftrightarrow> MISSION_ID (rf_mission_id f) \<and> identity_ok ATTEMPT_ID (rf_attempt_id f)
     \<and> rf_mission_state f \<noteq> M_idle \<and> rf_reply_state f \<noteq> R_pending
     \<and> (rf_attempt_state f = A_none \<longleftrightarrow> rf_attempt_id f = None)
     \<and> (rf_attempt_state f = A_none \<longrightarrow> rf_receipt_state f = C_none \<and> rf_reply_state f = R_none \<and> rf_handoff_state f = H_none)"

lemma recovery_facts_init_valid: "recovery_facts_init kw = Inr f \<Longrightarrow> valid_recovery_facts f"
  by (auto simp: recovery_facts_init_def Let_def valid_recovery_facts_def res_simps optional_identity_ok str_matches_eq
      dest: recovery_domains split: option.splits prod.splits)

definition allowed_next :: "classification \<Rightarrow> decision_kind option \<Rightarrow> bool" where
  "allowed_next c t \<longleftrightarrow> (if c = Resumable then t \<in> Some ` snd ` set ALLOWED_RECOVERY_TRANSITIONS else t = None)"

lemma decision_next_value: "allowed_next c t \<Longrightarrow> decision_next c (transition_value t) = Inr t"
  by (auto simp: allowed_next_def decision_next_def transition_value_def ALLOWED_RECOVERY_TRANSITIONS_def split: if_splits)

definition valid_decision :: "recovery_decision \<Rightarrow> bool" where
  "valid_decision d \<longleftrightarrow> allowed_next (rd_classification d) (rd_next d) \<and> rd_reason d \<noteq> [] \<and> MISSION_ID (rd_mission_id d)
     \<and> identity_ok ATTEMPT_ID (rd_attempt_id d)"

lemma optional_identity_opt_str [simp]: "identity_ok P i \<Longrightarrow> optional_identity (opt_str i) P = Some i"
  by (cases i) auto

lemma recovery_decision_of_eq:
  assumes "valid_recovery_facts f" "allowed_next c t" "reason \<noteq> []"
  shows "recovery_decision_of f c reason t = Inr \<lparr>rd_classification = c, rd_reason = u reason, rd_mission_id = rf_mission_id f,
    rd_attempt_id = rf_attempt_id f, rd_next = t\<rparr>"
  using assms unfolding valid_recovery_facts_def
  by (simp add: recovery_decision_of_def recovery_decision_init_def recovery_state_of_name decision_next_value)

lemma allowed_next_simps [simp]:
  "allowed_next Blocked None" "allowed_next Ambiguous None" "allowed_next Waiting_human None" "allowed_next Terminal None"
  "allowed_next Resumable (Some D_prepare_dispatch)" "allowed_next Resumable (Some D_dispatch_prepared)"
  "allowed_next Resumable (Some D_await_worker)" "allowed_next Resumable (Some D_validate_reply)"
  "allowed_next Resumable (Some D_record_handoff)" "allowed_next Resumable (Some D_activate_next)"
  by (simp_all add: allowed_next_def ALLOWED_RECOVERY_TRANSITIONS_def)

text \<open>A computation that ends in a valid decision about the Mission and attempt of the facts.\<close>

definition decides :: "recovery_facts \<Rightarrow> py_exn + recovery_decision \<Rightarrow> bool" where
  "decides f m \<longleftrightarrow> (case m of Inl _ \<Rightarrow> False
     | Inr d \<Rightarrow> valid_decision d \<and> rd_mission_id d = rf_mission_id f \<and> rd_attempt_id d = rf_attempt_id f)"

lemma decides_if: "(c \<Longrightarrow> decides f a) \<Longrightarrow> (\<not> c \<Longrightarrow> decides f b) \<Longrightarrow> decides f (if c then a else b)"
  by simp

lemma decides_of: "valid_recovery_facts f \<Longrightarrow> allowed_next c t \<Longrightarrow> reason \<noteq> [] \<Longrightarrow> decides f (recovery_decision_of f c reason t)"
  by (simp add: decides_def recovery_decision_of_eq valid_decision_def) (simp add: valid_recovery_facts_def)

lemma reconcile_gate_decides:
  assumes "valid_recovery_facts f"
  shows "decides f (reconcile_gate f)"
  unfolding reconcile_gate_def reconcile_obstacles_def reconcile_progress_def
  by (intro decides_if decides_of assms) simp_all

section \<open>What a restarted daemon may go on with\<close>

text \<open>The next transition of the current attempt, and what stands in the way of every transition.\<close>

fun due :: "recovery_facts \<Rightarrow> decision_kind option" where
  "due f =
     (let clean = rf_reply_state f = R_none \<and> rf_handoff_state f = H_none; receipt = rf_receipt_state f = C_recorded in
      case rf_attempt_state f of
        A_none \<Rightarrow> Some D_prepare_dispatch
      | A_prepared \<Rightarrow> if clean \<and> \<not> receipt then Some D_dispatch_prepared else None
      | a \<Rightarrow>
          if a \<in> {A_submitted, A_running} then
            (if clean \<and> receipt \<and> rf_configured_transport f \<noteq> K_acp then Some D_await_worker else None)
          else if a \<in> {A_completed, A_succeeded} \<and> receipt then
            (case (rf_reply_state f, rf_handoff_state f) of
               (R_received, H_none) \<Rightarrow> Some D_validate_reply
             | (R_validated, H_none) \<Rightarrow> Some D_record_handoff
             | (R_validated, H_recorded) \<Rightarrow> Some D_activate_next
             | _ \<Rightarrow> None)
          else None)"

declare due.simps [simp del]

definition unobstructed :: "recovery_facts \<Rightarrow> bool" where
  "unobstructed f \<longleftrightarrow> rf_snapshot_state f = N_valid \<and> rf_lineage_state f = LF_valid \<and> rf_ownership_state f = OF_agentdeck_owned
     \<and> rf_mission_state f \<in> {M_preparing, M_running} \<and> rf_transport_state f = T_ready
     \<and> rf_permission_state f \<in> {P_none, P_approved}"

definition next_of :: "py_exn + recovery_decision \<Rightarrow> decision_kind option" where
  "next_of m = (case m of Inl _ \<Rightarrow> None | Inr d \<Rightarrow> rd_next d)"

lemma next_of_decision:
  "valid_recovery_facts f \<Longrightarrow> allowed_next c t \<Longrightarrow> reason \<noteq> [] \<Longrightarrow> next_of (recovery_decision_of f c reason t) = t"
  by (simp add: next_of_def recovery_decision_of_eq)

lemma next_of_if: "next_of (if c then a else b) = (if c then next_of a else next_of b)"
  by simp

text \<open>The reply and handoff rules of the gate's first section, as far as the attempt's next step needs them.\<close>

definition evidence_ordered :: "recovery_facts \<Rightarrow> bool" where
  "evidence_ordered f \<longleftrightarrow> (rf_handoff_state f \<noteq> H_none \<longrightarrow> rf_reply_state f = R_validated)
     \<and> (rf_reply_state f \<noteq> R_none \<longrightarrow> rf_receipt_state f = C_recorded)"

lemma next_of_progress:
  assumes v: "valid_recovery_facts f" and e: "evidence_ordered f"
    and a: "rf_attempt_state f \<notin> {A_admitting, A_ambiguous}"
    and k: "\<not> (rf_configured_transport f = K_acp \<and> rf_attempt_state f \<in> {A_submitted, A_running})"
    and c: "\<not> (rf_attempt_state f \<in> {A_submitted, A_running} \<and> rf_receipt_state f = C_none)"
  shows "next_of (reconcile_progress f) = due f"
proof -
  have rp: "rf_reply_state f \<noteq> R_pending" using v by (simp add: valid_recovery_facts_def)
  have cc: "rf_receipt_state f \<noteq> C_recorded \<longleftrightarrow> rf_receipt_state f = C_none" by (cases "rf_receipt_state f") auto
  show ?thesis
    unfolding reconcile_progress_def next_of_if
    using e a k c rp cc v
    by (cases "rf_attempt_state f"; cases "rf_reply_state f"; cases "rf_handoff_state f")
       (simp_all add: next_of_decision [OF v] due.simps failed_attempt_states_def successful_attempt_states_def Let_def
          evidence_ordered_def)
qed

lemma due_evidence: "valid_recovery_facts f \<Longrightarrow> due f \<noteq> None \<Longrightarrow> evidence_ordered f"
  by (cases "rf_attempt_state f"; cases "rf_reply_state f"; cases "rf_handoff_state f")
     (simp_all add: due.simps evidence_ordered_def valid_recovery_facts_def Let_def split: if_splits)

lemma next_of_obstacles:
  assumes v: "valid_recovery_facts f"
  shows "next_of (reconcile_obstacles f) =
    (if rf_mission_state f \<in> {M_preparing, M_running} \<and> rf_transport_state f = T_ready \<and> rf_permission_state f \<in> {P_none, P_approved}
     then next_of (reconcile_progress f) else None)"
proof -
  have "rf_mission_state f \<noteq> M_idle" using v by (simp add: valid_recovery_facts_def)
  then show ?thesis
    unfolding reconcile_obstacles_def next_of_if
    by (cases "rf_mission_state f"; cases "rf_transport_state f"; cases "rf_permission_state f")
       (simp_all add: next_of_decision [OF v] terminal_mission_states_def)
qed

lemma next_of_gate:
  assumes v: "valid_recovery_facts f"
  shows "next_of (reconcile_gate f) = (if unobstructed f then due f else None)"
proof (cases "evidence_ordered f")
  case False
  then have "due f = None" using due_evidence [OF v] by blast
  moreover have "next_of (reconcile_gate f) = None"
  proof -
    consider "rf_handoff_state f \<noteq> H_none \<and> rf_reply_state f \<noteq> R_validated" | "rf_reply_state f \<noteq> R_none \<and> rf_receipt_state f \<noteq> C_recorded"
      using False by (auto simp: evidence_ordered_def)
    then show ?thesis
      unfolding reconcile_gate_def next_of_if by cases (simp_all add: next_of_decision [OF v])
  qed
  ultimately show ?thesis by simp
next
  case e: True
  then have e': "\<not> (rf_handoff_state f \<noteq> H_none \<and> rf_reply_state f \<noteq> R_validated)"
      "\<not> (rf_reply_state f \<noteq> R_none \<and> rf_receipt_state f \<noteq> C_recorded)" by (auto simp: evidence_ordered_def)
  let ?i = "rf_snapshot_state f = N_valid \<and> rf_lineage_state f = LF_valid \<and> rf_ownership_state f = OF_agentdeck_owned"
  let ?a = "rf_attempt_state f \<in> {A_admitting, A_ambiguous}
    \<or> rf_configured_transport f = K_acp \<and> rf_attempt_state f \<in> {A_submitted, A_running}
    \<or> rf_attempt_state f \<in> {A_submitted, A_running} \<and> rf_receipt_state f = C_none"
  have g: "next_of (reconcile_gate f) = (if ?i \<and> \<not> ?a then next_of (reconcile_obstacles f) else None)"
    unfolding reconcile_gate_def next_of_if if_not_P [OF e'(1)] if_not_P [OF e'(2)]
    by (cases "rf_snapshot_state f"; cases "rf_lineage_state f"; cases "rf_ownership_state f")
       (simp_all add: next_of_decision [OF v], blast)
  show ?thesis
  proof (cases ?a)
    case True
    then have "due f = None" by (auto simp: due.simps Let_def)
    with True g show ?thesis by simp
  next
    case False
    then have "next_of (reconcile_progress f) = due f" using next_of_progress [OF v e] by blast
    with False g show ?thesis by (auto simp: next_of_obstacles [OF v] unobstructed_def)
  qed
qed

section \<open>Records read back\<close>

lemma recovery_record_get [simp]:
  "dget (recovery_record d t) ''classification'' = PS (state_name CLASSIFICATIONS (rd_classification d))"
  "dget (recovery_record d t) ''reason'' = PStr (rd_reason d)" "dget (recovery_record d t) ''mission_id'' = PStr (rd_mission_id d)"
  "dget (recovery_record d t) ''attempt_id'' = opt_str (rd_attempt_id d)"
  "dget (recovery_record d t) ''next_transition'' = transition_value (rd_next d)"
  "dget (recovery_record d t) ''classified_at'' = t"
  by (simp_all add: recovery_record_def)

lemma recovery_record_decision: "valid_decision d \<Longrightarrow> recovery_decision_init (dget (recovery_record d t)) = Inr d"
  by (cases d) (simp add: valid_decision_def recovery_decision_init_def recovery_state_of_name decision_next_value)

lemma recovery_record_valid:
  assumes "valid_decision d" "aware_time parse t \<noteq> None"
  shows "validate_recovery_record parse (recovery_record d t) = Inr (recovery_record d t)"
proof -
  have "is_dict (recovery_record d t)" "dkeys (recovery_record d t) = u ` set RECOVERY_RECORD_FIELDS"
    by (simp_all add: recovery_record_def RECOVERY_RECORD_FIELDS_def)
  then show ?thesis using assms(2) recovery_record_decision [OF assms(1)] by (auto simp: validate_recovery_record_def)
qed

lemma recovery_facts_get [simp]:
  "dget (recovery_facts_summary f) ''mission_id'' = PStr (rf_mission_id f)"
  "dget (recovery_facts_summary f) ''mission_state'' = PS (state_name MISSION_STATUSES (rf_mission_state f))"
  "dget (recovery_facts_summary f) ''attempt_id'' = opt_str (rf_attempt_id f)"
  "dget (recovery_facts_summary f) ''attempt_state'' = PS (state_name ATTEMPT_STATES (rf_attempt_state f))"
  "dget (recovery_facts_summary f) ''receipt_state'' = PS (state_name RECEIPT_DOMAIN (rf_receipt_state f))"
  "dget (recovery_facts_summary f) ''reply_state'' = PS (state_name REPLY_DOMAIN (rf_reply_state f))"
  "dget (recovery_facts_summary f) ''handoff_state'' = PS (state_name HANDOFF_STATES (rf_handoff_state f))"
  "dget (recovery_facts_summary f) ''permission_state'' = PS (state_name PERMISSION_STATES (rf_permission_state f))"
  "dget (recovery_facts_summary f) ''configured_transport'' = PS (state_name CONFIGURED_TRANSPORTS (rf_configured_transport f))"
  "dget (recovery_facts_summary f) ''transport_state'' = PS (state_name TRANSPORT_DOMAIN (rf_transport_state f))"
  "dget (recovery_facts_summary f) ''snapshot_state'' = PS (state_name SNAPSHOT_STATES (rf_snapshot_state f))"
  "dget (recovery_facts_summary f) ''lineage_state'' = PS (state_name LINEAGE_DOMAIN (rf_lineage_state f))"
  "dget (recovery_facts_summary f) ''ownership_state'' = PS (state_name OWNERSHIP_DOMAIN (rf_ownership_state f))"
  by (simp_all add: recovery_facts_summary_def)

lemma recovery_facts_read_back:
  assumes "valid_recovery_facts f"
  shows "recovery_facts_from_mapping (recovery_facts_summary f) = Inr f"
proof -
  have "is_dict (recovery_facts_summary f)" "dkeys (recovery_facts_summary f) = u ` set RECOVERY_FACT_FIELDS"
    by (simp_all add: recovery_facts_summary_def RECOVERY_FACT_FIELDS_def insert_commute)
  then show ?thesis
    using assms unfolding valid_recovery_facts_def
    by (cases f) (auto simp: recovery_facts_from_mapping_def recovery_facts_init_def Let_def recovery_state_of_name state_of_name)
qed

section \<open>Properties of the gate\<close>

text \<open>
  C6: (Totality.) On every facts the constructor of \<^verbatim>\<open>RecoveryFacts\<close> accepts, the recovery gate returns
  a decision about the same Mission and attempt, the decision's durable record passes its validator
  unchanged whatever aware time it is stamped with, and the facts are read back from their own summary.
\<close>

theorem recovery_gate_total:
  assumes "recovery_facts_init kw = Inr f" and "aware_time parse stamp \<noteq> None"
  shows "\<exists>d. reconcile_gate f = Inr d \<and> rd_mission_id d = rf_mission_id f \<and> rd_attempt_id d = rf_attempt_id f
    \<and> validate_recovery_record parse (recovery_record d stamp) = Inr (recovery_record d stamp)
    \<and> recovery_facts_from_mapping (recovery_facts_summary f) = Inr f"
proof -
  note v = recovery_facts_init_valid [OF assms(1)]
  then obtain d where "reconcile_gate f = Inr d" "valid_decision d" "rd_mission_id d = rf_mission_id f" "rd_attempt_id d = rf_attempt_id f"
    using reconcile_gate_decides [OF v] by (auto simp: decides_def split: sum.splits)
  then show ?thesis using recovery_record_valid [OF _ assms(2)] recovery_facts_read_back [OF v] by auto
qed

text \<open>
  C5: (Safety.) A restarted daemon may go on with a Mission exactly when nothing obstructs it (frozen
  snapshot and lineage valid, Worker owned by AgentDeck, Mission confirmed and not ended, transport
  ready, no permission pending or refused) and its current attempt is due for a next step; an attempt
  that holds a claim or lost its outcome, and a submitted one over ACP or without a receipt, is due for none.
\<close>

theorem recovery_resumes_exactly:
  assumes "recovery_facts_init kw = Inr f" and "reconcile_gate f = Inr d"
  shows "(rd_classification d = Resumable \<longleftrightarrow> unobstructed f \<and> due f \<noteq> None)
    \<and> rd_next d = (if unobstructed f then due f else None)"
proof -
  note v = recovery_facts_init_valid [OF assms(1)]
  have n: "rd_next d = (if unobstructed f then due f else None)"
    using next_of_gate [OF v] assms(2) by (simp add: next_of_def)
  have "allowed_next (rd_classification d) (rd_next d)"
    using reconcile_gate_decides [OF v] assms(2) by (simp add: decides_def valid_decision_def)
  then have "rd_classification d = Resumable \<longleftrightarrow> rd_next d \<noteq> None" by (auto simp: allowed_next_def split: if_splits)
  with n show ?thesis by (auto split: if_splits)
qed

definition ex_recovery_facts :: "attempt_state \<Rightarrow> receipt_fact \<Rightarrow> configured_transport \<Rightarrow> recovery_facts" where
  "ex_recovery_facts a c k = \<lparr>rf_mission_id = ex_id ''mis_'' 12, rf_mission_state = M_running,
     rf_attempt_id = Some (ex_id ''mat_'' 12), rf_attempt_state = a, rf_receipt_state = c, rf_reply_state = R_none,
     rf_handoff_state = H_none, rf_permission_state = P_none, rf_configured_transport = k, rf_transport_state = T_ready,
     rf_snapshot_state = N_valid, rf_lineage_state = LF_valid, rf_ownership_state = OF_agentdeck_owned\<rparr>"

lemma ex_recovery_facts_init:
  "a \<noteq> A_none \<Longrightarrow> recovery_facts_init (dget (recovery_facts_summary (ex_recovery_facts a c k))) = Inr (ex_recovery_facts a c k)"
  by (simp add: recovery_facts_init_def recovery_state_of_name state_of_name ex_recovery_facts_def Let_def)

theorem recovery_gate_total_witness:
  "\<exists>d. reconcile_gate (ex_recovery_facts A_prepared C_none K_acp) = Inr d
    \<and> validate_recovery_record ex_parse (recovery_record d (PStr (ex_isof 7))) = Inr (recovery_record d (PStr (ex_isof 7)))"
  using recovery_gate_total [of "dget (recovery_facts_summary (ex_recovery_facts A_prepared C_none K_acp))"
      "ex_recovery_facts A_prepared C_none K_acp" ex_parse "PStr (ex_isof 7)"]
    ex_recovery_facts_init [of A_prepared C_none K_acp] by (auto simp: ex_parse_def ex_isof_def)

theorem recovery_resumes_exactly_witness:
  "(\<exists>d. reconcile_gate (ex_recovery_facts A_prepared C_none K_acp) = Inr d \<and> rd_next d = Some D_dispatch_prepared)
   \<and> (\<exists>d. reconcile_gate (ex_recovery_facts A_submitted C_recorded K_acp) = Inr d \<and> rd_next d = None)"
proof -
  have g: "\<exists>d. reconcile_gate (ex_recovery_facts a c k) = Inr d \<and> rd_next d = due (ex_recovery_facts a c k)" if "a \<noteq> A_none" for a c k
  proof -
    note i = ex_recovery_facts_init [OF that, of c k]
    obtain d where d: "reconcile_gate (ex_recovery_facts a c k) = Inr d"
      using reconcile_gate_decides [OF recovery_facts_init_valid [OF i]] by (auto simp: decides_def split: sum.splits)
    have "unobstructed (ex_recovery_facts a c k)" by (simp add: unobstructed_def ex_recovery_facts_def)
    then show ?thesis using recovery_resumes_exactly [OF i d] d by auto
  qed
  show ?thesis
    using g [of A_prepared C_none K_acp] g [of A_submitted C_recorded K_acp] by (simp add: due.simps ex_recovery_facts_def)
qed

section \<open>The two gates agree\<close>

text \<open>Scheduler facts that describe the same Mission and attempt.\<close>

definition same_mission :: "recovery_facts \<Rightarrow> scheduler_facts \<Rightarrow> bool" where
  "same_mission f g \<longleftrightarrow> sf_mission_state g = rf_mission_state f \<and> sf_attempt_state g = rf_attempt_state f
     \<and> sf_reply_state g = rf_reply_state f \<and> sf_handoff_state g = rf_handoff_state f
     \<and> sf_permission_state g = rf_permission_state f"

text \<open>A computation whose decision, if any, is of one of the kinds \<open>S\<close>.\<close>

definition yields :: "decision_kind set \<Rightarrow> scheduler_error + scheduler_decision \<Rightarrow> bool" where
  "yields S m \<longleftrightarrow> (\<forall>d. m = Inr d \<longrightarrow> sd_kind d \<in> S)"

lemma yields_if: "(c \<Longrightarrow> yields S a) \<Longrightarrow> (\<not> c \<Longrightarrow> yields S b) \<Longrightarrow> yields S (if c then a else b)"
  by simp

lemma yields_mk: "k \<in> S \<Longrightarrow> yields S (mk_decision k g b)"
  by (auto simp: yields_def mk_decision_def decision_init_def res_simps)

lemma due_cases:
  assumes "due f = Some t"
  obtains (prepare) "rf_attempt_state f = A_none" "t = D_prepare_dispatch"
    | (dispatch) "rf_attempt_state f = A_prepared" "rf_reply_state f = R_none" "rf_handoff_state f = H_none" "t = D_dispatch_prepared"
    | (await) "rf_attempt_state f \<in> {A_submitted, A_running}" "rf_reply_state f = R_none" "rf_handoff_state f = H_none" "t = D_await_worker"
    | (reply) "rf_attempt_state f \<in> {A_completed, A_succeeded}" "rf_reply_state f = R_received" "rf_handoff_state f = H_none" "t = D_validate_reply"
    | (handoff) "rf_attempt_state f \<in> {A_completed, A_succeeded}" "rf_reply_state f = R_validated" "rf_handoff_state f = H_none" "t = D_record_handoff"
    | (activate) "rf_attempt_state f \<in> {A_completed, A_succeeded}" "rf_reply_state f = R_validated" "rf_handoff_state f = H_recorded" "t = D_activate_next"
  using assms
  by (cases "rf_attempt_state f"; cases "rf_reply_state f"; cases "rf_handoff_state f") (auto simp: due.simps Let_def split: if_splits)

text \<open>
  C7: (Refinement.) After a restart the scheduler does nothing that recovery has not allowed: where the two
  gates look at the same Mission and attempt and recovery lets it resume with a transition, the scheduler
  decides that transition, or blocks; only a Mission without an attempt may also have its Worker started
  or be completed.
\<close>

theorem scheduler_follows_recovery:
  assumes "recovery_facts_init kw = Inr f" and "reconcile_gate f = Inr d" and "rd_next d = Some t"
    and "facts_init gkw = Inr g" and "same_mission f g" and "schedule_gate g = Inr e"
  shows "sd_kind e \<in> {t, D_blocked} \<or> t = D_prepare_dispatch \<and> sd_kind e \<in> {D_start_worker, D_complete_mission}"
proof -
  have n: "unobstructed f" "due f = Some t"
    using recovery_resumes_exactly [OF assms(1,2)] assms(3) by (auto split: if_splits)
  have m: "sf_mission_state g \<noteq> M_idle" "sf_mission_state g \<noteq> M_pending_confirmation" "sf_mission_state g \<noteq> M_completed"
      "sf_mission_state g \<noteq> M_stopped" "sf_mission_state g \<noteq> M_interrupted"
      "sf_permission_state g \<noteq> P_pending" "sf_permission_state g \<noteq> P_denied" "sf_permission_state g \<noteq> P_expired"
    using n(1) assms(5) by (auto simp: unobstructed_def same_mission_def)
  have x: "sf_attempt_id g = None \<longleftrightarrow> sf_attempt_state g = A_none"
    using valid_factsD(4) [OF facts_init_valid [OF assms(4)] m(1)] by auto
  note gate = schedule_gate_def gate_blockers_def gate_progress_def Let_def
  have "yields ({t, D_blocked} \<union> (if t = D_prepare_dispatch then {D_start_worker, D_complete_mission} else {})) (schedule_gate g)"
    using n(2)
  proof (cases rule: due_cases)
    case prepare
    then have a: "sf_attempt_state g = A_none" using assms(5) by (auto simp: same_mission_def)
    show ?thesis unfolding gate by (intro yields_if yields_mk) (simp_all add: m x a state_sets prepare)
  next
    case dispatch
    then have a: "sf_attempt_state g = A_prepared" using assms(5) by (auto simp: same_mission_def)
    show ?thesis unfolding gate by (intro yields_if yields_mk) (simp_all add: m x a state_sets dispatch)
  next
    case await
    then have a: "sf_attempt_state g = A_submitted \<or> sf_attempt_state g = A_running" "sf_attempt_state g \<noteq> A_none" "sf_attempt_state g \<noteq> A_prepared" "sf_attempt_state g \<noteq> A_admitting" "sf_attempt_state g \<noteq> A_completed" "sf_attempt_state g \<noteq> A_succeeded" "sf_attempt_state g \<noteq> A_failed" "sf_attempt_state g \<noteq> A_cancelled" "sf_attempt_state g \<noteq> A_interrupted" "sf_attempt_state g \<noteq> A_ambiguous" using assms(5) by (auto simp: same_mission_def)
    show ?thesis unfolding gate by (intro yields_if yields_mk) (simp_all add: m x a state_sets await)
  next
    case reply
    then have a: "sf_attempt_state g = A_completed \<or> sf_attempt_state g = A_succeeded" "sf_reply_state g = R_received" "sf_attempt_state g \<noteq> A_none" "sf_attempt_state g \<noteq> A_prepared" "sf_attempt_state g \<noteq> A_admitting" "sf_attempt_state g \<noteq> A_submitted" "sf_attempt_state g \<noteq> A_running" "sf_attempt_state g \<noteq> A_failed" "sf_attempt_state g \<noteq> A_cancelled" "sf_attempt_state g \<noteq> A_interrupted" "sf_attempt_state g \<noteq> A_ambiguous" using assms(5) by (auto simp: same_mission_def)
    show ?thesis unfolding gate by (intro yields_if yields_mk) (simp_all add: m x a state_sets reply)
  next
    case handoff
    then have a: "sf_attempt_state g = A_completed \<or> sf_attempt_state g = A_succeeded" "sf_reply_state g = R_validated" "sf_handoff_state g = H_none" "sf_attempt_state g \<noteq> A_none" "sf_attempt_state g \<noteq> A_prepared" "sf_attempt_state g \<noteq> A_admitting" "sf_attempt_state g \<noteq> A_submitted" "sf_attempt_state g \<noteq> A_running" "sf_attempt_state g \<noteq> A_failed" "sf_attempt_state g \<noteq> A_cancelled" "sf_attempt_state g \<noteq> A_interrupted" "sf_attempt_state g \<noteq> A_ambiguous" using assms(5) by (auto simp: same_mission_def)
    show ?thesis unfolding gate by (intro yields_if yields_mk) (simp_all add: m x a state_sets handoff)
  next
    case activate
    then have a: "sf_attempt_state g = A_completed \<or> sf_attempt_state g = A_succeeded" "sf_reply_state g = R_validated" "sf_handoff_state g = H_recorded" "sf_attempt_state g \<noteq> A_none" "sf_attempt_state g \<noteq> A_prepared" "sf_attempt_state g \<noteq> A_admitting" "sf_attempt_state g \<noteq> A_submitted" "sf_attempt_state g \<noteq> A_running" "sf_attempt_state g \<noteq> A_failed" "sf_attempt_state g \<noteq> A_cancelled" "sf_attempt_state g \<noteq> A_interrupted" "sf_attempt_state g \<noteq> A_ambiguous" using assms(5) by (auto simp: same_mission_def)
    show ?thesis unfolding gate by (intro yields_if yields_mk) (simp_all add: m x a state_sets activate)
  qed
  then show ?thesis using assms(6) by (auto simp: yields_def split: if_splits)
qed

theorem scheduler_follows_recovery_witness:
  "\<exists>e. schedule_gate example_facts = Inr e \<and> sd_kind e \<in> {D_dispatch_prepared, D_blocked}"
proof -
  let ?f = "(ex_recovery_facts A_prepared C_none K_acp)\<lparr>rf_mission_state := sf_mission_state example_facts\<rparr>"
  have i: "recovery_facts_init (dget (recovery_facts_summary ?f)) = Inr ?f"
    by (simp add: recovery_facts_init_def recovery_state_of_name state_of_name ex_recovery_facts_def Let_def example_facts_def)
  obtain d where d: "reconcile_gate ?f = Inr d"
    using reconcile_gate_decides [OF recovery_facts_init_valid [OF i]] by (auto simp: decides_def split: sum.splits)
  have n: "rd_next d = Some D_dispatch_prepared"
    using recovery_resumes_exactly [OF i d] by (simp add: due.simps unobstructed_def ex_recovery_facts_def example_facts_def)
  have "same_mission ?f example_facts" by (simp add: same_mission_def ex_recovery_facts_def example_facts_def)
  then show ?thesis
    using scheduler_follows_recovery [OF i d n example_facts_init _ example_facts_gate] example_facts_gate by auto
qed

end
