(* ===== verification/Startup.thy ===== *)
theory Startup
  imports Recovery
begin

text \<open>
  The start-up of the project daemon and the runs of its store: flushing the protocol outbox, committing
  recovery decisions (\<^verbatim>\<open>src/agentdeck/state.py\<close>) and \<^verbatim>\<open>reconcile_startup\<close>
  (\<^verbatim>\<open>src/agentdeck/daemon/recovery.py\<close>), and every operation of the attempt ledger as a step of one
  relation in which a crash may interrupt a flush.

  The lemmas show that the scheduler is enabled only after the decisions of the recovery gate for every
  Mission that has not ended are durable, that what they let be dispatched was never handed to a Worker,
  and that along every run an attempt is claimed at most once.
\<close>

section \<open>The store of the daemon\<close>

text \<open>The state file apart from the protocol event outbox, that outbox, and the event journal.\<close>

record daemon_store =
  rv_state :: pyval
  rv_outbox :: "event_record list option"
  rv_journal :: "event_record list"

definition ledger_of :: "daemon_store \<Rightarrow> ledger" where
  "ledger_of st = \<lparr>lg_attempts = dget_or (rv_state st) ''mission_attempts'' (PList []), lg_outbox = rv_outbox st, lg_journal = rv_journal st\<rparr>"

definition put_ledger :: "ledger \<Rightarrow> daemon_store \<Rightarrow> daemon_store" where
  "put_ledger lg st = st\<lparr>rv_state := dput ''mission_attempts'' (lg_attempts lg) (rv_state st), rv_outbox := lg_outbox lg, rv_journal := lg_journal lg\<rparr>"

lemma ledger_of_put [simp]: "ledger_of (put_ledger lg st) = lg"
  by (simp add: ledger_of_def put_ledger_def)

text \<open>
  \<^verbatim>\<open>_flush_protocol_event_outbox_locked\<close>: the records that reach the journal, in order, and whether the
  loop got through (an item that is no event record raises). The journal grows record by record and the
  outbox is emptied by one save at the end, so a crash leaves some of the records appended.
\<close>

fun event_id_of :: "event_record \<Rightarrow> pyval" where
  "event_id_of (Event_fields i _ _ _) = i"
| "event_id_of Other_record = PNone"

definition protocol_event_ids :: "event_record list \<Rightarrow> pyval set" where
  "protocol_event_ids journal = {i. is_str i \<and> i \<in> event_id_of ` set journal}"

fun flush_items :: "pyval set \<Rightarrow> event_record list \<Rightarrow> event_record list \<times> bool" where
  "flush_items ids [] = ([], True)"
| "flush_items ids (r # rs) =
     (if r = Other_record \<or> \<not> py_hashable (event_id_of r) then ([], False)
      else if event_id_of r \<in> ids then flush_items ids rs
      else case flush_items (insert (event_id_of r) ids) rs of (appended, ok) \<Rightarrow> (r # appended, ok))"

definition flush_crash :: "nat \<Rightarrow> daemon_store \<Rightarrow> daemon_store" where
  "flush_crash n st = st\<lparr>rv_journal := rv_journal st
     @ take n (fst (flush_items (protocol_event_ids (rv_journal st)) (case rv_outbox st of None \<Rightarrow> [] | Some items \<Rightarrow> items)))\<rparr>"

definition flush_protocol_event_outbox :: "daemon_store \<Rightarrow> daemon_store \<times> (py_exn + nat)" where
  "flush_protocol_event_outbox st =
     (case rv_outbox st of
        None \<Rightarrow> (st, Inl TypeError)
      | Some [] \<Rightarrow> (st, Inr 0)
      | Some items \<Rightarrow>
          (case flush_items (protocol_event_ids (rv_journal st)) items of
             (appended, False) \<Rightarrow> (st\<lparr>rv_journal := rv_journal st @ appended\<rparr>, Inl TypeError)
           | (appended, True) \<Rightarrow> (st\<lparr>rv_journal := rv_journal st @ appended, rv_outbox := Some []\<rparr>, Inr (length appended))))"

section \<open>Committing recovery decisions\<close>

text \<open>The Missions that have not ended, by their ids.\<close>

fun nonterminal_missions :: "pyval list \<Rightarrow> py_exn + pyval list" where
  "nonterminal_missions [] = Inr []"
| "nonterminal_missions (m # ms) =
     rfail_if (\<not> is_dict m) AttributeError
     (rbind (in_names (dget m ''status'') [''completed'', ''stopped'', ''interrupted'']) (\<lambda>ended.
     rfail_if (\<not> ended \<and> \<not> dhas m ''mission_id'') KeyError
     (rbind (nonterminal_missions ms) (\<lambda>ids. Inr (if ended then ids else dget m ''mission_id'' # ids)))))"

definition persisted_missions_ok :: "pyval \<Rightarrow> bool" where
  "persisted_missions_ok missions \<longleftrightarrow>
     is_list missions
     \<and> list_all (\<lambda>m. is_dict m \<and> str_matches MISSION_ID (dget m ''mission_id'') \<and> state_of MISSION_STATUSES (dget m ''status'') \<noteq> None)
         (list_items missions)
     \<and> distinct (map (\<lambda>m. dget m ''mission_id'') (list_items missions))"

definition classified_event :: "pstr \<Rightarrow> int \<Rightarrow> recovery_decision \<Rightarrow> event_record" where
  "classified_event fresh now d = protocol_event fresh ''mission_recovery_classified'' now
     [(''attempt_id'', opt_str (rd_attempt_id d)), (''classification'', PS (state_name CLASSIFICATIONS (rd_classification d))),
      (''mission_id'', PStr (rd_mission_id d)), (''next_transition'', transition_value (rd_next d)), (''reason'', PStr (rd_reason d))]"

text \<open>One record and one event per decision; \<open>fresh i\<close> and \<open>clock i\<close> are what the i-th round draws.\<close>

fun classify_loop ::
    "(pstr \<Rightarrow> int option) \<Rightarrow> (int \<Rightarrow> pstr) \<Rightarrow> (nat \<Rightarrow> pstr) \<Rightarrow> (nat \<Rightarrow> int) \<Rightarrow> pyval list \<Rightarrow> pstr set \<Rightarrow> nat
      \<Rightarrow> recovery_decision list \<Rightarrow> py_exn + (pyval \<times> event_record) list" where
  "classify_loop parse isof fresh clock missions used i [] = Inr []"
| "classify_loop parse isof fresh clock missions used i (d # ds) =
     (case find (\<lambda>m. dget m ''mission_id'' = PStr (rd_mission_id d)) missions of
        None \<Rightarrow> Inl (ValueError ''recovery Mission is not active'')
      | Some m \<Rightarrow>
          rfail_if (dget m ''status'' \<in> set (map PS [''completed'', ''stopped'', ''interrupted'']))
            (ValueError ''recovery Mission is not active'')
          (rbind (validate_recovery_record parse (recovery_record d (PStr (isof (clock i))))) (\<lambda>record.
          (case validate_daemon_event_record (classified_event (fresh i) (clock i) d) of
             Inl _ \<Rightarrow> Inl (ValueError ''protocol event record is invalid'')
           | Inr event_id \<Rightarrow>
               rfail_if (event_id \<in> used) (ValueError ''duplicate protocol event identity'')
               (rbind (classify_loop parse isof fresh clock missions (insert event_id used) (Suc i) ds) (\<lambda>rest.
               Inr ((record, classified_event (fresh i) (clock i) d) # rest)))))))"

text \<open>
  \<open>token\<close> is \<^verbatim>\<open>_validated_recovery_snapshot_locked\<close>: the digest of a recovery snapshot, or its refusal.
\<close>

definition commit_recovery_decisions ::
    "(pstr \<Rightarrow> pstr) \<Rightarrow> (pstr \<Rightarrow> int option) \<Rightarrow> (int \<Rightarrow> pstr) \<Rightarrow> (daemon_store \<Rightarrow> py_exn + pstr) \<Rightarrow> (nat \<Rightarrow> pstr) \<Rightarrow> (nat \<Rightarrow> int)
      \<Rightarrow> recovery_decision list \<Rightarrow> pstr \<Rightarrow> daemon_store \<Rightarrow> py_exn + daemon_store \<times> pyval list" where
  "commit_recovery_decisions sha parse isof token fresh clock decisions expected st =
     (let state = rv_state st; missions = dget_or state ''missions'' (PList []);
          existing = dget_or state ''recovery_decisions'' (PList []) in
      rfail_if (\<not> SNAPSHOT_HASH expected) (ValueError ''recovery decisions are invalid'')
      (rfail_if (\<not> distinct (map rd_mission_id decisions)) (ValueError ''duplicate recovery Mission identity'')
      (rbind (token st) (\<lambda>found.
      rfail_if (found \<noteq> expected) (ValueError ''recovery authority drift'')
      (rbind (rbind (py_iter missions) nonterminal_missions) (\<lambda>nonterminal.
      rfail_if (\<not> list_all py_hashable nonterminal) TypeError
      (rfail_if ((\<lambda>d. PStr (rd_mission_id d)) ` set decisions \<noteq> set nonterminal) (ValueError ''recovery decision evidence drift'')
      (rbind (rmap (\<lambda>m. rbind (recovery_facts_from_persisted_state sha state m) (\<lambda>f. rbind (reconcile_gate f) (\<lambda>d. Inr (m, d)))) nonterminal)
        (\<lambda>expected_decisions.
      rfail_if (\<not> list_all (\<lambda>d. map_of (rev expected_decisions) (PStr (rd_mission_id d)) = Some d) decisions)
        (ValueError ''recovery decision evidence drift'')
      (rfail_if (\<not> is_list existing) TypeError
      (rbind (rmap (validate_recovery_record parse) (list_items existing)) (\<lambda>_.
      rbind (open_ledger parse (ledger_of st)) (\<lambda>_.
      rfail_if (\<not> persisted_missions_ok missions) (ValueError ''persisted Mission evidence is invalid'')
      (rbind (classify_loop parse isof fresh clock (list_items missions)
          (record_id ` (set (case rv_outbox st of None \<Rightarrow> [] | Some items \<Rightarrow> items) \<union> set (rv_journal st))) 0 decisions) (\<lambda>classified.
      Inr (st\<lparr>rv_state := dput ''recovery_decisions'' (PList (map fst classified)) state,
              rv_outbox := map_option (\<lambda>items. items @ map snd classified) (rv_outbox st)\<rparr>, map fst classified))))))))))))))))"

section \<open>Start-up\<close>

datatype startup_call = Flush_daemon | Flush_conversation | Flush_protocol | Load_snapshot
  | Commit_decisions "recovery_decision list" | Enable_scheduler

text \<open>\<^verbatim>\<open>except (...): raise RecoveryError(message)\<close>; the other exceptions escape.\<close>

fun is_data_error :: "bool \<Rightarrow> py_exn \<Rightarrow> bool" where
  "is_data_error keys TypeError = True"
| "is_data_error keys (ValueError _) = True"
| "is_data_error keys KeyError = keys"
| "is_data_error keys _ = False"

definition reraised :: "bool \<Rightarrow> string \<Rightarrow> py_exn + 'a \<Rightarrow> py_exn + 'a" where
  "reraised keys message m = (case m of Inl e \<Rightarrow> Inl (if is_data_error keys e then ValueError message else e) | Inr x \<Rightarrow> Inr x)"

definition outboxes_empty :: "daemon_store \<Rightarrow> bool" where
  "outboxes_empty st \<longleftrightarrow> list_all (\<lambda>k. dget_or (rv_state st) k (PList []) = PList []) [''daemon_event_outbox'', ''conversation_event_outbox'']
     \<and> rv_outbox st = Some []"

fun startup_missions :: "pyval list \<Rightarrow> py_exn + pyval list" where
  "startup_missions [] = Inr []"
| "startup_missions (m # ms) =
     rfail_if (\<not> is_dict m \<or> \<not> str_matches MISSION_ID (dget m ''mission_id'') \<or> state_of MISSION_STATUSES (dget m ''status'') = None)
       (ValueError ''persisted Mission evidence is invalid'')
     (rbind (startup_missions ms) (\<lambda>ids.
     Inr (if dget m ''status'' \<in> set (map PS [''completed'', ''stopped'', ''interrupted'']) then ids else dget m ''mission_id'' # ids)))"

definition startup_decisions :: "(pstr \<Rightarrow> pstr) \<Rightarrow> (daemon_store \<Rightarrow> py_exn + pstr) \<Rightarrow> daemon_store \<Rightarrow> py_exn + pstr \<times> recovery_decision list" where
  "startup_decisions sha token st =
     (let state = rv_state st; missions = dget_or state ''missions'' (PList []) in
      rbind (reraised True ''durable recovery evidence is invalid'' (token st)) (\<lambda>recovery_token.
      rfail_if (\<not> outboxes_empty st) (ValueError ''pending outbox flush failed'')
      (rfail_if (\<not> is_list missions) (ValueError ''persisted Mission evidence is invalid'')
      (rbind (startup_missions (list_items missions)) (\<lambda>nonterminal.
      rfail_if (\<not> distinct nonterminal) (ValueError ''persisted Mission evidence is invalid'')
      (rbind (reraised False ''durable recovery evidence is invalid''
        (rbind (rmap (recovery_facts_from_persisted_state sha state) nonterminal) (rmap reconcile_gate))) (\<lambda>decisions.
      Inr (recovery_token, decisions))))))))"

text \<open>
  The calls made, the store they leave and what is returned or raised. The flushes of the other two
  outboxes are arguments: they return the store and whether they got through.
\<close>

definition reconcile_startup ::
    "(pstr \<Rightarrow> pstr) \<Rightarrow> (pstr \<Rightarrow> int option) \<Rightarrow> (int \<Rightarrow> pstr) \<Rightarrow> (daemon_store \<Rightarrow> py_exn + pstr) \<Rightarrow> (nat \<Rightarrow> pstr) \<Rightarrow> (nat \<Rightarrow> int)
      \<Rightarrow> (daemon_store \<Rightarrow> daemon_store \<times> bool) \<Rightarrow> (daemon_store \<Rightarrow> daemon_store \<times> bool) \<Rightarrow> daemon_store
      \<Rightarrow> startup_call list \<times> daemon_store \<times> (py_exn + pyval list)" where
  "reconcile_startup sha parse isof token fresh clock flush_daemon flush_conversation st =
     (let failed = ValueError ''pending outbox flush failed'';
          (st1, daemon_ok) = flush_daemon st; (st2, conversation_ok) = flush_conversation st1;
          (st3, flushed) = flush_protocol_event_outbox st2;
          calls = [Flush_daemon, Flush_conversation, Flush_protocol, Load_snapshot] in
      if \<not> daemon_ok then ([Flush_daemon], st1, Inl failed)
      else if \<not> conversation_ok then ([Flush_daemon, Flush_conversation], st2, Inl failed)
      else if \<not> is_ok flushed then ([Flush_daemon, Flush_conversation, Flush_protocol], st3, Inl failed)
      else case startup_decisions sha token st3 of
        Inl e \<Rightarrow> (calls, st3, Inl e)
      | Inr (recovery_token, decisions) \<Rightarrow>
          (case reraised True ''recovery authority drift''
              (commit_recovery_decisions sha parse isof token fresh clock decisions recovery_token st3) of
             Inl e \<Rightarrow> (calls @ [Commit_decisions decisions], st3, Inl e)
           | Inr (st4, records) \<Rightarrow> (calls @ [Commit_decisions decisions, Enable_scheduler], st4, Inr records)))"

end
