(* ===== verification/Spec2Isabelle.thy ===== *)
theory Spec2Isabelle
  imports Step_Dag Scheduler Lease Lease_Store Review_Group Review_Verdict Review_Digest Review_Iteration
    Delegation Canonical_Json Governance Conversation Run_Loop
    Attempt_Ledger Worker_Reply Execution_Snapshot Recovery Startup
begin

text \<open>
  A verification development for AgentDeck, a local-first workbench in which a human and a Leader
  agent drive several Worker agents (terminal panes over tmux, or adapters over ACP) through a plan.

  \<^bold>\<open>The program.\<close> All durable state is one JSON file and an append-only journal of events per project,
  both behind \<^verbatim>\<open>StateStore\<close> (\<^verbatim>\<open>src/agentdeck/state.py\<close>), which runs every operation under a lock, saves
  once at its end, and hands events to the journal through an outbox. Two drivers work on that state.
  The \<^emph>\<open>run loop\<close> of the command line (\<^verbatim>\<open>cli.py\<close>) takes a plan wave by wave: it approves within a policy,
  dispatches steps whose ancestors are complete, reads replies, and turns a failed review into a rework
  round. The \<^emph>\<open>project daemon\<close> (\<^verbatim>\<open>daemon/\<close>) runs one Mission at a time: a controller lease decides which
  client may command it, a pure scheduler gate names the one next transition, an attempt is prepared,
  claimed and submitted to its Worker, the reply becomes a canonical handoff, and after a crash a recovery
  gate decides what may go on. Effects outside the project pass the governance gates.

  \<^bold>\<open>The library.\<close> \<open>Prelude\<close> holds results (\<open>'e + 'a\<close>, \<open>rbind\<close>, \<open>rmap\<close>, \<open>rfail_if\<close>), strings as lists of
  code points and insertion ordered dictionaries; \<open>PyValue\<close> the values of the JSON ledger with the Python
  operations the code applies to them untyped, and the exceptions they raise. Every raise and early return
  of the source is a branch of the model. The other theories are one component each:

  \<^item> \<open>Step_Dag\<close> (\<^verbatim>\<open>step_dag.py\<close>): dependencies of plan steps and their memoised closure. Proved: the walk
    computes the transitive closure on plans without duplicate numbers, review groups fan out, and the
    precise truncation a duplicated number causes. The contract is a locale: dependencies that fall under
    a rank (\<open>ranked_steps\<close>), given by numbered plans (\<open>numbered_plan\<close>), interpreted on expanded plans.
  \<^item> \<open>Scheduler\<close> (\<^verbatim>\<open>daemon/scheduler.py\<close>): \<open>facts_init\<close>, \<open>decision_init\<close>, \<open>schedule_gate\<close>,
    \<open>scheduler_observation\<close>. Proved: the gate never raises on accepted facts, when it dispatches and
    completes, that integrity outranks progress, and the round trip of the facts.
  \<^item> \<open>Lease\<close> and \<open>Lease_Store\<close> (\<^verbatim>\<open>daemon/lease.py\<close>, lease and outbox operations of \<^verbatim>\<open>state.py\<close>): grant,
    renew, expire, release and takeover with their validator, the commit, and the flush of the outbox with
    a crash between its two writes. Proved: what the factories make the validator accepts, fencing along
    every run (the contract \<open>fenced\<close>, interpreted on the store), exactly-once flushing.
  \<^item> \<open>Attempt_Ledger\<close> (\<^verbatim>\<open>state.py\<close>): attempt records, the history of admission claims and the operations
    that write it. The abstract specification is an automaton per attempt (\<open>phase\<close>, \<open>phase_act\<close>); the
    validator of the history refines it, and each operation is one action on its attempt.
  \<^item> \<open>Execution_Snapshot\<close> (\<^verbatim>\<open>state.py\<close>): the frozen snapshot a Mission runs under, and its validator.
  \<^item> \<open>Worker_Reply\<close> (\<^verbatim>\<open>workflow.py\<close>, \<^verbatim>\<open>daemon/service.py\<close>): structured replies and canonical handoffs.
    Proved: a printed reply is read back from any text around it; the validator accepts exactly the compact
    form of what the builder makes within the limits (64 artifacts, 64 trace ids, 32 KiB).
  \<^item> \<open>Recovery\<close> (\<^verbatim>\<open>daemon/recovery.py\<close>): facts from the persisted state, the recovery gate, the durable
    evidence records. Proved: totality, exactly when a restarted daemon goes on, and that the scheduler
    does nothing recovery has not allowed.
  \<^item> \<open>Review_Group\<close>, \<open>Review_Verdict\<close>, \<open>Review_Digest\<close>, \<open>Review_Iteration\<close> (the modules of those names and
    \<^verbatim>\<open>branch_custody.py\<close>): expansion into parallel reviewers, aggregation where any failure blocks, the
    verdict schema, what became of a reviewed branch, and rework rounds. Proved: the fan-out, that a failed
    verdict is never lost, that drift withholds the merge, and that rework ends.
  \<^item> \<open>Delegation\<close> (\<^verbatim>\<open>delegation_match.py\<close>): which shell commands a delegation covers.
  \<^item> \<open>Canonical_Json\<close>, \<open>Governance\<close> (\<^verbatim>\<open>conversation/bindings.py\<close>, \<^verbatim>\<open>daemon/governance.py\<close>, and the preview
    operations of \<^verbatim>\<open>state.py\<close>): canonical text determines the value; an effect needs three gates; a preview
    is consumed once, as it was recorded.
  \<^item> \<open>Conversation\<close> (\<^verbatim>\<open>conversation/models.py\<close>, \<^verbatim>\<open>conversation/lifecycle.py\<close>): life cycles and the projection
    of a history. Proved: the histories accepted are exactly the walks along the tables.
  \<^item> \<open>Run_Loop\<close> (\<^verbatim>\<open>autonomy.py\<close>, \<^verbatim>\<open>dispatch_receptive.py\<close>, one wave of \<^verbatim>\<open>cli.py\<close>): what a wave may send, to
    whom, and what an interrupted dispatch costs.

  \<^bold>\<open>How state corresponds.\<close> A component whose code works on typed records has a \<open>record\<close> with the source's
  fields; one that works on the JSON ledger keeps the dictionaries (\<open>pyval\<close>), because the code's behaviour
  on missing keys, wrong types and unhashable values is part of what is proved. Only the parts of the state
  file an operation reads or writes are in its state. An operation returns the new state; where a crash may
  fall between two writes the stages are separate functions.

  \<^bold>\<open>Arguments of the model.\<close> SHA-256 (\<open>sha\<close>), \<^verbatim>\<open>datetime.fromisoformat\<close> and its inverse (\<open>parse\<close>, \<open>isof\<close>),
  \<^verbatim>\<open>json.loads\<close>, git, the terminal, the clock and freshly drawn identifiers are arguments; the few theorems
  that rely on a law of one name it as a hypothesis and have a witness with a concrete function.

  \<^bold>\<open>Bounds and termination.\<close> No definition uses fuel. Recursion is structural, or by a measure for the
  memoised walk of \<open>Step_Dag\<close> and for Python equality of nested values; the limits of the code (depth 32,
  256 KiB and 32 KiB of JSON, 64-bit integers in a snapshot, 64 items, the review round limit) are constants
  of the model and appear in the statements that depend on them. Python integers are unbounded and are \<open>int\<close>.

  \<^bold>\<open>Not modelled.\<close> The interface: argument parsing, printed payloads and the many read-only views of
  \<^verbatim>\<open>cli.py\<close> and \<^verbatim>\<open>contracts.py\<close> (tables of declarative descriptions), \<^verbatim>\<open>ui.py\<close>, \<^verbatim>\<open>tui.py\<close>, \<^verbatim>\<open>dashboard.py\<close>.
  Processes and sockets: \<^verbatim>\<open>providers/\<close>, \<^verbatim>\<open>runtime/\<close>, the daemon's server, client and process life cycle, whose
  behaviour is that of programs outside the repository. Files and configuration: \<^verbatim>\<open>config.py\<close>, \<^verbatim>\<open>storage/\<close>,
  \<^verbatim>\<open>skills.py\<close>. Semantic planning and authority, Mission orchestration and the daemon's service loop, which
  compose the modelled gates and store operations with effects, are left for later work, as are the rest of
  \<^verbatim>\<open>state.py\<close> (its plain append operations and views) and file locking: each operation of the store is one
  atomic step here. Floating point numbers do not occur in the ledger parts modelled.
\<close>

end
